(* ===== verification/Kubu_Prelude.thy ===== *)
theory Kubu_Prelude
  imports Main "HOL-Library.Word"
begin

text \<open>
  Shared vocabulary of the development: bytes and strings, the result type of the
  C++ functions that report a failure through a \<open>std::string* reason\<close>, the character
  classes of the C locale the sources rely on, and generic list lemmas.
\<close>

subsection \<open>Types\<close>

type_synonym byte = "8 word"
type_synonym CAmount = int
type_synonym reason = string
type_synonym 'a result = "reason + 'a"

named_theorems kubu_defs \<open>definitions that component proofs unfold together\<close>
named_theorems kubu_bounds \<open>range facts about amounts, sizes and heights\<close>

text \<open>\<^verbatim>\<open>COIN\<close> and \<^verbatim>\<open>MAX_MONEY\<close> of amount.h.\<close>

definition COIN :: CAmount where
  "COIN = 100000000"

definition MAX_MONEY :: CAmount where
  "MAX_MONEY = 800000000 * COIN"

definition MoneyRange :: "CAmount \<Rightarrow> bool" where
  "MoneyRange nValue \<longleftrightarrow> nValue \<ge> 0 \<and> nValue \<le> MAX_MONEY"

text \<open>The range of the C++ type \<^verbatim>\<open>int64_t\<close>, in which signed arithmetic is defined.\<close>

definition fits_int64 :: "int \<Rightarrow> bool" where
  "fits_int64 x \<longleftrightarrow> - (2 ^ 63) \<le> x \<and> x < 2 ^ 63"

subsection \<open>Characters of the C locale\<close>

definition char_code :: "char \<Rightarrow> nat" where
  "char_code c = of_char c"

definition isspace :: "char \<Rightarrow> bool" where
  "isspace c \<longleftrightarrow> char_code c = 32 \<or> (9 \<le> char_code c \<and> char_code c \<le> 13)"

definition isdigit :: "char \<Rightarrow> bool" where
  "isdigit c \<longleftrightarrow> 48 \<le> char_code c \<and> char_code c \<le> 57"

definition isupper :: "char \<Rightarrow> bool" where
  "isupper c \<longleftrightarrow> 65 \<le> char_code c \<and> char_code c \<le> 90"

definition islower :: "char \<Rightarrow> bool" where
  "islower c \<longleftrightarrow> 97 \<le> char_code c \<and> char_code c \<le> 122"

definition isalnum :: "char \<Rightarrow> bool" where
  "isalnum c \<longleftrightarrow> isdigit c \<or> isupper c \<or> islower c"

definition tolower :: "char \<Rightarrow> char" where
  "tolower c = (if isupper c then char_of (char_code c + 32) else c)"

lemmas ctype_defs = isspace_def isdigit_def isupper_def islower_def isalnum_def

lemma char_code_less [simp]: "char_code c < 256"
proof -
  have "char_code c = char_code c mod 256"
    by (simp add: char_code_def)
  also have "\<dots> < 256" by simp
  finally show ?thesis .
qed

lemma char_code_inj [simp]: "char_code c = char_code d \<longleftrightarrow> c = d"
  by (simp add: char_code_def)

lemma char_code_char_of [simp]: "n < 256 \<Longrightarrow> char_code (char_of n) = n"
  by (simp add: char_code_def take_bit_eq_mod)

lemma tolower_id [simp]: "\<not> isupper c \<Longrightarrow> tolower c = c"
  by (simp add: tolower_def)

lemma tolower_not_upper [simp]: "\<not> isupper (tolower c)"
  by (auto simp: tolower_def isupper_def)

lemma tolower_idem [simp]: "tolower (tolower c) = tolower c"
  by simp

subsection \<open>Bytes and characters\<close>

text \<open>A \<^verbatim>\<open>std::string\<close> is a sequence of \<^verbatim>\<open>char\<close>, written to a stream as bytes.\<close>

definition byte_of :: "char \<Rightarrow> byte" where
  "byte_of c = word_of_nat (char_code c)"

definition char_of_byte :: "byte \<Rightarrow> char" where
  "char_of_byte b = char_of (unat b)"

lemma unat_byte_less [simp]: "unat (b :: byte) < 256"
  by (rule order_less_le_trans [OF unsigned_less]) simp

lemma char_of_byte_of [simp]: "char_of_byte (byte_of c) = c"
  by (simp add: char_of_byte_def byte_of_def unat_of_nat char_code_def)

lemma byte_of_char_of_byte [simp]: "byte_of (char_of_byte b) = b"
  by (simp add: char_of_byte_def byte_of_def)

lemma map_char_of_byte_of [simp]: "map char_of_byte (map byte_of s) = s"
  by (simp add: comp_def)

subsection \<open>Results\<close>

definition ok :: "'a result \<Rightarrow> bool" where
  "ok r \<longleftrightarrow> \<not> isl r"

lemma ok_simps [simp]: "ok (Inr x)" "\<not> ok (Inl e)"
  by (simp_all add: ok_def)

lemma okE: assumes "ok r" obtains x where "r = Inr x"
  using assms by (cases r) auto

text \<open>
  Sequencing of fallible calls: \<^const>\<open>Inl\<close> leaves the function with the reason, as
  \<^verbatim>\<open>if (!f(...)) return false;\<close> does. \<open>require\<close> is a guard with its rejection reason.
\<close>

primrec rbind :: "'e + 'a \<Rightarrow> ('a \<Rightarrow> 'e + 'b) \<Rightarrow> 'e + 'b" where
  "rbind (Inl e) f = Inl e"
| "rbind (Inr x) f = f x"

definition require :: "bool \<Rightarrow> reason \<Rightarrow> unit result" where
  "require c e = (if c then Inr () else Inl e)"

lemma require_simps [simp]:
  "require True e = Inr ()" "require False e = Inl e"
  by (simp_all add: require_def)

lemma require_iff [simp]: "require c e = Inr u \<longleftrightarrow> c" "Inr u = require c e \<longleftrightarrow> c"
  by (simp_all add: require_def)

lemma rbind_Inr_iff: "rbind r f = Inr y \<longleftrightarrow> (\<exists>x. r = Inr x \<and> f x = Inr y)"
  by (cases r) auto

lemma rbind_Inl_iff: "rbind r f = Inl e \<longleftrightarrow> r = Inl e \<or> (\<exists>x. r = Inr x \<and> f x = Inl e)"
  by (cases r) auto

lemma require_Inl_iff [simp]: "require c e = Inl e' \<longleftrightarrow> \<not> c \<and> e = e'"
  by (simp add: require_def)

lemma rbind_require_iff: "rbind (require c e) f = Inr y \<longleftrightarrow> c \<and> f () = Inr y"
  by (simp add: require_def)

lemma rbind_cong [fundef_cong]:
  "r = s \<Longrightarrow> (\<And>x. s = Inr x \<Longrightarrow> f x = g x) \<Longrightarrow> rbind r f = rbind s g"
  by (cases s) simp_all

text \<open>A fallible function applied to the elements of a list from left to right.\<close>

fun rmap :: "('a \<Rightarrow> 'e + 'b) \<Rightarrow> 'a list \<Rightarrow> 'e + 'b list" where
  "rmap f [] = Inr []"
| "rmap f (x # xs) = rbind (f x) (\<lambda>y. rbind (rmap f xs) (\<lambda>ys. Inr (y # ys)))"

lemma rmap_cong [fundef_cong]:
  "xs = ys \<Longrightarrow> (\<And>x. x \<in> set ys \<Longrightarrow> f x = g x) \<Longrightarrow> rmap f xs = rmap g ys"
proof (induction ys arbitrary: xs)
  case (Cons y ys)
  then have "rmap f ys = rmap g ys" by auto
  then show ?case using Cons.prems by simp
qed simp

lemma rmap_Inr: "(\<And>x. x \<in> set xs \<Longrightarrow> f x = Inr (g x)) \<Longrightarrow> rmap f xs = Inr (map g xs)"
  by (induction xs) simp_all

lemma rmap_total: "(\<And>x. x \<in> set xs \<Longrightarrow> \<exists>y. f x = Inr y) \<Longrightarrow> \<exists>ys. rmap f xs = Inr ys"
  by (induction xs) (auto simp: rbind_Inr_iff)

subsection \<open>Lists\<close>

text \<open>Trimming of a suffix.\<close>

definition rdropWhile :: "('a \<Rightarrow> bool) \<Rightarrow> 'a list \<Rightarrow> 'a list" where
  "rdropWhile P xs = rev (dropWhile P (rev xs))"

lemma rdropWhile_id: "xs = [] \<or> \<not> P (last xs) \<Longrightarrow> rdropWhile P xs = xs"
  by (cases xs rule: rev_cases) (auto simp: rdropWhile_def)

lemma rdropWhile_snoc [simp]:
  "rdropWhile P (xs @ [x]) = (if P x then rdropWhile P xs else xs @ [x])"
  by (simp add: rdropWhile_def)

lemma rdropWhile_Nil [simp]: "rdropWhile P [] = []"
  by (simp add: rdropWhile_def)

lemma map_nth_upt_take_drop:
  "e \<le> length xs \<Longrightarrow> map (\<lambda>i. f (xs ! i)) [b..<e] = map f (drop b (take e xs))"
  by (rule nth_equalityI) auto

lemma funpow_Suc_in: "(g ^^ Suc n) x = (g ^^ n) (g x)"
  by (simp add: funpow_swap1)

lemma div_100_bounds:
  "100 * (n div 100) \<le> (n :: int)" "n < 100 * (n div 100) + 100"
  by presburger+

end
