(* ===== verification/Nicknames.thy ===== *)
theory Nicknames
  imports Kubu_Prelude
begin

text \<open>
  The nickname rules of \<^verbatim>\<open>src/src/nicknames.h\<close> and \<^verbatim>\<open>src/src/nicknames.cpp\<close>:
  normalisation and validity of names, the pricing of registrations and renewals, the
  adaptive pricing multiplier, and the life cycle of a registration.

  Amounts, multipliers and heights are the C++ signed integers, modelled by \<^typ>\<open>int\<close>;
  every division of the code has non-negative operands, so \<open>div\<close> is C++'s \<^verbatim>\<open>/\<close> there.
  That no intermediate value leaves \<^verbatim>\<open>int64_t\<close> is proved below.
  \<^verbatim>\<open>ActiveBlocks()\<close> and \<^verbatim>\<open>GraceBlocks()\<close> read command line options with the constants
  below as defaults; the options are a parameter.
\<close>

subsection \<open>Constants\<close>

definition MIN_LENGTH :: nat where "MIN_LENGTH = 4"
definition MAX_LENGTH :: nat where "MAX_LENGTH = 16"
definition ACTIVE_BLOCKS :: int where "ACTIVE_BLOCKS = 144000"
definition GRACE_BLOCKS :: int where "GRACE_BLOCKS = 14400"
definition RENEWAL_PERCENT :: int where "RENEWAL_PERCENT = 25"
definition PRICING_WINDOW_BLOCKS :: int where "PRICING_WINDOW_BLOCKS = 11200"
definition PRICING_EPOCH_BLOCKS :: int where "PRICING_EPOCH_BLOCKS = 1600"
definition PRICING_TARGET_REGISTRATIONS_7D :: int where "PRICING_TARGET_REGISTRATIONS_7D = 280"
definition PRICING_ALPHA_PERCENT :: int where "PRICING_ALPHA_PERCENT = 20"
definition PRICING_STEP_LIMIT_PERCENT :: int where "PRICING_STEP_LIMIT_PERCENT = 10"
definition DEFAULT_PRICING_MULTIPLIER_PERMILLE :: int where
  "DEFAULT_PRICING_MULTIPLIER_PERMILLE = 1000"
definition MIN_PRICING_MULTIPLIER_PERMILLE :: int where "MIN_PRICING_MULTIPLIER_PERMILLE = 500"
definition MAX_PRICING_MULTIPLIER_PERMILLE :: int where "MAX_PRICING_MULTIPLIER_PERMILLE = 3000"

lemmas nickname_constants =
  MIN_LENGTH_def MAX_LENGTH_def RENEWAL_PERCENT_def PRICING_WINDOW_BLOCKS_def
  PRICING_EPOCH_BLOCKS_def PRICING_TARGET_REGISTRATIONS_7D_def PRICING_ALPHA_PERCENT_def
  PRICING_STEP_LIMIT_PERCENT_def DEFAULT_PRICING_MULTIPLIER_PERMILLE_def
  MIN_PRICING_MULTIPLIER_PERMILLE_def MAX_PRICING_MULTIPLIER_PERMILLE_def

record NicknameOptions =
  opt_activeblocks :: "int option"
  opt_graceblocks :: "int option"

definition ActiveBlocks :: "NicknameOptions \<Rightarrow> int" where
  "ActiveBlocks opts = (case opt_activeblocks opts of None \<Rightarrow> ACTIVE_BLOCKS | Some n \<Rightarrow> n)"

definition GraceBlocks :: "NicknameOptions \<Rightarrow> int" where
  "GraceBlocks opts = (case opt_graceblocks opts of None \<Rightarrow> GRACE_BLOCKS | Some n \<Rightarrow> n)"

subsection \<open>Normalisation and validity\<close>

definition IsAsciiLowerLetter :: "char \<Rightarrow> bool" where
  "IsAsciiLowerLetter c \<longleftrightarrow> char_code c \<ge> 97 \<and> char_code c \<le> 122"

definition IsAsciiDigit :: "char \<Rightarrow> bool" where
  "IsAsciiDigit c \<longleftrightarrow> char_code c \<ge> 48 \<and> char_code c \<le> 57"

definition IsAllowedChar :: "char \<Rightarrow> bool" where
  "IsAllowedChar c \<longleftrightarrow> IsAsciiLowerLetter c \<or> IsAsciiDigit c \<or> c = CHR ''_''"

text \<open>The two trimming loops of \<^verbatim>\<open>NormalizeNickname\<close>.\<close>

function skip_begin :: "string \<Rightarrow> nat \<Rightarrow> nat \<Rightarrow> nat" where
  "skip_begin input b e =
     (if b < e \<and> isspace (input ! b) then skip_begin input (Suc b) e else b)"
  by pat_completeness auto
termination by (relation "measure (\<lambda>(input, b, e). e - b)") auto

function skip_end :: "string \<Rightarrow> nat \<Rightarrow> nat \<Rightarrow> nat" where
  "skip_end input b e =
     (if e > b \<and> isspace (input ! (e - 1)) then skip_end input b (e - 1) else e)"
  by pat_completeness auto
termination by (relation "measure (\<lambda>(input, b, e). e)") auto

declare skip_begin.simps [simp del] skip_end.simps [simp del]

definition NormalizeNickname :: "string \<Rightarrow> string" where
  "NormalizeNickname input =
     (let b = skip_begin input 0 (length input);
          e = skip_end input b (length input);
          b' = (if b < e \<and> input ! b = CHR ''@'' then Suc b else b)
      in map (\<lambda>i. tolower (input ! i)) [b'..<e])"

text \<open>The scan of \<^verbatim>\<open>IsValidNormalizedNickname\<close>: the reason of a failure, or \<^verbatim>\<open>hasLetter\<close>.\<close>

fun valid_scan :: "bool \<Rightarrow> bool \<Rightarrow> string \<Rightarrow> bool result" where
  "valid_scan hasLetter previousUnderscore [] = Inr hasLetter"
| "valid_scan hasLetter previousUnderscore (c # cs) =
     (if \<not> IsAllowedChar c then
        Inl ''nickname may only contain lowercase ascii letters, digits, and underscores''
      else if c = CHR ''_'' then
        (if previousUnderscore then Inl ''nickname cannot contain consecutive underscores''
         else valid_scan hasLetter True cs)
      else valid_scan (hasLetter \<or> IsAsciiLowerLetter c) False cs)"

definition IsValidNormalizedNickname :: "string \<Rightarrow> unit result" where
  "IsValidNormalizedNickname name =
     (if length name < MIN_LENGTH \<or> length name > MAX_LENGTH then
        Inl ''nickname length must be between 4 and 16 characters''
      else if hd name = CHR ''_'' \<or> last name = CHR ''_'' then
        Inl ''nickname cannot start or end with underscore''
      else case valid_scan False False name of
          Inl reason \<Rightarrow> Inl reason
        | Inr hasLetter \<Rightarrow>
            if \<not> hasLetter then Inl ''nickname must contain at least one letter'' else Inr ())"

definition IsValidNickname :: "string \<Rightarrow> unit result" where
  "IsValidNickname input = IsValidNormalizedNickname (NormalizeNickname input)"

abbreviation valid_nickname :: "string \<Rightarrow> bool" where
  "valid_nickname name \<equiv> IsValidNormalizedNickname name = Inr ()"

subsection \<open>Pricing\<close>

record Pricing =
  registrationFee :: CAmount
  bondAmount :: CAmount

definition GetBasePricing :: "nat \<Rightarrow> Pricing" where
  "GetBasePricing normalizedLength =
     (if normalizedLength = 4 then \<lparr>registrationFee = 24 * COIN, bondAmount = 48 * COIN\<rparr>
      else if normalizedLength = 5 then \<lparr>registrationFee = 12 * COIN, bondAmount = 24 * COIN\<rparr>
      else if normalizedLength = 6 then \<lparr>registrationFee = 6 * COIN, bondAmount = 12 * COIN\<rparr>
      else if normalizedLength = 7 then \<lparr>registrationFee = 3 * COIN, bondAmount = 6 * COIN\<rparr>
      else \<lparr>registrationFee = 1 * COIN, bondAmount = 3 * COIN\<rparr>)"

definition ScaleByMultiplierPermille :: "CAmount \<Rightarrow> int \<Rightarrow> CAmount" where
  "ScaleByMultiplierPermille baseAmount multiplierPermille =
     (if baseAmount \<le> 0 \<or> multiplierPermille \<le> 0 then 0
      else (baseAmount * multiplierPermille + 500) div 1000)"

definition ClampPricingMultiplierPermille :: "int \<Rightarrow> int" where
  "ClampPricingMultiplierPermille m =
     (if m < MIN_PRICING_MULTIPLIER_PERMILLE then MIN_PRICING_MULTIPLIER_PERMILLE
      else if m > MAX_PRICING_MULTIPLIER_PERMILLE then MAX_PRICING_MULTIPLIER_PERMILLE
      else m)"

definition ComputeNextPricingMultiplierPermille :: "int \<Rightarrow> int \<Rightarrow> int" where
  "ComputeNextPricingMultiplierPermille previousMultiplierPermille recentRegistrations =
     (let prev = ClampPricingMultiplierPermille previousMultiplierPermille in
      if PRICING_TARGET_REGISTRATIONS_7D \<le> 0 then prev
      else
        let raw = (if recentRegistrations > 0
                   then (recentRegistrations * 1000) div PRICING_TARGET_REGISTRATIONS_7D
                   else 0);
            alpha = PRICING_ALPHA_PERCENT;
            smoothed = ((100 - alpha) * prev + alpha * raw + 50) div 100;
            smoothed = ClampPricingMultiplierPermille smoothed;
            step = PRICING_STEP_LIMIT_PERCENT;
            lowerBound = (prev * (100 - step) + 99) div 100;
            upperBound = (prev * (100 + step)) div 100;
            smoothed = (if smoothed < lowerBound then lowerBound else smoothed);
            smoothed = (if smoothed > upperBound then upperBound else smoothed)
        in ClampPricingMultiplierPermille smoothed)"

definition GetPricing :: "nat \<Rightarrow> int \<Rightarrow> Pricing" where
  "GetPricing normalizedLength multiplierPermille =
     (let base = GetBasePricing normalizedLength;
          clampedMultiplier = ClampPricingMultiplierPermille multiplierPermille
      in \<lparr>registrationFee = ScaleByMultiplierPermille (registrationFee base) clampedMultiplier,
          bondAmount = ScaleByMultiplierPermille (bondAmount base) clampedMultiplier\<rparr>)"

definition GetRenewalFee :: "nat \<Rightarrow> int \<Rightarrow> CAmount" where
  "GetRenewalFee normalizedLength multiplierPermille =
     registrationFee (GetPricing normalizedLength multiplierPermille) * RENEWAL_PERCENT div 100"

definition GetRenewalBondIncrease :: "nat \<Rightarrow> int \<Rightarrow> CAmount" where
  "GetRenewalBondIncrease normalizedLength multiplierPermille =
     GetRenewalFee normalizedLength multiplierPermille"

subsection \<open>Life cycle\<close>

datatype Status = ACTIVE | EXPIRED_GRACE | EXPIRED_AVAILABLE | RELEASED | BOND_CLAIMABLE

definition GetStatus :: "int \<Rightarrow> int \<Rightarrow> int \<Rightarrow> bool \<Rightarrow> bool \<Rightarrow> Status" where
  "GetStatus currentHeight activeUntilHeight graceUntilHeight released bondClaimed =
     (if released then (if bondClaimed then RELEASED else BOND_CLAIMABLE)
      else if currentHeight \<le> activeUntilHeight then ACTIVE
      else if currentHeight \<le> graceUntilHeight then EXPIRED_GRACE
      else if bondClaimed then EXPIRED_AVAILABLE else BOND_CLAIMABLE)"

fun StatusToString :: "Status \<Rightarrow> string" where
  "StatusToString ACTIVE = ''ACTIVE''"
| "StatusToString EXPIRED_GRACE = ''EXPIRED_GRACE''"
| "StatusToString EXPIRED_AVAILABLE = ''EXPIRED_AVAILABLE''"
| "StatusToString RELEASED = ''RELEASED''"
| "StatusToString BOND_CLAIMABLE = ''BOND_CLAIMABLE''"

subsection \<open>Normalisation: the trimming loops as list functions\<close>

lemma skip_begin_dropWhile:
  "e \<le> length input \<Longrightarrow> b \<le> e \<Longrightarrow>
   drop (skip_begin input b e) (take e input) = dropWhile isspace (drop b (take e input)) \<and>
   b \<le> skip_begin input b e \<and> skip_begin input b e \<le> e"
proof (induction input b e rule: skip_begin.induct)
  case (1 input b e)
  show ?case
  proof (cases "b < e")
    case True
    then have "drop b (take e input) = input ! b # drop (Suc b) (take e input)"
      using "1.prems" by (simp add: Cons_nth_drop_Suc [symmetric])
    with True "1.IH" "1.prems" show ?thesis
      by (cases "isspace (input ! b)") (auto simp: skip_begin.simps [of input b e])
  next
    case False
    then have "skip_begin input b e = b" by (subst skip_begin.simps) simp
    with False "1.prems" show ?thesis by simp
  qed
qed

lemma skip_end_rdropWhile:
  "e \<le> length input \<Longrightarrow> b \<le> e \<Longrightarrow>
   drop b (take (skip_end input b e) input) = rdropWhile isspace (drop b (take e input)) \<and>
   b \<le> skip_end input b e \<and> skip_end input b e \<le> e"
proof (induction input b e rule: skip_end.induct)
  case (1 input b e)
  show ?case
  proof (cases "b < e")
    case True
    then obtain k where k: "e = Suc k" by (cases e) auto
    have "drop b (take e input) = drop b (take k input) @ [input ! k]"
      using True "1.prems" k by (simp add: take_Suc_conv_app_nth)
    with True "1.IH" "1.prems" k show ?thesis
      by (cases "isspace (input ! k)") (auto simp: skip_end.simps [of input b "Suc k"])
  next
    case False
    then have "skip_end input b e = e" by (subst skip_end.simps) simp
    with False "1.prems" show ?thesis by simp
  qed
qed

definition strip_at :: "string \<Rightarrow> string" where
  "strip_at s = (case s of [] \<Rightarrow> [] | c # cs \<Rightarrow> if c = CHR ''@'' then cs else s)"

lemma NormalizeNickname_eq:
  "NormalizeNickname input =
     map tolower (strip_at (rdropWhile isspace (dropWhile isspace input)))"
proof -
  define b where "b = skip_begin input 0 (length input)"
  define e where "e = skip_end input b (length input)"
  have b: "drop b input = dropWhile isspace input" "b \<le> length input"
    using skip_begin_dropWhile [of "length input" input 0] by (auto simp: b_def)
  have e: "drop b (take e input) = rdropWhile isspace (drop b input)" "b \<le> e" "e \<le> length input"
    using skip_end_rdropWhile [of "length input" input b] b(2) by (auto simp: e_def)
  have "strip_at (drop b (take e input)) =
      drop (if b < e \<and> input ! b = CHR ''@'' then Suc b else b) (take e input)"
  proof (cases "b < e")
    case True
    then have "drop b (take e input) = input ! b # drop (Suc b) (take e input)"
      using e(3) by (simp add: Cons_nth_drop_Suc [symmetric])
    then show ?thesis using True by (simp add: strip_at_def)
  next
    case False
    then show ?thesis using e(3) by (simp add: strip_at_def)
  qed
  then show ?thesis
    using b e
    by (simp add: NormalizeNickname_def Let_def b_def [symmetric] e_def [symmetric]
        map_nth_upt_take_drop del: if_split)
qed

subsection \<open>Which names are valid\<close>

fun no_double_underscore :: "string \<Rightarrow> bool" where
  "no_double_underscore (a # b # cs) \<longleftrightarrow>
     \<not> (a = CHR ''_'' \<and> b = CHR ''_'') \<and> no_double_underscore (b # cs)"
| "no_double_underscore _ \<longleftrightarrow> True"

lemma letter_not_underscore [simp]: "\<not> IsAsciiLowerLetter CHR ''_''"
  by (simp add: IsAsciiLowerLetter_def char_code_def)

lemma allowed_underscore [simp]: "IsAllowedChar CHR ''_''"
  by (simp add: IsAllowedChar_def)

lemma valid_scan_Inr_iff:
  "valid_scan hasLetter prev cs = Inr r \<longleftrightarrow>
     list_all IsAllowedChar cs \<and>
     no_double_underscore (if prev then CHR ''_'' # cs else cs) \<and>
     r = (hasLetter \<or> list_ex IsAsciiLowerLetter cs)"
proof (induction hasLetter prev cs rule: valid_scan.induct)
  case (2 hasLetter prev c cs)
  then show ?case by (cases cs; cases prev) auto
qed auto

lemma valid_nickname_iff:
  "valid_nickname name \<longleftrightarrow>
     4 \<le> length name \<and> length name \<le> 16 \<and>
     hd name \<noteq> CHR ''_'' \<and> last name \<noteq> CHR ''_'' \<and>
     list_all IsAllowedChar name \<and> no_double_underscore name \<and> list_ex IsAsciiLowerLetter name"
proof -
  have "(\<exists>r. valid_scan False False name = Inr r \<and> r) \<longleftrightarrow>
      list_all IsAllowedChar name \<and> no_double_underscore name \<and> list_ex IsAsciiLowerLetter name"
    by (simp add: valid_scan_Inr_iff)
  then show ?thesis
    by (cases "valid_scan False False name")
      (auto simp: IsValidNormalizedNickname_def MIN_LENGTH_def MAX_LENGTH_def)
qed

lemma IsValid_cases:
  "IsValidNormalizedNickname name = Inr u \<longleftrightarrow> valid_nickname name"
  by simp

lemma allowed_not_upper: "IsAllowedChar c \<Longrightarrow> \<not> isupper c"
  by (auto simp: IsAllowedChar_def IsAsciiLowerLetter_def IsAsciiDigit_def isupper_def char_code_def)

lemma allowed_not_space: "IsAllowedChar c \<Longrightarrow> \<not> isspace c"
  by (auto simp: IsAllowedChar_def IsAsciiLowerLetter_def IsAsciiDigit_def isspace_def char_code_def)

lemma allowed_not_at: "IsAllowedChar c \<Longrightarrow> c \<noteq> CHR ''@''"
  by (auto simp: IsAllowedChar_def IsAsciiLowerLetter_def IsAsciiDigit_def char_code_def)

lemma space_tolower: "isspace (tolower c) \<longleftrightarrow> isspace c"
  by (auto simp: tolower_def isspace_def isupper_def)

lemma at_tolower: "tolower c = CHR ''@'' \<longleftrightarrow> c = CHR ''@''"
proof (cases "isupper c")
  case True
  then have "char_code (tolower c) = char_code c + 32"
    by (simp add: tolower_def isupper_def)
  moreover have "char_code CHR ''@'' = 64" by (simp add: char_code_def)
  ultimately show ?thesis using True by (auto simp: isupper_def)
qed simp

lemma dropWhile_spaces:
  "list_all isspace ws \<Longrightarrow> \<not> isspace c \<Longrightarrow> dropWhile isspace (ws @ c # cs) = c # cs"
  by (induction ws) auto

lemma rdropWhile_spaces:
  "list_all isspace ws \<Longrightarrow> cs \<noteq> [] \<Longrightarrow> \<not> isspace (last cs) \<Longrightarrow> rdropWhile isspace (cs @ ws) = cs"
proof (induction ws rule: rev_induct)
  case (snoc x xs)
  then have "rdropWhile isspace ((cs @ xs) @ [x]) = rdropWhile isspace (cs @ xs)"
    by (simp only: rdropWhile_snoc) simp
  with snoc show ?case by simp
qed (simp add: rdropWhile_id)

lemma trim_spaces:
  assumes "list_all isspace ws" "list_all isspace ws'" "cs \<noteq> []"
    and "\<not> isspace (hd cs)" "\<not> isspace (last cs)"
  shows "rdropWhile isspace (dropWhile isspace (ws @ cs @ ws')) = cs"
proof -
  obtain c cs' where cs: "cs = c # cs'" using assms(3) by (cases cs) auto
  then have "dropWhile isspace (ws @ cs @ ws') = cs @ ws'"
    using assms(1,4) by (simp add: dropWhile_spaces)
  then show ?thesis using assms by (simp add: rdropWhile_spaces)
qed

lemma valid_nickname_chars:
  assumes "valid_nickname (map tolower s)"
  shows "s \<noteq> []" "\<not> isspace (hd s)" "\<not> isspace (last s)" "hd s \<noteq> CHR ''@''"
proof -
  have ne: "s \<noteq> []" and all: "list_all (\<lambda>c. IsAllowedChar (tolower c)) s"
    using assms by (auto simp: valid_nickname_iff list.pred_map comp_def)
  have "IsAllowedChar (tolower (hd s))" "IsAllowedChar (tolower (last s))"
    using ne all by (simp_all add: list_all_iff)
  then show "\<not> isspace (hd s)" "\<not> isspace (last s)" "hd s \<noteq> CHR ''@''"
    by (auto dest: allowed_not_space simp: space_tolower)
       (auto dest: allowed_not_at simp: at_tolower)
  show "s \<noteq> []" by (rule ne)
qed

lemma valid_nickname_tolower: "valid_nickname name \<Longrightarrow> map tolower name = name"
  by (rule map_idI) (simp add: valid_nickname_iff list_all_iff allowed_not_upper)

lemma NormalizeNickname_presentation:
  assumes "valid_nickname (map tolower s)" "list_all isspace ws" "list_all isspace ws'"
  shows "NormalizeNickname (ws @ s @ ws') = map tolower s"
    and "NormalizeNickname (ws @ CHR ''@'' # s @ ws') = map tolower s"
proof -
  note c = valid_nickname_chars [OF assms(1)]
  have "rdropWhile isspace (dropWhile isspace (ws @ s @ ws')) = s"
    using assms c by (intro trim_spaces)
  then show "NormalizeNickname (ws @ s @ ws') = map tolower s"
    using c by (cases s) (auto simp: NormalizeNickname_eq strip_at_def)
  have "\<not> isspace CHR ''@''" by (simp add: isspace_def char_code_def)
  then have "rdropWhile isspace (dropWhile isspace (ws @ (CHR ''@'' # s) @ ws')) = CHR ''@'' # s"
    using assms c by (intro trim_spaces) auto
  then show "NormalizeNickname (ws @ CHR ''@'' # s @ ws') = map tolower s"
    by (simp add: NormalizeNickname_eq strip_at_def)
qed

lemma NormalizeNickname_valid [simp]:
  assumes "valid_nickname name"
  shows "NormalizeNickname name = name"
  using NormalizeNickname_presentation(1) [of name "[]" "[]"] assms
  by (simp add: valid_nickname_tolower)

subsection \<open>Pricing arithmetic\<close>

lemma Clamp_range [kubu_bounds]:
  "500 \<le> ClampPricingMultiplierPermille m" "ClampPricingMultiplierPermille m \<le> 3000"
  by (simp_all add: ClampPricingMultiplierPermille_def nickname_constants)

lemma Clamp_eq: "ClampPricingMultiplierPermille m = max 500 (min 3000 m)"
  by (simp add: ClampPricingMultiplierPermille_def nickname_constants)

lemma Clamp_id: "500 \<le> m \<Longrightarrow> m \<le> 3000 \<Longrightarrow> ClampPricingMultiplierPermille m = m"
  by (simp add: ClampPricingMultiplierPermille_def nickname_constants)

lemma Clamp_mono: "m \<le> m' \<Longrightarrow> ClampPricingMultiplierPermille m \<le> ClampPricingMultiplierPermille m'"
  by (simp add: ClampPricingMultiplierPermille_def nickname_constants)

lemma Clamp_idem [simp]:
  "ClampPricingMultiplierPermille (ClampPricingMultiplierPermille m) =
   ClampPricingMultiplierPermille m"
  by (rule Clamp_id) (rule Clamp_range)+

text \<open>The smoothed demand, before the step limit.\<close>

definition pricing_raw :: "int \<Rightarrow> int" where
  "pricing_raw n = (if n > 0 then n * 1000 div 280 else 0)"

lemma if_less_max: "(if (s :: int) < l then l else s) = max s l"
  by simp

lemma if_less_min: "(if (u :: int) < x then u else x) = min x u"
  by simp

lemma ComputeNext_eq:
  "ComputeNextPricingMultiplierPermille m n =
     (let prev = ClampPricingMultiplierPermille m;
          s = ClampPricingMultiplierPermille ((80 * prev + 20 * pricing_raw n + 50) div 100)
      in ClampPricingMultiplierPermille
           (min (max s ((prev * 90 + 99) div 100)) (prev * 110 div 100)))"
  unfolding ComputeNextPricingMultiplierPermille_def Let_def pricing_raw_def
    PRICING_TARGET_REGISTRATIONS_7D_def PRICING_ALPHA_PERCENT_def PRICING_STEP_LIMIT_PERCENT_def
    if_less_max if_less_min
  by simp

lemma pricing_raw_mono: "n \<le> n' \<Longrightarrow> pricing_raw n \<le> pricing_raw n'"
proof -
  assume "n \<le> n'"
  then have "n * 1000 div 280 \<le> n' * 1000 div 280" "0 < n' \<Longrightarrow> 0 \<le> n' * 1000 div 280"
    by linarith+
  then show ?thesis using \<open>n \<le> n'\<close> unfolding pricing_raw_def by simp
qed

lemma ComputeNext_mono:
  assumes "m \<le> m'" "n \<le> n'"
  shows "ComputeNextPricingMultiplierPermille m n \<le> ComputeNextPricingMultiplierPermille m' n'"
proof -
  let ?p = "ClampPricingMultiplierPermille m" and ?p' = "ClampPricingMultiplierPermille m'"
  have p: "?p \<le> ?p'" by (rule Clamp_mono [OF assms(1)])
  have r: "pricing_raw n \<le> pricing_raw n'" by (rule pricing_raw_mono [OF assms(2)])
  have "(80 * ?p + 20 * pricing_raw n + 50) div 100 \<le> (80 * ?p' + 20 * pricing_raw n' + 50) div 100"
    using p r by (intro zdiv_mono1) auto
  then have "ClampPricingMultiplierPermille ((80 * ?p + 20 * pricing_raw n + 50) div 100)
      \<le> ClampPricingMultiplierPermille ((80 * ?p' + 20 * pricing_raw n' + 50) div 100)"
    by (rule Clamp_mono)
  moreover have "(?p * 90 + 99) div 100 \<le> (?p' * 90 + 99) div 100" "?p * 110 div 100 \<le> ?p' * 110 div 100"
    using p by (auto intro: zdiv_mono1)
  ultimately show ?thesis
    unfolding ComputeNext_eq Let_def by (rule Clamp_mono [OF min.mono [OF max.mono]])
qed

text \<open>With no registrations at all the multiplier falls by ten percent per epoch.\<close>

lemma ComputeNext_idle:
  "ComputeNextPricingMultiplierPermille m 0 =
     ClampPricingMultiplierPermille ((ClampPricingMultiplierPermille m * 90 + 99) div 100)"
proof -
  define p where "p = ClampPricingMultiplierPermille m"
  have "500 \<le> p" "p \<le> 3000" unfolding p_def by (rule Clamp_range)+
  then have le: "(80 * p + 50) div 100 \<le> (p * 90 + 99) div 100"
    "(p * 90 + 99) div 100 \<le> p * 110 div 100" "500 \<le> p * 110 div 100"
    by linarith+
  have clip: "max 500 (min 3000 (min (max (max 500 (min 3000 a)) b) c)) = max 500 (min 3000 b)"
    if "a \<le> b" "b \<le> c" "500 \<le> c" for a b c :: int
    using that by (auto simp: min_def max_def)
  have raw: "80 * p + 20 * pricing_raw 0 + 50 = 80 * p + 50" by (simp add: pricing_raw_def)
  show ?thesis
    unfolding ComputeNext_eq Let_def p_def [symmetric]
    unfolding raw Clamp_eq by (rule clip [OF le])
qed

definition idle_epoch :: "int \<Rightarrow> int" where
  "idle_epoch m = ComputeNextPricingMultiplierPermille m 0"

lemma idle_from_3000: "(idle_epoch ^^ 18) 3000 = 500"
  by (simp add: idle_epoch_def ComputeNext_idle ClampPricingMultiplierPermille_def
      nickname_constants eval_nat_numeral funpow_Suc_in del: funpow.simps(2))

lemma mono_idle_epoch: "mono idle_epoch"
  by (rule monoI) (auto simp only: idle_epoch_def intro!: ComputeNext_mono)

lemma idle_mono: "m \<le> m' \<Longrightarrow> (idle_epoch ^^ n) m \<le> (idle_epoch ^^ n) m'"
  by (rule funpow_mono [OF mono_idle_epoch])

lemma ComputeNext_range [kubu_bounds]:
  "500 \<le> ComputeNextPricingMultiplierPermille m n" "ComputeNextPricingMultiplierPermille m n \<le> 3000"
  unfolding ComputeNext_eq Let_def by (rule Clamp_range)+

lemma idle_at_minimum: "idle_epoch 500 = 500"
  by (simp add: idle_epoch_def ComputeNext_idle ClampPricingMultiplierPermille_def nickname_constants)

lemma idle_stays:
  "(idle_epoch ^^ n) 500 = 500"
  by (induction n) (simp_all add: idle_at_minimum)

lemma Scale_mono:
  assumes "b \<le> b'" "0 \<le> b"
  shows "ScaleByMultiplierPermille b (ClampPricingMultiplierPermille m) \<le>
     ScaleByMultiplierPermille b' (ClampPricingMultiplierPermille m)"
proof -
  define p where "p = ClampPricingMultiplierPermille m"
  have p: "500 \<le> p" unfolding p_def by (rule Clamp_range)
  then have "b * p \<le> b' * p" "0 \<le> b * p" using assms by (simp_all add: mult_right_mono)
  then have "(b * p + 500) div 1000 \<le> (b' * p + 500) div 1000" "0 \<le> (b' * p + 500) div 1000"
    by linarith+
  then show ?thesis
    unfolding p_def [symmetric] ScaleByMultiplierPermille_def using p assms by auto
qed

lemma Scale_bounds:
  assumes "0 < b"
  shows "b div 2 \<le> ScaleByMultiplierPermille b (ClampPricingMultiplierPermille m)"
    and "ScaleByMultiplierPermille b (ClampPricingMultiplierPermille m) \<le> 3 * b"
proof -
  define p where "p = ClampPricingMultiplierPermille m"
  have p: "500 \<le> p" "p \<le> 3000" unfolding p_def by (rule Clamp_range)+
  define q where "q = b * p"
  have "b * 500 \<le> q" "q \<le> b * 3000" unfolding q_def using p assms by simp_all
  then have "b div 2 \<le> (q + 500) div 1000" "(q + 500) div 1000 \<le> 3 * b"
    using assms by linarith+
  then show "b div 2 \<le> ScaleByMultiplierPermille b (ClampPricingMultiplierPermille m)"
    and "ScaleByMultiplierPermille b (ClampPricingMultiplierPermille m) \<le> 3 * b"
    using p assms by (simp_all add: ScaleByMultiplierPermille_def p_def [symmetric] q_def)
qed

lemma GetBasePricing_antimono:
  assumes "4 \<le> l" "l \<le> l'"
  shows "registrationFee (GetBasePricing l') \<le> registrationFee (GetBasePricing l)"
    and "bondAmount (GetBasePricing l') \<le> bondAmount (GetBasePricing l)"
  using assms by (auto simp: GetBasePricing_def COIN_def)

lemma GetBasePricing_range [kubu_bounds]:
  "COIN \<le> registrationFee (GetBasePricing l)" "registrationFee (GetBasePricing l) \<le> 24 * COIN"
  "3 * COIN \<le> bondAmount (GetBasePricing l)" "bondAmount (GetBasePricing l) \<le> 48 * COIN"
  "2 * registrationFee (GetBasePricing l) \<le> bondAmount (GetBasePricing l)"
  by (auto simp: GetBasePricing_def COIN_def)

lemma GetPricing_range [kubu_bounds]:
  "COIN div 2 \<le> registrationFee (GetPricing l m)" "registrationFee (GetPricing l m) \<le> 72 * COIN"
  "0 < bondAmount (GetPricing l m)" "bondAmount (GetPricing l m) \<le> 144 * COIN"
proof -
  have b: "0 < registrationFee (GetBasePricing l)" "0 < bondAmount (GetBasePricing l)"
    using GetBasePricing_range [of l] by (simp_all add: COIN_def)
  note f = Scale_bounds [OF b(1), of m] and d = Scale_bounds [OF b(2), of m]
  have "COIN div 2 \<le> registrationFee (GetBasePricing l) div 2"
    using GetBasePricing_range(1) [of l] by (rule zdiv_mono1) simp
  then show "COIN div 2 \<le> registrationFee (GetPricing l m)" "registrationFee (GetPricing l m) \<le> 72 * COIN"
    using f GetBasePricing_range(2) [of l] by (simp_all add: GetPricing_def Let_def)
  have "0 < bondAmount (GetBasePricing l) div 2"
    using GetBasePricing_range(3) [of l] unfolding COIN_def by linarith
  then show "0 < bondAmount (GetPricing l m)" "bondAmount (GetPricing l m) \<le> 144 * COIN"
    using d GetBasePricing_range(4) [of l] by (simp_all add: GetPricing_def Let_def)
qed

lemma GetRenewalFee_range [kubu_bounds]:
  "0 < GetRenewalFee l m" "GetRenewalFee l m \<le> 18 * COIN"
  using GetPricing_range(1,2) [of l m]
  by (auto simp: GetRenewalFee_def RENEWAL_PERCENT_def COIN_def)

lemma no_double_underscore_nth:
  "no_double_underscore s \<longleftrightarrow>
     \<not> (\<exists>i. Suc i < length s \<and> s ! i = CHR ''_'' \<and> s ! Suc i = CHR ''_'')"
proof (induction s rule: no_double_underscore.induct)
  case (1 a b cs)
  have "(\<exists>i. Suc i < length (a # b # cs) \<and> (a # b # cs) ! i = CHR ''_'' \<and> (a # b # cs) ! Suc i = CHR ''_'')
    \<longleftrightarrow> (a = CHR ''_'' \<and> b = CHR ''_'') \<or>
      (\<exists>i. Suc i < length (b # cs) \<and> (b # cs) ! i = CHR ''_'' \<and> (b # cs) ! Suc i = CHR ''_'')"
    (is "?L \<longleftrightarrow> ?A \<or> ?R")
  proof
    assume ?L
    then obtain i where i: "Suc i < length (a # b # cs)" "(a # b # cs) ! i = CHR ''_''"
      "(a # b # cs) ! Suc i = CHR ''_''" by blast
    then show "?A \<or> ?R" by (cases i) auto
  next
    assume "?A \<or> ?R"
    then show ?L by (elim disjE exE) (rule exI [of _ 0], simp, rule exI [of _ "Suc i" for i], auto)
  qed
  with 1 show ?case by simp
qed simp_all

subsection \<open>Properties\<close>

text \<open>C18. \<^verbatim>\<open>IsValidNormalizedNickname\<close> accepts exactly the names of 4 to 16 characters
  over lowercase ASCII letters, digits and underscores that neither start nor end with an
  underscore, have no two underscores in a row, and contain a letter.\<close>

theorem nickname_validity_spec:
  "IsValidNormalizedNickname name = Inr () \<longleftrightarrow>
     4 \<le> length name \<and> length name \<le> 16 \<and>
     set name \<subseteq> {c. IsAllowedChar c} \<and>
     hd name \<noteq> CHR ''_'' \<and> last name \<noteq> CHR ''_'' \<and>
     \<not> (\<exists>i. Suc i < length name \<and> name ! i = CHR ''_'' \<and> name ! Suc i = CHR ''_'') \<and>
     (\<exists>c. c \<in> set name \<and> IsAsciiLowerLetter c)"
  by (auto simp: valid_nickname_iff no_double_underscore_nth list_all_iff list_ex_iff)

text \<open>However a valid nickname is presented -- in any letter case, with surrounding white
  space, with or without one leading \<^verbatim>\<open>@\<close> -- it normalises to the same key, and that key is
  a fixed point of \<^verbatim>\<open>NormalizeNickname\<close>.\<close>

theorem nickname_presentation_canonical:
  assumes "IsValidNormalizedNickname (map tolower s) = Inr ()"
    and "list_all isspace before" "list_all isspace after"
  shows "NormalizeNickname (before @ s @ after) = map tolower s \<and>
    NormalizeNickname (before @ ''@'' @ s @ after) = map tolower s \<and>
    NormalizeNickname (map tolower s) = map tolower s"
  using NormalizeNickname_presentation [OF assms] NormalizeNickname_valid [OF assms(1)] by simp

theorem nickname_presentation_canonical_witness:
  "NormalizeNickname ('' '' @ ''Alice_1'' @ '' '') = ''alice_1'' \<and>
   NormalizeNickname ('' '' @ ''@'' @ ''Alice_1'' @ '' '') = ''alice_1''"
proof -
  have l: "map tolower ''Alice_1'' = ''alice_1''"
    by code_simp
  have v: "IsValidNormalizedNickname (map tolower ''Alice_1'') = Inr ()"
    unfolding l by code_simp
  have s: "list_all isspace '' ''" by (simp add: isspace_def char_code_def)
  show ?thesis using nickname_presentation_canonical [OF v s s] unfolding l by simp
qed

text \<open>C30. One epoch of adaptive pricing keeps the multiplier between 500 and 3000 permille,
  moves it by at most ten percent of the (clamped) previous multiplier, and is monotone both
  in the previous multiplier and in the number of recent registrations.\<close>

theorem pricing_multiplier_step:
  "500 \<le> ComputeNextPricingMultiplierPermille m n \<and>
   ComputeNextPricingMultiplierPermille m n \<le> 3000 \<and>
   10 * \<bar>ComputeNextPricingMultiplierPermille m n - ClampPricingMultiplierPermille m\<bar>
     \<le> ClampPricingMultiplierPermille m \<and>
   ComputeNextPricingMultiplierPermille m n \<le>
     ComputeNextPricingMultiplierPermille (max m m') (max n n')"
proof -
  define p where "p = ClampPricingMultiplierPermille m"
  define s where "s = ClampPricingMultiplierPermille ((80 * p + 20 * pricing_raw n + 50) div 100)"
  have p: "500 \<le> p" "p \<le> 3000" unfolding p_def by (rule Clamp_range)+
  have eq: "ComputeNextPricingMultiplierPermille m n =
      max 500 (min 3000 (min (max s ((p * 90 + 99) div 100)) (p * 110 div 100)))"
    unfolding ComputeNext_eq Let_def p_def [symmetric] s_def [symmetric]
    by (simp only: Clamp_eq [of "min (max s ((p * 90 + 99) div 100)) (p * 110 div 100)"])
  define l u where "l = (p * 90 + 99) div 100" and "u = p * 110 div 100"
  have lu: "9 * p \<le> 10 * l" "10 * u \<le> 11 * p" "l \<le> u" "l \<le> 3000" "500 \<le> u"
    using p div_100_bounds [of "p * 90 + 99"] div_100_bounds [of "p * 110"]
    unfolding l_def [symmetric] u_def [symmetric] by linarith+
  define x where "x = max 500 (min 3000 (min (max s l) u))"
  have "l \<le> x" "x \<le> u" unfolding x_def using lu by (simp_all add: le_max_iff_disj)
  with lu have "10 * \<bar>x - p\<bar> \<le> p" by (cases "p \<le> x") simp_all
  then have "10 * \<bar>ComputeNextPricingMultiplierPermille m n - p\<bar> \<le> p"
    unfolding eq x_def l_def u_def .
  then show ?thesis
    unfolding p_def by (simp add: ComputeNext_range ComputeNext_mono)
qed

text \<open>C31. When nobody registers, the pricing multiplier reaches its minimum within 18 epochs from
  any starting value, and stays there.\<close>

theorem pricing_decays_to_minimum:
  assumes "18 \<le> k"
  shows "((\<lambda>m. ComputeNextPricingMultiplierPermille m 0) ^^ k) m = 500"
proof -
  have e: "(\<lambda>m. ComputeNextPricingMultiplierPermille m 0) = idle_epoch"
    by (simp add: idle_epoch_def fun_eq_iff)
  obtain j where j: "k = j + Suc 17" using assms le_Suc_ex [of 18 k] by auto
  have "idle_epoch m = idle_epoch (ClampPricingMultiplierPermille m)"
    by (simp add: idle_epoch_def ComputeNext_idle)
  then have "(idle_epoch ^^ Suc 17) m = (idle_epoch ^^ Suc 17) (ClampPricingMultiplierPermille m)"
    by (simp only: funpow_Suc_in)
  then have "(idle_epoch ^^ 18) m = (idle_epoch ^^ 18) (ClampPricingMultiplierPermille m)" by simp
  moreover have "500 \<le> idle_epoch ((idle_epoch ^^ 17) x)" for x
    unfolding idle_epoch_def by (rule ComputeNext_range)
  then have "500 \<le> (idle_epoch ^^ Suc 17) (ClampPricingMultiplierPermille m)"
    by (simp only: funpow.simps comp_apply)
  then have "500 \<le> (idle_epoch ^^ 18) (ClampPricingMultiplierPermille m)" by simp
  moreover have "(idle_epoch ^^ 18) (ClampPricingMultiplierPermille m) \<le> (idle_epoch ^^ 18) 3000"
    by (rule idle_mono) (rule Clamp_range)
  ultimately have "(idle_epoch ^^ 18) m = 500" unfolding idle_from_3000 by simp
  then show ?thesis unfolding e j by (simp add: funpow_add idle_stays)
qed

theorem pricing_decays_to_minimum_witness:
  "((\<lambda>m. ComputeNextPricingMultiplierPermille m 0) ^^ 20) 2750 = 500"
  using pricing_decays_to_minimum [of 20 2750] by simp

text \<open>For every name length and every multiplier, the registration fee, the bond and the
  renewal bond increase are positive valid amounts below 144 coins, the renewal increase is at most
  a quarter of the registration fee, and a longer name never costs more than a shorter one.\<close>

theorem pricing_amounts:
  assumes "4 \<le> l" "l \<le> l'"
  shows "0 < registrationFee (GetPricing l m) \<and> MoneyRange (registrationFee (GetPricing l m)) \<and>
    0 < bondAmount (GetPricing l m) \<and> MoneyRange (bondAmount (GetPricing l m)) \<and>
    bondAmount (GetPricing l m) \<le> 144 * COIN \<and>
    0 < GetRenewalBondIncrease l m \<and> 4 * GetRenewalBondIncrease l m \<le> registrationFee (GetPricing l m) \<and>
    registrationFee (GetPricing l' m) \<le> registrationFee (GetPricing l m) \<and>
    bondAmount (GetPricing l' m) \<le> bondAmount (GetPricing l m)"
proof -
  have anti: "registrationFee (GetPricing l' m) \<le> registrationFee (GetPricing l m)"
    "bondAmount (GetPricing l' m) \<le> bondAmount (GetPricing l m)"
    using GetBasePricing_antimono [OF assms] GetBasePricing_range [of l']
    by (auto simp: GetPricing_def Let_def COIN_def intro!: Scale_mono)
  have "4 * GetRenewalBondIncrease l m \<le> registrationFee (GetPricing l m)"
    unfolding GetRenewalBondIncrease_def GetRenewalFee_def RENEWAL_PERCENT_def by linarith
  with anti GetPricing_range [of l m] GetRenewalFee_range [of l m] show ?thesis
    by (simp add: MoneyRange_def MAX_MONEY_def COIN_def GetRenewalBondIncrease_def)
qed

theorem pricing_amounts_witness:
  "registrationFee (GetPricing 16 1000) \<le> registrationFee (GetPricing 4 1000) \<and>
   MoneyRange (bondAmount (GetPricing 4 1000))"
  using pricing_amounts [of 4 16 1000] by simp



text \<open>The life cycle: with a grace period that is not shorter than the active one, a name that is
  not released is \<^verbatim>\<open>ACTIVE\<close> up to its active height, \<^verbatim>\<open>EXPIRED_GRACE\<close> up to its grace height, and
  from then on never again \<^verbatim>\<open>ACTIVE\<close> or \<^verbatim>\<open>EXPIRED_GRACE\<close>; once released, the height no longer
  matters, and a claimed bond is what separates \<^verbatim>\<open>BOND_CLAIMABLE\<close> from the terminal states.\<close>

theorem nickname_life_cycle:
  assumes "activeUntil \<le> graceUntil"
  shows "(GetStatus h activeUntil graceUntil False claimed = ACTIVE \<longleftrightarrow> h \<le> activeUntil) \<and>
    (GetStatus h activeUntil graceUntil False claimed = EXPIRED_GRACE \<longleftrightarrow> activeUntil < h \<and> h \<le> graceUntil) \<and>
    (GetStatus h activeUntil graceUntil False claimed \<in> {EXPIRED_AVAILABLE, BOND_CLAIMABLE} \<longleftrightarrow> graceUntil < h) \<and>
    (GetStatus h activeUntil graceUntil r False = BOND_CLAIMABLE \<longleftrightarrow> r \<or> graceUntil < h) \<and>
    GetStatus h activeUntil graceUntil r True \<noteq> BOND_CLAIMABLE \<and>
    GetStatus h activeUntil graceUntil True claimed = GetStatus h' activeUntil graceUntil True claimed"
  using assms by (auto simp: GetStatus_def)

theorem nickname_life_cycle_witness:
  "GetStatus 144001 144000 158400 False False = EXPIRED_GRACE"
  using nickname_life_cycle [of 144000 158400 144001 False True 0] by simp

end
