(* ===== verification/Kubu_Serialize.thy ===== *)
theory Kubu_Serialize
  imports Kubu_Prelude
begin

text \<open>
  The byte-level formats of \<^verbatim>\<open>src/src/serialize.h\<close>, \<^verbatim>\<open>src/src/streams.h\<close> and the push and read
  operations of \<^verbatim>\<open>CScript\<close> in \<^verbatim>\<open>src/src/script/script.h\<close>. A stream that is read is the list of
  the bytes that are left; a read that throws \<^verbatim>\<open>std::ios_base::failure\<close> is \<open>None\<close>. Unsigned
  sizes are \<^typ>\<open>nat\<close>, with the width of the written field explicit.
\<close>

type_synonym stream = "byte list"
type_synonym 'a reader = "stream \<Rightarrow> ('a \<times> stream) option"

subsection \<open>Fixed-width little-endian integers\<close>

definition byte :: "nat \<Rightarrow> byte" where
  "byte n = word_of_nat n"

primrec le_write :: "nat \<Rightarrow> nat \<Rightarrow> byte list" where
  "le_write 0 n = []"
| "le_write (Suc k) n = byte (n mod 256) # le_write k (n div 256)"

primrec le_value :: "byte list \<Rightarrow> nat" where
  "le_value [] = 0"
| "le_value (b # bs) = unat b + 256 * le_value bs"

definition stream_read :: "nat \<Rightarrow> byte list reader" where
  "stream_read n s = (if n \<le> length s then Some (take n s, drop n s) else None)"

definition ser_readdata :: "nat \<Rightarrow> nat reader" where
  "ser_readdata k s = map_option (\<lambda>(bs, r). (le_value bs, r)) (stream_read k s)"

subsection \<open>Compact sizes\<close>

definition MAX_SIZE :: nat where
  "MAX_SIZE = 33554432"

definition WriteCompactSize :: "nat \<Rightarrow> byte list" where
  "WriteCompactSize nSize =
     (if nSize < 253 then le_write 1 nSize
      else if nSize \<le> 65535 then le_write 1 253 @ le_write 2 nSize
      else if nSize \<le> 4294967295 then le_write 1 254 @ le_write 4 nSize
      else le_write 1 255 @ le_write 8 nSize)"

definition GetSizeOfCompactSize :: "nat \<Rightarrow> nat" where
  "GetSizeOfCompactSize nSize =
     (if nSize < 253 then 1 else if nSize \<le> 65535 then 1 + 2
      else if nSize \<le> 4294967295 then 1 + 4 else 1 + 8)"

definition ReadCompactSize :: "nat reader" where
  "ReadCompactSize s = Option.bind (ser_readdata 1 s) (\<lambda>(chSize, s).
     Option.bind
       (if chSize < 253 then Some (chSize, s)
        else if chSize = 253 then
          Option.bind (ser_readdata 2 s) (\<lambda>(n, s). if n < 253 then None else Some (n, s))
        else if chSize = 254 then
          Option.bind (ser_readdata 4 s) (\<lambda>(n, s). if n < 65536 then None else Some (n, s))
        else
          Option.bind (ser_readdata 8 s) (\<lambda>(n, s). if n < 4294967296 then None else Some (n, s)))
       (\<lambda>(nSizeRet, s). if nSizeRet > MAX_SIZE then None else Some (nSizeRet, s)))"

subsection \<open>Byte vectors and strings\<close>

text \<open>A byte vector is read in blocks, so that a bogus size does not allocate memory.\<close>

function read_blocks :: "nat \<Rightarrow> byte list reader" where
  "read_blocks n s =
     (if n = 0 then Some ([], s)
      else Option.bind (stream_read (min n 5000000) s) (\<lambda>(bs, s').
        Option.bind (read_blocks (n - min n 5000000) s') (\<lambda>(bs', s''). Some (bs @ bs', s''))))"
  by pat_completeness auto
termination by (relation "measure fst") auto

declare read_blocks.simps [simp del]

definition Serialize_bytes :: "byte list \<Rightarrow> byte list" where
  "Serialize_bytes v = WriteCompactSize (length v) @ v"

definition Unserialize_bytes :: "byte list reader" where
  "Unserialize_bytes s = Option.bind (ReadCompactSize s) (\<lambda>(nSize, s). read_blocks nSize s)"

definition Serialize_string :: "string \<Rightarrow> byte list" where
  "Serialize_string str = WriteCompactSize (length str) @ map byte_of str"

definition Unserialize_string :: "string reader" where
  "Unserialize_string s = Option.bind (ReadCompactSize s) (\<lambda>(nSize, s).
     map_option (\<lambda>(bs, s). (map char_of_byte bs, s)) (stream_read nSize s))"

subsection \<open>Variable-length integers\<close>

fun varint_digits :: "nat \<Rightarrow> bool \<Rightarrow> byte list" where
  "varint_digits n more =
     byte (n mod 128 + (if more then 128 else 0)) #
     (if n \<le> 127 then [] else varint_digits (n div 128 - 1) True)"

declare varint_digits.simps [simp del]

definition WriteVarInt :: "nat \<Rightarrow> byte list" where
  "WriteVarInt n = rev (varint_digits n False)"

text \<open>\<^verbatim>\<open>ReadVarInt\<close> at an unsigned type of \<open>w\<close> bits.\<close>

fun ReadVarInt :: "nat \<Rightarrow> nat \<Rightarrow> nat reader" where
  "ReadVarInt w n [] = None"
| "ReadVarInt w n (chData # s) =
     (let n' = (n * 128) mod 2 ^ w + unat chData mod 128 in
      if unat chData \<ge> 128 then ReadVarInt w ((n' + 1) mod 2 ^ w) s else Some (n', s))"

subsection \<open>Script operations\<close>

definition OP_0 :: nat where "OP_0 = 0"
definition OP_PUSHDATA1 :: nat where "OP_PUSHDATA1 = 76"
definition OP_PUSHDATA2 :: nat where "OP_PUSHDATA2 = 77"
definition OP_PUSHDATA4 :: nat where "OP_PUSHDATA4 = 78"
definition OP_RETURN :: nat where "OP_RETURN = 106"
definition OP_DUP :: nat where "OP_DUP = 118"
definition OP_EQUAL :: nat where "OP_EQUAL = 135"
definition OP_EQUALVERIFY :: nat where "OP_EQUALVERIFY = 136"
definition OP_HASH160 :: nat where "OP_HASH160 = 169"
definition OP_CHECKSIG :: nat where "OP_CHECKSIG = 172"

lemmas opcode_defs = OP_0_def OP_PUSHDATA1_def OP_PUSHDATA2_def OP_PUSHDATA4_def OP_RETURN_def
  OP_DUP_def OP_EQUAL_def OP_EQUALVERIFY_def OP_HASH160_def OP_CHECKSIG_def

type_synonym CScript = "byte list"

definition push_opcode :: "CScript \<Rightarrow> nat \<Rightarrow> CScript" where
  "push_opcode script opcode = script @ [byte opcode]"

definition push_data :: "CScript \<Rightarrow> byte list \<Rightarrow> CScript" where
  "push_data script b =
     (if length b < OP_PUSHDATA1 then script @ [byte (length b)]
      else if length b \<le> 255 then script @ [byte OP_PUSHDATA1, byte (length b)]
      else if length b \<le> 65535 then script @ [byte OP_PUSHDATA2] @ le_write 2 (length b)
      else script @ [byte OP_PUSHDATA4] @ le_write 4 (length b)) @ b"

text \<open>\<^verbatim>\<open>GetOp2\<close> from an iterator position: the opcode, the pushed bytes, the new position.\<close>

definition GetOp2 :: "CScript \<Rightarrow> (nat \<times> byte list \<times> CScript) option" where
  "GetOp2 pc =
     (case pc of [] \<Rightarrow> None
      | b # pc \<Rightarrow>
          let opcode = unat b in
          if opcode \<le> OP_PUSHDATA4 then
            Option.bind
              (if opcode < OP_PUSHDATA1 then Some (opcode, pc)
               else if opcode = OP_PUSHDATA1 then ser_readdata 1 pc
               else if opcode = OP_PUSHDATA2 then ser_readdata 2 pc
               else ser_readdata 4 pc)
              (\<lambda>(nSize, pc). if length pc < nSize then None
                 else Some (opcode, take nSize pc, drop nSize pc))
          else Some (opcode, [], pc))"

subsection \<open>Little-endian integers\<close>

lemma unat_byte [simp]: "unat (byte n) = n mod 256"
  by (simp add: byte_def unat_of_nat)

lemma byte_unat [simp]: "byte (unat b) = b"
  by (simp add: byte_def)

lemma length_le_write [simp]: "length (le_write k n) = k"
  by (induction k arbitrary: n) auto

lemma le_value_bound: "le_value bs < 256 ^ length bs"
proof (induction bs)
  case (Cons b bs)
  then have "Suc (le_value bs) \<le> 256 ^ length bs" by simp
  then have "256 * Suc (le_value bs) \<le> 256 * 256 ^ length bs" by (rule mult_le_mono2)
  then have "256 + 256 * le_value bs \<le> 256 * 256 ^ length bs" by (simp only: mult_Suc_right)
  moreover have "unat b < 256" by simp
  ultimately have "unat b + 256 * le_value bs < 256 * 256 ^ length bs" by linarith
  then show ?case by simp
qed simp

lemma le_value_write [simp]: "n < 256 ^ k \<Longrightarrow> le_value (le_write k n) = n"
proof (induction k arbitrary: n)
  case (Suc k)
  then have "n div 256 < 256 ^ k" by (simp add: less_mult_imp_div_less mult.commute)
  with Suc.IH show ?case by simp
qed simp

lemma le_write_value [simp]: "length bs = k \<Longrightarrow> le_write k (le_value bs) = bs"
proof (induction bs arbitrary: k)
  case (Cons b bs)
  then show ?case by (cases k) auto
qed simp

lemma stream_read_append [simp]: "length bs = n \<Longrightarrow> stream_read n (bs @ s) = Some (bs, s)"
  by (simp add: stream_read_def)

lemma stream_read_SomeD: "stream_read n s = Some (bs, r) \<Longrightarrow> s = bs @ r \<and> length bs = n"
  by (auto simp: stream_read_def split: if_splits)

lemma ser_readdata_write [simp]:
  "n < 256 ^ k \<Longrightarrow> ser_readdata k (le_write k n @ s) = Some (n, s)"
  by (simp add: ser_readdata_def)

lemma ser_readdata_SomeD:
  "ser_readdata k s = Some (n, r) \<Longrightarrow> s = le_write k n @ r \<and> n < 256 ^ k"
  using le_value_bound by (auto simp: ser_readdata_def dest!: stream_read_SomeD)

subsection \<open>Codecs\<close>

text \<open>
  The contract of a format: what is written is read back, with the rest of the stream left
  over. A canonical format accepts nothing else.
\<close>

locale codec =
  fixes enc :: "'a \<Rightarrow> byte list"
    and dec :: "byte list \<Rightarrow> ('a \<times> byte list) option"
    and wf :: "'a \<Rightarrow> bool"
  assumes dec_enc: "wf x \<Longrightarrow> dec (enc x @ s) = Some (x, s)"
begin

lemma bind_dec_enc: "wf x \<Longrightarrow> Option.bind (dec (enc x @ s)) f = f (x, s)"
  by (simp add: dec_enc)

lemma enc_prefix_free:
  assumes "wf x" "wf y" "enc x @ s = enc y @ t"
  shows "x = y \<and> s = t"
proof -
  have "dec (enc x @ s) = dec (enc y @ t)" by (simp only: assms(3))
  then show ?thesis by (simp add: dec_enc assms(1,2))
qed

lemma dec_enc_end: "wf x \<Longrightarrow> dec (enc x) = Some (x, [])"
  using dec_enc [of x "[]"] by simp

end

locale canonical_codec = codec +
  assumes enc_dec: "dec s = Some (x, r) \<Longrightarrow> s = enc x @ r \<and> wf x"
begin

lemma dec_iff: "dec s = Some (x, r) \<longleftrightarrow> s = enc x @ r \<and> wf x"
  using enc_dec dec_enc by blast

lemma dec_shortens: "dec s = Some (x, r) \<Longrightarrow> length r \<le> length s"
  by (auto dest: enc_dec)

end

lemma bind_reader_Some:
  "Option.bind (m :: ('a \<times> stream) option) f = Some y \<longleftrightarrow> (\<exists>x s. m = Some (x, s) \<and> f (x, s) = Some y)"
  by (cases m) auto

interpretation le: canonical_codec "le_write k" "ser_readdata k" "\<lambda>n. n < 256 ^ k" for k
  by unfold_locales (auto dest: ser_readdata_SomeD)

lemma le_write_1 [simp]: "le_write (Suc 0) n = [byte (n mod 256)]"
  by simp

lemma ser_readdata_1 [simp]: "ser_readdata (Suc 0) (b # s) = Some (unat b, s)"
  by (simp add: ser_readdata_def stream_read_def)

lemma ser_readdata_1_Nil [simp]: "ser_readdata (Suc 0) [] = None"
  by (simp add: ser_readdata_def stream_read_def)

lemma ReadCompactSize_write:
  assumes "n \<le> MAX_SIZE"
  shows "ReadCompactSize (WriteCompactSize n @ s) = Some (n, s)"
  using assms
  by (auto simp: ReadCompactSize_def WriteCompactSize_def MAX_SIZE_def
      simp del: le_write.simps)

lemma ReadCompactSize_canonical:
  assumes "ReadCompactSize s = Some (n, r)"
  shows "s = WriteCompactSize n @ r \<and> n \<le> MAX_SIZE"
proof (cases s)
  case Nil
  with assms show ?thesis by (simp add: ReadCompactSize_def)
next
  case (Cons b t)
  have "byte 253 = b" if "unat b = 253" using byte_unat [of b] that by simp
  moreover have "byte 254 = b" if "unat b = 254" using byte_unat [of b] that by simp
  moreover have "byte 255 = b" if "\<not> unat b < 253" "unat b \<noteq> 253" "unat b \<noteq> 254"
  proof -
    have "unat b = 255" using that unat_byte_less [of b] by linarith
    then show ?thesis using byte_unat [of b] by simp
  qed
  ultimately show ?thesis
    using assms Cons
    by (auto simp: ReadCompactSize_def WriteCompactSize_def MAX_SIZE_def bind_reader_Some
        dest!: ser_readdata_SomeD split: if_splits simp del: le_write.simps)
qed

interpretation cs: canonical_codec WriteCompactSize ReadCompactSize "\<lambda>n. n \<le> MAX_SIZE"
  by unfold_locales (auto simp: ReadCompactSize_write dest: ReadCompactSize_canonical)

lemma length_WriteCompactSize: "length (WriteCompactSize n) = GetSizeOfCompactSize n"
  by (simp add: WriteCompactSize_def GetSizeOfCompactSize_def del: le_write.simps)

lemma read_blocks_eq: "read_blocks n s = stream_read n s"
proof (induction n s rule: read_blocks.induct)
  case (1 n s)
  show ?case
  proof (cases "n = 0")
    case True
    then show ?thesis by (simp add: read_blocks.simps stream_read_def)
  next
    case False
    define k where "k = min n 5000000"
    have k: "k \<le> n" "0 < k" using False by (auto simp: k_def)
    have "read_blocks n s = Option.bind (stream_read k s) (\<lambda>(bs, s').
        Option.bind (read_blocks (n - k) s') (\<lambda>(bs', s''). Some (bs @ bs', s'')))"
      using False by (subst read_blocks.simps) (simp add: k_def)
    also have "\<dots> = Option.bind (stream_read k s) (\<lambda>(bs, s').
        Option.bind (stream_read (n - k) s') (\<lambda>(bs', s''). Some (bs @ bs', s'')))"
      using "1" False unfolding k_def by (intro Option.bind_cong refl) auto
    also have "\<dots> = stream_read n s"
      using k take_add [of k "n - k" s] by (auto simp: stream_read_def)
    finally show ?thesis .
  qed
qed

interpretation bytes: canonical_codec Serialize_bytes Unserialize_bytes "\<lambda>v. length v \<le> MAX_SIZE"
proof unfold_locales
  fix v s :: "byte list" assume "length v \<le> MAX_SIZE"
  then show "Unserialize_bytes (Serialize_bytes v @ s) = Some (v, s)"
    by (simp add: Unserialize_bytes_def Serialize_bytes_def cs.dec_enc read_blocks_eq)
next
  fix s v r assume "Unserialize_bytes s = Some (v, r)"
  then show "s = Serialize_bytes v @ r \<and> length v \<le> MAX_SIZE"
    by (auto simp: Unserialize_bytes_def Serialize_bytes_def bind_reader_Some read_blocks_eq
        dest!: cs.enc_dec stream_read_SomeD)
qed

interpretation str: canonical_codec Serialize_string Unserialize_string "\<lambda>v. length v \<le> MAX_SIZE"
proof unfold_locales
  fix v :: string and s assume "length v \<le> MAX_SIZE"
  then show "Unserialize_string (Serialize_string v @ s) = Some (v, s)"
    by (simp add: Unserialize_string_def Serialize_string_def cs.dec_enc comp_def)
next
  fix s v r assume "Unserialize_string s = Some (v, r)"
  then show "s = Serialize_string v @ r \<and> length v \<le> MAX_SIZE"
    by (auto simp: Unserialize_string_def Serialize_string_def bind_reader_Some comp_def
        dest!: cs.enc_dec stream_read_SomeD)
qed

subsection \<open>Variable-length integers are read back\<close>

lemma varint_byte_more: "unat (byte (n mod 128 + 128)) = n mod 128 + 128"
  by simp

lemma varint_byte_last: "unat (byte (n mod 128)) = n mod 128"
  by simp

lemma ReadVarInt_more:
  "n < 2 ^ w \<Longrightarrow>
   ReadVarInt w 0 (rev (varint_digits n True) @ s) = ReadVarInt w ((n + 1) mod 2 ^ w) s"
proof (induction n arbitrary: s rule: less_induct)
  case (less n)
  show ?case
  proof (cases "n \<le> 127")
    case True
    then have "varint_digits n True = [byte (n mod 128 + 128)]" by (subst varint_digits.simps) simp
    with True show ?thesis by (simp add: Let_def mod_less)
  next
    case False
    then have d: "varint_digits n True = byte (n mod 128 + 128) # varint_digits (n div 128 - 1) True"
      by (subst varint_digits.simps) simp
    have lt: "n div 128 - 1 < n" "n div 128 - 1 + 1 = n div 128" using False by linarith+
    have "n div 128 * 128 \<le> n" by simp
    then have w: "n div 128 * 128 < 2 ^ w" "n div 128 < 2 ^ w" "n div 128 - 1 < 2 ^ w"
      using less.prems by linarith+
    have "ReadVarInt w 0 (rev (varint_digits n True) @ s) =
        ReadVarInt w 0 (rev (varint_digits (n div 128 - 1) True) @ byte (n mod 128 + 128) # s)"
      by (simp add: d)
    also have "\<dots> = ReadVarInt w (n div 128) (byte (n mod 128 + 128) # s)"
      using less.IH [OF lt(1) w(3)] lt(2) w(2) by simp
    finally show ?thesis using w(1) by (simp add: Let_def varint_byte_more del: unat_byte)
  qed
qed

lemma ReadVarInt_write: "n < 2 ^ w \<Longrightarrow> ReadVarInt w 0 (WriteVarInt n @ s) = Some (n, s)"
proof (cases "n \<le> 127")
  case True
  then have "varint_digits n False = [byte (n mod 128)]" by (subst varint_digits.simps) simp
  with True show ?thesis by (simp add: WriteVarInt_def Let_def)
next
  case False
  assume n: "n < 2 ^ w"
  have d: "varint_digits n False = byte (n mod 128) # varint_digits (n div 128 - 1) True"
    using False by (subst varint_digits.simps) simp
  have "n div 128 - 1 + 1 = n div 128" "n div 128 * 128 \<le> n" using False by simp_all
  moreover from this have "n div 128 * 128 < 2 ^ w" "n div 128 < 2 ^ w" "n div 128 - 1 < 2 ^ w"
    using n by linarith+
  moreover have "\<not> 128 \<le> n mod 128" by (simp add: not_le)
  ultimately show ?thesis
    by (simp add: WriteVarInt_def d ReadVarInt_more Let_def varint_byte_last del: unat_byte)
qed

interpretation varint: codec WriteVarInt "ReadVarInt w 0" "\<lambda>n. n < 2 ^ w" for w
  by unfold_locales (rule ReadVarInt_write)

subsection \<open>Pushes are read back by \<^verbatim>\<open>GetOp2\<close>\<close>

lemma GetOp2_opcode:
  assumes "OP_PUSHDATA4 < opcode" "opcode < 256"
  shows "GetOp2 (byte opcode # pc) = Some (opcode, [], pc)"
  using assms by (simp add: GetOp2_def Let_def)

lemma GetOp2_push:
  assumes "length b < 2 ^ 32"
  shows "\<exists>opcode. GetOp2 (push_data [] b @ pc) = Some (opcode, b, pc) \<and> opcode \<le> OP_PUSHDATA4"
proof -
  have r: "ser_readdata 2 (le_write 2 n @ t) = Some (n, t)" if "n \<le> 65535" for n t
    using that by (intro le.dec_enc) simp
  have r4: "ser_readdata 4 (le_write 4 n @ t) = Some (n, t)" if "n < 2 ^ 32" for n t
    using that by (intro le.dec_enc) simp
  consider "length b < 76" | "76 \<le> length b" "length b \<le> 255" | "255 < length b" "length b \<le> 65535"
    | "65535 < length b" by linarith
  then show ?thesis
  proof cases
    case 1
    then show ?thesis by (simp add: GetOp2_def push_data_def opcode_defs Let_def)
  next
    case 2
    then show ?thesis by (simp add: GetOp2_def push_data_def opcode_defs Let_def)
  next
    case 3
    then show ?thesis
      by (simp add: GetOp2_def push_data_def opcode_defs Let_def r del: le_write.simps)
  next
    case 4
    with assms show ?thesis
      by (simp add: GetOp2_def push_data_def opcode_defs Let_def r4 del: le_write.simps)
  qed
qed

lemma push_data_append: "push_data script b = script @ push_data [] b"
  by (simp add: push_data_def)

text \<open>What \<^verbatim>\<open>GetOp2\<close> consumes is a prefix of the script, so repeated calls end.\<close>

lemma GetOp2_shortens: "GetOp2 pc = Some (opcode, v, pc') \<Longrightarrow> length pc' < length pc"
  by (auto simp: GetOp2_def Let_def bind_reader_Some split: list.splits if_splits
      dest!: ser_readdata_SomeD)

subsection \<open>Properties\<close>

text \<open>The compact size format is canonical: a size up to \<^verbatim>\<open>MAX_SIZE\<close> is read back from what
  \<^verbatim>\<open>WriteCompactSize\<close> wrote, and \<^verbatim>\<open>ReadCompactSize\<close> succeeds on nothing else.\<close>

theorem compact_size_canonical:
  "ReadCompactSize s = Some (n, r) \<longleftrightarrow> s = WriteCompactSize n @ r \<and> n \<le> MAX_SIZE"
  by (rule cs.dec_iff)

text \<open>Byte vectors and strings of up to \<^verbatim>\<open>MAX_SIZE\<close> bytes and variable-length integers of the
  given width survive a write and a read from the front of any stream, and \<^verbatim>\<open>GetOp2\<close> reads back
  exactly the bytes a script push wrote.\<close>

theorem wire_formats_roundtrip:
  assumes "length v \<le> MAX_SIZE" "length str \<le> MAX_SIZE" "n < 2 ^ w"
  shows "Unserialize_bytes (Serialize_bytes v @ rest) = Some (v, rest) \<and>
    Unserialize_string (Serialize_string str @ rest) = Some (str, rest) \<and>
    ReadVarInt w 0 (WriteVarInt n @ rest) = Some (n, rest) \<and>
    (\<exists>opcode. GetOp2 (push_data [] v @ rest) = Some (opcode, v, rest))"
proof -
  have "length v < 2 ^ 32" using assms(1) by (simp add: MAX_SIZE_def)
  then show ?thesis
    using bytes.dec_enc [OF assms(1)] str.dec_enc [OF assms(2)] varint.dec_enc [OF assms(3)]
      GetOp2_push [of v rest] by auto
qed

theorem wire_formats_roundtrip_witness:
  "Unserialize_string (Serialize_string ''kubu'' @ [1, 2]) = Some (''kubu'', [1, 2]) \<and>
   ReadVarInt 32 0 (WriteVarInt 16512 @ [1, 2]) = Some (16512, [1, 2])"
  using wire_formats_roundtrip [of "[7, 8]" "''kubu''" 16512 32 "[1, 2]"]
  by (simp add: MAX_SIZE_def)

end
