(* ===== verification/Kubu_Base58.thy ===== *)
theory Kubu_Base58
  imports Kubu_Serialize
begin

text \<open>
  Base58 and addresses: \<^verbatim>\<open>src/src/base58.cpp\<close>, \<^verbatim>\<open>src/src/base58.h\<close> and the address prefixes of
  \<^verbatim>\<open>src/src/chainparams.cpp\<close>. The digit buffers of the two conversions are filled from their end,
  so they are modelled least significant digit first; the two \<^verbatim>\<open>assert(carry == 0)\<close> are an outcome
  of their own, which is proved never to happen. The double SHA-256 \<^verbatim>\<open>Hash\<close> of \<^verbatim>\<open>src/src/hash.h\<close> is
  a parameter; nothing below depends on which function it is.
\<close>

type_synonym uint160 = "160 word"
type_synonym uint256 = "256 word"

datatype 'a outcome = AssertFail | Ret 'a

subsection \<open>Base58\<close>

definition pszBase58 :: string where
  "pszBase58 = ''123456789ABCDEFGHJKLMNPQRSTUVWXYZabcdefghijkmnopqrstuvwxyz''"

fun strchr :: "string \<Rightarrow> char \<Rightarrow> nat option" where
  "strchr [] c = None"
| "strchr (d # ds) c = (if d = c then Some 0 else map_option Suc (strchr ds c))"

text \<open>The inner loop \<^verbatim>\<open>b = b * m + carry\<close> over a digit buffer in base \<open>B\<close>: the carry that is left,
  the number of digits touched, and the buffer.\<close>

fun mul_add :: "nat \<Rightarrow> nat \<Rightarrow> nat \<Rightarrow> nat \<Rightarrow> nat \<Rightarrow> nat list \<Rightarrow> nat \<times> nat \<times> nat list" where
  "mul_add m B len carry i [] = (carry, i, [])"
| "mul_add m B len carry i (d # ds) =
     (if carry \<noteq> 0 \<or> i < len then
        let c = carry + m * d; (carry', i', ds') = mul_add m B len (c div B) (Suc i) ds
        in (carry', i', c mod B # ds')
      else (carry, i, d # ds))"

text \<open>The outer loop of \<^verbatim>\<open>DecodeBase58\<close>: the buffer, its length and the unread characters, or
  \<open>None\<close> at a character outside the alphabet.\<close>

fun decode_loop :: "string \<Rightarrow> nat \<Rightarrow> nat list \<Rightarrow> (nat list \<times> nat \<times> string) option outcome" where
  "decode_loop [] len b256 = Ret (Some (b256, len, []))"
| "decode_loop (ch # psz) len b256 =
     (if isspace ch then Ret (Some (b256, len, ch # psz))
      else case strchr pszBase58 ch of
          None \<Rightarrow> Ret None
        | Some k \<Rightarrow>
            let (carry, i, b256') = mul_add 58 256 len k 0 b256
            in if carry \<noteq> 0 then AssertFail else decode_loop psz i b256')"

definition DecodeBase58_run :: "string \<Rightarrow> byte list option outcome" where
  "DecodeBase58_run str =
     (let psz = takeWhile (\<lambda>c. c \<noteq> CHR 0x00) str;
          psz = dropWhile isspace psz;
          zeroes = length (takeWhile (\<lambda>c. c = CHR ''1'') psz);
          psz = drop zeroes psz;
          size = length psz * 733 div 1000 + 1
      in case decode_loop psz 0 (replicate size 0) of
           AssertFail \<Rightarrow> AssertFail
         | Ret None \<Rightarrow> Ret None
         | Ret (Some (b256, len, psz)) \<Rightarrow>
             (if dropWhile isspace psz \<noteq> [] then Ret None
              else Ret (Some (replicate zeroes 0 @
                     map byte (dropWhile (\<lambda>d. d = 0) (drop (size - len) (rev b256)))))))"

definition DecodeBase58 :: "string \<Rightarrow> byte list option" where
  "DecodeBase58 str = (case DecodeBase58_run str of AssertFail \<Rightarrow> None | Ret r \<Rightarrow> r)"

fun encode_loop :: "byte list \<Rightarrow> nat \<Rightarrow> nat list \<Rightarrow> (nat list \<times> nat) outcome" where
  "encode_loop [] len b58 = Ret (b58, len)"
| "encode_loop (c # cs) len b58 =
     (let (carry, i, b58') = mul_add 256 58 len (unat c) 0 b58
      in if carry \<noteq> 0 then AssertFail else encode_loop cs i b58')"

definition EncodeBase58_run :: "byte list \<Rightarrow> string outcome" where
  "EncodeBase58_run vch =
     (let zeroes = length (takeWhile (\<lambda>b. b = 0) vch);
          rest = drop zeroes vch;
          size = length rest * 138 div 100 + 1
      in case encode_loop rest 0 (replicate size 0) of
           AssertFail \<Rightarrow> AssertFail
         | Ret (b58, len) \<Rightarrow>
             Ret (replicate zeroes CHR ''1'' @
                  map (\<lambda>d. pszBase58 ! d) (dropWhile (\<lambda>d. d = 0) (drop (size - len) (rev b58)))))"

definition EncodeBase58 :: "byte list \<Rightarrow> string" where
  "EncodeBase58 vch = (case EncodeBase58_run vch of AssertFail \<Rightarrow> [] | Ret s \<Rightarrow> s)"

subsection \<open>Checksums\<close>

definition blob_bytes :: "uint256 \<Rightarrow> byte list" where
  "blob_bytes h = le_write 32 (unat h)"

definition EncodeBase58Check :: "(byte list \<Rightarrow> uint256) \<Rightarrow> byte list \<Rightarrow> string" where
  "EncodeBase58Check Hash vchIn = EncodeBase58 (vchIn @ take 4 (blob_bytes (Hash vchIn)))"

definition DecodeBase58Check :: "(byte list \<Rightarrow> uint256) \<Rightarrow> string \<Rightarrow> byte list option" where
  "DecodeBase58Check Hash psz =
     (case DecodeBase58 psz of None \<Rightarrow> None
      | Some vchRet \<Rightarrow>
          if length vchRet < 4 then None
          else let body = take (length vchRet - 4) vchRet in
            if take 4 (blob_bytes (Hash body)) \<noteq> drop (length vchRet - 4) vchRet then None
            else Some body)"

subsection \<open>Addresses\<close>

record CBase58Data =
  vchVersion :: "byte list"
  vchData :: "byte list"

record Base58Prefixes =
  PUBKEY_ADDRESS :: "byte list"
  SCRIPT_ADDRESS :: "byte list"
  SECRET_KEY :: "byte list"

definition main_prefixes :: Base58Prefixes where
  "main_prefixes = \<lparr>PUBKEY_ADDRESS = [45], SCRIPT_ADDRESS = [22], SECRET_KEY = [158]\<rparr>"

definition test_prefixes :: Base58Prefixes where
  "test_prefixes = \<lparr>PUBKEY_ADDRESS = [113], SCRIPT_ADDRESS = [196], SECRET_KEY = [241]\<rparr>"

definition regtest_prefixes :: Base58Prefixes where
  "regtest_prefixes = \<lparr>PUBKEY_ADDRESS = [111], SCRIPT_ADDRESS = [196], SECRET_KEY = [239]\<rparr>"

datatype CTxDestination = CNoDestination | CKeyID uint160 | CScriptID uint160

definition uint160_bytes :: "uint160 \<Rightarrow> byte list" where
  "uint160_bytes h = le_write 20 (unat h)"

definition uint160_of :: "byte list \<Rightarrow> uint160" where
  "uint160_of bs = word_of_nat (le_value bs)"

definition SetString :: "(byte list \<Rightarrow> uint256) \<Rightarrow> string \<Rightarrow> nat \<Rightarrow> CBase58Data" where
  "SetString Hash psz nVersionBytes =
     (case DecodeBase58Check Hash psz of
        None \<Rightarrow> \<lparr>vchVersion = [], vchData = []\<rparr>
      | Some vchTemp \<Rightarrow>
          if length vchTemp < nVersionBytes then \<lparr>vchVersion = [], vchData = []\<rparr>
          else \<lparr>vchVersion = take nVersionBytes vchTemp, vchData = drop nVersionBytes vchTemp\<rparr>)"

definition Base58_ToString :: "(byte list \<Rightarrow> uint256) \<Rightarrow> CBase58Data \<Rightarrow> string" where
  "Base58_ToString Hash d = EncodeBase58Check Hash (vchVersion d @ vchData d)"

definition Address_of_string :: "(byte list \<Rightarrow> uint256) \<Rightarrow> string \<Rightarrow> CBase58Data" where
  "Address_of_string Hash strAddress = SetString Hash strAddress 1"

fun Address_of_dest :: "Base58Prefixes \<Rightarrow> CTxDestination \<Rightarrow> CBase58Data" where
  "Address_of_dest P CNoDestination = \<lparr>vchVersion = [], vchData = []\<rparr>"
| "Address_of_dest P (CKeyID h) = \<lparr>vchVersion = PUBKEY_ADDRESS P, vchData = uint160_bytes h\<rparr>"
| "Address_of_dest P (CScriptID h) = \<lparr>vchVersion = SCRIPT_ADDRESS P, vchData = uint160_bytes h\<rparr>"

definition Address_IsValid :: "Base58Prefixes \<Rightarrow> CBase58Data \<Rightarrow> bool" where
  "Address_IsValid P a \<longleftrightarrow> length (vchData a) = 20 \<and>
     (vchVersion a = PUBKEY_ADDRESS P \<or> vchVersion a = SCRIPT_ADDRESS P)"

definition Address_Get :: "Base58Prefixes \<Rightarrow> CBase58Data \<Rightarrow> CTxDestination" where
  "Address_Get P a =
     (if \<not> Address_IsValid P a then CNoDestination
      else if vchVersion a = PUBKEY_ADDRESS P then CKeyID (uint160_of (vchData a))
      else if vchVersion a = SCRIPT_ADDRESS P then CScriptID (uint160_of (vchData a))
      else CNoDestination)"

definition address_string :: "(byte list \<Rightarrow> uint256) \<Rightarrow> Base58Prefixes \<Rightarrow> CTxDestination \<Rightarrow> string" where
  "address_string Hash P d = Base58_ToString Hash (Address_of_dest P d)"

definition address_dest :: "(byte list \<Rightarrow> uint256) \<Rightarrow> Base58Prefixes \<Rightarrow> string \<Rightarrow> CTxDestination" where
  "address_dest Hash P a = Address_Get P (Address_of_string Hash a)"

definition prefixes_ok :: "Base58Prefixes \<Rightarrow> bool" where
  "prefixes_ok P \<longleftrightarrow> length (PUBKEY_ADDRESS P) = 1 \<and> length (SCRIPT_ADDRESS P) = 1 \<and>
     PUBKEY_ADDRESS P \<noteq> SCRIPT_ADDRESS P"

subsection \<open>Values of digit lists\<close>

fun digits_value :: "nat \<Rightarrow> nat list \<Rightarrow> nat" where
  "digits_value B [] = 0"
| "digits_value B (d # ds) = d + B * digits_value B ds"

lemma digits_value_replicate_0 [simp]: "digits_value B (replicate n 0) = 0"
  by (induction n) auto

lemma digits_value_append:
  "digits_value B (xs @ ys) = digits_value B xs + B ^ length xs * digits_value B ys"
  by (induction xs) (auto simp: algebra_simps)

lemma digits_value_bound: "list_all (\<lambda>d. d < B) ds \<Longrightarrow> digits_value B ds < B ^ length ds"
proof (induction ds)
  case (Cons d ds)
  then have "Suc (digits_value B ds) \<le> B ^ length ds" by simp
  then have "B * Suc (digits_value B ds) \<le> B * B ^ length ds" by (rule mult_le_mono2)
  with Cons.prems show ?case by simp
qed simp

lemma digits_value_0_iff: "0 < B \<Longrightarrow> digits_value B ds = 0 \<longleftrightarrow> list_all (\<lambda>d. d = 0) ds"
  by (induction ds) auto

text \<open>Two digit lists without a leading zero that have the same value are the same list.\<close>

lemma digits_value_inject:
  assumes "list_all (\<lambda>d. d < B) xs" "list_all (\<lambda>d. d < B) ys"
    and "digits_value B xs = digits_value B ys"
    and "xs = [] \<or> last xs \<noteq> 0" "ys = [] \<or> last ys \<noteq> 0"
  shows "xs = ys"
  using assms
proof (induction xs arbitrary: ys)
  case Nil
  show ?case
  proof (cases "ys = []")
    case False
    then have "0 < B" using Nil.prems(2) by (cases ys) auto
    then have "list_all (\<lambda>d. d = 0) ys" using Nil.prems(3) digits_value_0_iff by fastforce
    then have "last ys = 0" using False by (simp add: list_all_iff)
    with False Nil.prems(5) show ?thesis by simp
  qed simp
next
  case (Cons x xs)
  have B: "0 < B" using Cons.prems(1) by auto
  show ?case
  proof (cases ys)
    case Nil
    then have "list_all (\<lambda>d. d = 0) (x # xs)"
      using Cons.prems(3) digits_value_0_iff [OF B, of "x # xs"] by simp
    then have "last (x # xs) = 0" by (simp add: list_all_iff)
    with Cons.prems(4) show ?thesis by blast
  next
    case (Cons y ys')
    have lt: "x < B" "y < B" using Cons.prems Cons by simp_all
    have eq: "x + B * digits_value B xs = y + B * digits_value B ys'" using Cons.prems Cons by simp
    have "x = y" using arg_cong [OF eq, of "\<lambda>n. n mod B"] lt by simp
    moreover have "digits_value B xs = digits_value B ys'" using eq calculation B by simp
    then have "xs = ys'"
      using Cons.prems Cons by (intro Cons.IH) (auto split: if_splits)
    ultimately show ?thesis using Cons by simp
  qed
qed

subsection \<open>The conversion loops\<close>

lemma mul_add_spec:
  assumes "mul_add m B len carry i ds = (carry', i', ds')" "0 < B"
    and "list_all (\<lambda>d. d = 0) (drop (len - i) ds)"
  shows "length ds' = length ds \<and> i \<le> i' \<and>
    digits_value B ds' + carry' * B ^ length ds = m * digits_value B ds + carry \<and>
    (list_all (\<lambda>d. d < B) ds \<longrightarrow> list_all (\<lambda>d. d < B) ds') \<and>
    list_all (\<lambda>d. d = 0) (drop (i' - i) ds')"
  using assms
proof (induction m B len carry i ds arbitrary: carry' i' ds' rule: mul_add.induct)
  case (2 m B len carry i d ds)
  show ?case
  proof (cases "carry \<noteq> 0 \<or> i < len")
    case True
    define c where "c = carry + m * d"
    obtain carry1 i1 ds1 where rec: "mul_add m B len (c div B) (Suc i) ds = (carry1, i1, ds1)"
      by (metis prod_cases3)
    have res: "carry' = carry1" "i' = i1" "ds' = c mod B # ds1"
      using "2.prems"(1) True rec by (simp_all add: c_def Let_def)
    have "list_all (\<lambda>d. d = 0) (drop (len - Suc i) ds)"
    proof (cases "len - i")
      case 0
      then show ?thesis using "2.prems"(3) by (auto simp: list_all_iff dest: in_set_dropD)
    next
      case (Suc n)
      then have "len - Suc i = n" by simp
      with Suc show ?thesis using "2.prems"(3) by simp
    qed
    from "2.IH" [OF True c_def rec "2.prems"(2) this]
    have IH: "length ds1 = length ds" "Suc i \<le> i1"
      "digits_value B ds1 + carry1 * B ^ length ds = m * digits_value B ds + c div B"
      "list_all (\<lambda>d. d < B) ds \<longrightarrow> list_all (\<lambda>d. d < B) ds1"
      "list_all (\<lambda>d. d = 0) (drop (i1 - Suc i) ds1)"
      by auto
    have "digits_value B ds' + carry' * B ^ length (d # ds) =
        c mod B + B * (digits_value B ds1 + carry1 * B ^ length ds)"
      by (simp add: res algebra_simps)
    also have "\<dots> = c mod B + B * (c div B) + B * (m * digits_value B ds)"
      unfolding IH(3) by (simp add: algebra_simps)
    also have "\<dots> = m * digits_value B (d # ds) + carry"
      by (simp add: c_def algebra_simps)
    finally have v: "digits_value B ds' + carry' * B ^ length (d # ds) = m * digits_value B (d # ds) + carry" .
    have "drop (i' - i) ds' = drop (i1 - Suc i) ds1"
      using IH(2) by (simp add: res Suc_diff_le drop_Cons')
    then show ?thesis using v IH res "2.prems"(2) by auto
  next
    case False
    with "2.prems" show ?thesis by (auto simp: digits_value_0_iff)
  qed
qed auto

text \<open>Both conversions are this loop: \<open>m\<close> is the base of the input, \<open>B\<close> that of the buffer.\<close>

fun conv_loop :: "nat \<Rightarrow> nat \<Rightarrow> nat list \<Rightarrow> nat \<Rightarrow> nat list \<Rightarrow> (nat list \<times> nat) option" where
  "conv_loop m B [] len D = Some (D, len)"
| "conv_loop m B (k # ks) len D =
     (let (carry, i, D') = mul_add m B len k 0 D in if carry \<noteq> 0 then None else conv_loop m B ks i D')"

abbreviation horner :: "nat \<Rightarrow> nat \<Rightarrow> nat list \<Rightarrow> nat" where
  "horner m \<equiv> foldl (\<lambda>a k. a * m + k)"

definition buffer_ok :: "nat \<Rightarrow> nat \<Rightarrow> nat list \<Rightarrow> bool" where
  "buffer_ok B len D \<longleftrightarrow> list_all (\<lambda>d. d < B) D \<and> list_all (\<lambda>d. d = 0) (drop len D)"

lemma mul_add_step:
  assumes "0 < B" "buffer_ok B len D" "k < m" "Suc (digits_value B D) * m * j \<le> B ^ length D" "0 < j"
  obtains i D' where "mul_add m B len k 0 D = (0, i, D')" "buffer_ok B i D'" "length D' = length D"
    "digits_value B D' = digits_value B D * m + k"
    "Suc (digits_value B D') * j \<le> B ^ length D'"
proof -
  obtain carry i D' where r: "mul_add m B len k 0 D = (carry, i, D')" by (metis prod_cases3)
  have spec: "length D' = length D"
    "digits_value B D' + carry * B ^ length D = m * digits_value B D + k"
    "buffer_ok B i D'"
    using mul_add_spec [OF r assms(1)] assms(2) by (auto simp: buffer_ok_def)
  define v where "v = digits_value B D"
  have le: "Suc (m * v + k) \<le> Suc v * m" using assms(3) by (simp add: mult.commute)
  then have "Suc (m * v + k) * j \<le> Suc v * m * j" by (rule mult_le_mono1)
  then have bound: "Suc (m * v + k) * j \<le> B ^ length D" using assms(4) unfolding v_def by linarith
  have "Suc (m * v + k) \<le> Suc (m * v + k) * j" using assms(5) by (cases j) simp_all
  with bound have "Suc (m * v + k) \<le> B ^ length D" by (rule order_trans [rotated])
  then have "m * v + k < B ^ length D" by simp
  then have c: "carry = 0"
    using spec(2) unfolding v_def [symmetric] by (cases carry) auto
  with spec bound that [of i D'] r show ?thesis unfolding v_def [symmetric]
    by (simp add: mult.commute)
qed

lemma conv_loop_ok:
  assumes "0 < B" "buffer_ok B len D" "list_all (\<lambda>k. k < m) ks"
    and "Suc (digits_value B D) * m ^ length ks \<le> B ^ length D"
  shows "\<exists>D' len'. conv_loop m B ks len D = Some (D', len') \<and> length D' = length D \<and>
    buffer_ok B len' D' \<and> digits_value B D' = horner m (digits_value B D) ks"
  using assms
proof (induction ks arbitrary: len D)
  case (Cons k ks)
  have k: "k < m" "0 < m ^ length ks" using Cons.prems(3) by auto
  have "Suc (digits_value B D) * m * m ^ length ks \<le> B ^ length D"
    using Cons.prems(4) by (simp add: algebra_simps)
  then obtain i D' where step: "mul_add m B len k 0 D = (0, i, D')" "buffer_ok B i D'" "length D' = length D"
    "digits_value B D' = digits_value B D * m + k"
    "Suc (digits_value B D') * m ^ length ks \<le> B ^ length D'"
    using mul_add_step [OF Cons.prems(1,2) k(1) _ k(2)] by blast
  from Cons.IH [OF Cons.prems(1) step(2) _ step(5)] Cons.prems(3) step show ?case by auto
qed simp

lemma encode_loop_conv:
  "encode_loop cs len D =
     (case conv_loop 256 58 (map unat cs) len D of None \<Rightarrow> AssertFail | Some (D', l) \<Rightarrow> Ret (D', l))"
  by (induction cs len D rule: encode_loop.induct) (auto simp: Let_def split: prod.splits)

lemma alphabet_facts:
  "list_all (\<lambda>d. strchr pszBase58 (pszBase58 ! d) = Some d \<and> \<not> isspace (pszBase58 ! d) \<and>
     pszBase58 ! d \<noteq> CHR 0x00 \<and> (pszBase58 ! d = CHR ''1'' \<longleftrightarrow> d = 0)) [0..<58]"
  by code_simp

lemma alphabet:
  assumes "d < 58"
  shows "strchr pszBase58 (pszBase58 ! d) = Some d" "\<not> isspace (pszBase58 ! d)"
    "pszBase58 ! d \<noteq> CHR 0x00" "pszBase58 ! d = CHR ''1'' \<longleftrightarrow> d = 0"
  using alphabet_facts assms by (auto simp: list_all_iff)

lemma strchr_bound: "strchr ds c = Some k \<Longrightarrow> k < length ds"
  by (induction ds arbitrary: k) (auto split: if_splits)

lemma strchr_alphabet_bound: "strchr pszBase58 c = Some k \<Longrightarrow> k < 58"
  using strchr_bound [of pszBase58 c k] by (simp add: pszBase58_def)

lemma decode_loop_conv:
  assumes "list_all (\<lambda>d. d < 58) ks"
  shows "decode_loop (map (\<lambda>d. pszBase58 ! d) ks) len D =
     (case conv_loop 58 256 ks len D of None \<Rightarrow> AssertFail | Some (D', l) \<Rightarrow> Ret (Some (D', l, [])))"
  using assms
proof (induction ks arbitrary: len D)
  case (Cons k ks)
  then show ?case by (auto simp: alphabet Let_def split: prod.splits)
qed simp

lemma decode_loop_no_assert:
  assumes "buffer_ok 256 len D" "Suc (digits_value 256 D) * 58 ^ length psz \<le> 256 ^ length D"
  shows "decode_loop psz len D \<noteq> AssertFail"
  using assms
proof (induction psz arbitrary: len D)
  case (Cons c psz)
  show ?case
  proof (cases "isspace c \<or> strchr pszBase58 c = None")
    case True
    then show ?thesis by (auto split: option.splits)
  next
    case False
    then obtain k where k: "strchr pszBase58 c = Some k" "k < 58"
      using strchr_alphabet_bound by blast
    have "Suc (digits_value 256 D) * 58 * 58 ^ length psz \<le> 256 ^ length D"
      using Cons.prems(2) by (simp add: algebra_simps)
    then obtain i D' where step: "mul_add 58 256 len k 0 D = (0, i, D')" "buffer_ok 256 i D'"
      "length D' = length D" "Suc (digits_value 256 D') * 58 ^ length psz \<le> 256 ^ length D'"
      using mul_add_step [OF _ Cons.prems(1) k(2), of "58 ^ length psz"] by (metis zero_less_numeral zero_less_power)
    from Cons.IH [OF step(2,4)] False k step(1) show ?thesis by auto
  qed
qed simp

subsection \<open>The buffers are large enough\<close>

lemma power_size_bound:
  fixes a b :: nat
  assumes "a ^ q \<le> b ^ p" "1 < b" "0 < q"
  shows "a ^ n < b ^ (n * p div q + 1)"
proof -
  define k where "k = n * p div q + 1"
  have "n * p mod q < q" using assms(3) by simp
  moreover have "n * p div q * q + n * p mod q = n * p" by (rule div_mult_mod_eq)
  moreover have "k * q = n * p div q * q + q" by (simp add: k_def)
  ultimately have "n * p < k * q" by linarith
  then have "b ^ (n * p) < b ^ (k * q)" using assms(2) by simp
  moreover have "(a ^ q) ^ n \<le> (b ^ p) ^ n" using assms(1) by (intro power_mono) simp_all
  moreover have "(a ^ q) ^ n = (a ^ n) ^ q" "(b ^ p) ^ n = b ^ (n * p)" "b ^ (k * q) = (b ^ k) ^ q"
    by (simp_all only: power_mult [symmetric] mult.commute [of q n] mult.commute [of p n])
  ultimately have "(a ^ n) ^ q < (b ^ k) ^ q" by simp
  then show ?thesis unfolding k_def by (rule power_less_imp_less_base) simp
qed

lemma decode_size: "(58 :: nat) ^ n < 256 ^ (n * 733 div 1000 + 1)"
proof -
  have "(58 :: nat) ^ n < 256 ^ (n * 63 div 86 + 1)"
    by (rule power_size_bound) simp_all
  also have "\<dots> \<le> 256 ^ (n * 733 div 1000 + 1)"
    by (rule power_increasing) simp_all
  finally show ?thesis .
qed

lemma encode_size: "(256 :: nat) ^ n < 58 ^ (n * 138 div 100 + 1)"
proof -
  have "(256 :: nat) ^ n < 58 ^ (n * 11 div 8 + 1)"
    by (rule power_size_bound) simp_all
  also have "\<dots> \<le> 58 ^ (n * 138 div 100 + 1)"
    by (rule power_increasing) simp_all
  finally show ?thesis .
qed

subsection \<open>What the conversions compute\<close>

text \<open>The significant digits of a buffer, least significant first.\<close>

definition canon :: "nat list \<Rightarrow> nat list" where
  "canon D = rdropWhile (\<lambda>d. d = 0) D"

lemma rdropWhile_prefix: "\<exists>ys. xs = rdropWhile P xs @ ys \<and> list_all P ys"
proof -
  have "rev xs = takeWhile P (rev xs) @ dropWhile P (rev xs)" by simp
  then have "xs = rdropWhile P xs @ rev (takeWhile P (rev xs))"
    unfolding rdropWhile_def by (metis rev_append rev_rev_ident)
  moreover have "list_all P (rev (takeWhile P (rev xs)))"
    by (auto simp: list_all_iff dest: set_takeWhileD)
  ultimately show ?thesis by blast
qed

lemma canon_value [simp]: "0 < B \<Longrightarrow> digits_value B (canon D) = digits_value B D"
proof -
  assume B: "0 < B"
  obtain ys where D: "D = canon D @ ys" "list_all (\<lambda>d. d = 0) ys"
    unfolding canon_def using rdropWhile_prefix by blast
  have "digits_value B D = digits_value B (canon D) + B ^ length (canon D) * digits_value B ys"
    by (subst (1) D(1)) (rule digits_value_append)
  with D(2) B show ?thesis by (simp add: digits_value_0_iff [THEN iffD2])
qed

lemma canon_last: "canon D = [] \<or> last (canon D) \<noteq> 0"
proof -
  have "dropWhile (\<lambda>d. d = (0 :: nat)) (rev D) = [] \<or> hd (dropWhile (\<lambda>d. d = 0) (rev D)) \<noteq> 0"
    using hd_dropWhile [of "\<lambda>d. d = (0 :: nat)" "rev D"] by blast
  then show ?thesis unfolding canon_def rdropWhile_def last_rev rev_is_Nil_conv .
qed

lemma canon_digits: "list_all P D \<Longrightarrow> list_all P (canon D)"
  by (auto simp: canon_def rdropWhile_def list_all_iff dest: set_dropWhileD)

lemma dropWhile_buffer:
  assumes "list_all (\<lambda>d. d = 0) (drop len D)"
  shows "dropWhile (\<lambda>d. d = (0 :: nat)) (drop (length D - len) (rev D)) = rev (canon D)"
proof -
  have "rev D = rev (drop len D) @ rev (take len D)"
    by (metis append_take_drop_id rev_append)
  then have "drop (length D - len) (rev D) = rev (take len D)"
    by simp
  moreover have "dropWhile (\<lambda>d. d = 0) (rev (drop len D) @ rev (take len D)) =
      dropWhile (\<lambda>d. d = 0) (rev (take len D))"
    using assms by (intro dropWhile_append2) (simp add: list_all_iff)
  ultimately show ?thesis
    using \<open>rev D = rev (drop len D) @ rev (take len D)\<close> by (simp add: canon_def rdropWhile_def)
qed

lemma horner_digits_value: "horner B a ks = a * B ^ length ks + digits_value B (rev ks)"
  by (induction ks arbitrary: a) (simp_all add: digits_value_append algebra_simps)

lemma buffer_ok_zero: "0 < B \<Longrightarrow> buffer_ok B 0 (replicate n 0)"
  by (simp add: buffer_ok_def list_all_iff)

lemma encode_run:
  obtains D where "EncodeBase58_run vch =
      Ret (replicate (length (takeWhile (\<lambda>b. b = 0) vch)) CHR ''1'' @
           map (\<lambda>d. pszBase58 ! d) (rev (canon D)))"
    and "list_all (\<lambda>d. d < 58) D"
    and "digits_value 58 D = digits_value 256 (map unat (rev (dropWhile (\<lambda>b. b = 0) vch)))"
proof -
  define z where "z = length (takeWhile (\<lambda>b. b = 0) vch)"
  define rest where "rest = drop z vch"
  define size where "size = length rest * 138 div 100 + 1"
  have rest: "rest = dropWhile (\<lambda>b. b = 0) vch" unfolding rest_def z_def by (rule dropWhile_eq_drop [symmetric])
  have "Suc 0 * 256 ^ length (map unat rest) \<le> (58 :: nat) ^ length (replicate size (0 :: nat))"
    using encode_size [of "length rest"] by (simp add: size_def less_imp_le)
  then obtain D len where D: "conv_loop 256 58 (map unat rest) 0 (replicate size 0) = Some (D, len)"
    "length D = size" "buffer_ok 58 len D" "digits_value 58 D = horner 256 0 (map unat rest)"
    using conv_loop_ok [of 58 0 "replicate size 0" 256 "map unat rest"] buffer_ok_zero [of 58 size]
    by (auto simp: list_all_iff)
  have "EncodeBase58_run vch = Ret (replicate z CHR ''1'' @ map (\<lambda>d. pszBase58 ! d) (rev (canon D)))"
    unfolding EncodeBase58_run_def Let_def z_def [symmetric] rest_def [symmetric]
      size_def [symmetric] encode_loop_conv
    using D dropWhile_buffer [of len D] by (simp add: buffer_ok_def)
  moreover have "list_all (\<lambda>d. d < 58) D" using D(3) by (simp add: buffer_ok_def)
  moreover have "digits_value 58 D = digits_value 256 (map unat (rev (dropWhile (\<lambda>b. b = 0) vch)))"
    using D(4) by (simp add: horner_digits_value rest rev_map)
  ultimately show ?thesis using that unfolding z_def by blast
qed

lemma takeWhile_ones:
  assumes "list_all (\<lambda>d. d < 58) ks" "ks = [] \<or> hd ks \<noteq> 0"
  shows "length (takeWhile (\<lambda>c. c = CHR ''1'')
      (replicate z CHR ''1'' @ map (\<lambda>d. pszBase58 ! d) ks)) = z"
proof -
  have "takeWhile (\<lambda>c. c = CHR ''1'') (map (\<lambda>d. pszBase58 ! d) ks) = []"
    using assms by (cases ks) (auto simp: alphabet)
  then show ?thesis by (simp add: takeWhile_append)
qed

lemma decode_run:
  assumes ks: "list_all (\<lambda>d. d < 58) ks" "ks = [] \<or> hd ks \<noteq> 0"
  obtains D where "DecodeBase58_run (replicate z CHR ''1'' @ map (\<lambda>d. pszBase58 ! d) ks) =
      Ret (Some (replicate z 0 @ map byte (rev (canon D))))"
    and "list_all (\<lambda>d. d < 256) D" and "digits_value 256 D = digits_value 58 (rev ks)"
proof -
  define str where "str = replicate z CHR ''1'' @ map (\<lambda>d. pszBase58 ! d) ks"
  have chars: "list_all (\<lambda>c. \<not> isspace c \<and> c \<noteq> CHR 0x00) str"
  proof -
    have "\<not> isspace CHR ''1''" by (simp add: isspace_def char_code_def)
    then show ?thesis using ks(1) by (auto simp: str_def list_all_iff alphabet)
  qed
  have nul: "takeWhile (\<lambda>c. c \<noteq> CHR 0x00) str = str"
    using chars by (simp add: takeWhile_eq_all_conv list_all_iff)
  have sp: "dropWhile isspace str = str" using chars by (cases str) auto
  have z: "length (takeWhile (\<lambda>c. c = CHR ''1'') str) = z"
    unfolding str_def by (rule takeWhile_ones [OF ks])
  define size where "size = length ks * 733 div 1000 + 1"
  have "Suc 0 * 58 ^ length ks \<le> (256 :: nat) ^ length (replicate size (0 :: nat))"
    using decode_size [of "length ks"] by (simp add: size_def less_imp_le)
  then obtain D len where D: "conv_loop 58 256 ks 0 (replicate size 0) = Some (D, len)"
    "length D = size" "buffer_ok 256 len D" "digits_value 256 D = horner 58 0 ks"
    using conv_loop_ok [of 256 0 "replicate size 0" 58 ks] buffer_ok_zero [of 256 size] ks(1)
    by auto
  have "DecodeBase58_run str = Ret (Some (replicate z 0 @ map byte (rev (canon D))))"
  proof -
    have d: "drop z str = map (\<lambda>d. pszBase58 ! d) ks" by (simp add: str_def)
    have l: "length (map (\<lambda>d. pszBase58 ! d) ks) * 733 div 1000 + 1 = size" by (simp add: size_def)
    show ?thesis
      unfolding DecodeBase58_run_def Let_def nul sp z d l decode_loop_conv [OF ks(1)]
      using D dropWhile_buffer [of len D] by (simp add: buffer_ok_def)
  qed
  moreover have "list_all (\<lambda>d. d < 256) D" using D(3) by (simp add: buffer_ok_def)
  moreover have "digits_value 256 D = digits_value 58 (rev ks)"
    using D(4) by (simp add: horner_digits_value)
  ultimately show ?thesis using that unfolding str_def by blast
qed

lemma DecodeBase58_Encode: "DecodeBase58 (EncodeBase58 vch) = Some vch"
proof -
  let ?z = "length (takeWhile (\<lambda>b. b = 0) vch)" and ?rest = "dropWhile (\<lambda>b. b = 0) vch"
  obtain D where e: "EncodeBase58_run vch =
      Ret (replicate ?z CHR ''1'' @ map (\<lambda>d. pszBase58 ! d) (rev (canon D)))"
    "list_all (\<lambda>d. d < 58) D" "digits_value 58 D = digits_value 256 (map unat (rev ?rest))"
    by (rule encode_run)
  have ks: "list_all (\<lambda>d. d < 58) (rev (canon D))" "rev (canon D) = [] \<or> hd (rev (canon D)) \<noteq> 0"
    using canon_digits [OF e(2)] canon_last [of D] by (auto simp: hd_rev list_all_iff)
  obtain D' where d: "DecodeBase58_run (replicate ?z CHR ''1'' @ map (\<lambda>d. pszBase58 ! d) (rev (canon D))) =
      Ret (Some (replicate ?z 0 @ map byte (rev (canon D'))))"
    "list_all (\<lambda>d. d < 256) D'" "digits_value 256 D' = digits_value 58 (canon D)"
    using decode_run [OF ks] by (metis rev_rev_ident)
  have "canon D' = map unat (rev ?rest)"
  proof (rule digits_value_inject [of 256])
    show "list_all (\<lambda>d. d < 256) (canon D')" by (rule canon_digits [OF d(2)])
    show "list_all (\<lambda>d. d < 256) (map unat (rev ?rest))" by (simp add: list_all_iff)
    show "digits_value 256 (canon D') = digits_value 256 (map unat (rev ?rest))"
      using d(3) e(3) by simp
    show "canon D' = [] \<or> last (canon D') \<noteq> 0" by (rule canon_last)
    show "map unat (rev ?rest) = [] \<or> last (map unat (rev ?rest)) \<noteq> 0"
    proof (cases "?rest = []")
      case False
      then have "hd ?rest \<noteq> 0" by (rule hd_dropWhile)
      with False show ?thesis
        by (simp only: last_map rev_is_Nil_conv last_rev not_False_eq_True unat_eq_zero simp_thms)
    qed simp
  qed
  then have "map byte (rev (canon D')) = ?rest" by (simp add: rev_map [symmetric] comp_def)
  moreover have "replicate ?z 0 = takeWhile (\<lambda>b. b = 0) vch"
    by (rule replicate_eqI [symmetric]) (auto dest: set_takeWhileD)
  ultimately show ?thesis by (simp add: EncodeBase58_def DecodeBase58_def e(1) d(1))
qed

lemma EncodeBase58_total: "EncodeBase58_run vch \<noteq> AssertFail"
  by (metis encode_run outcome.distinct(1))

lemma DecodeBase58_total: "DecodeBase58_run str \<noteq> AssertFail"
proof -
  define psz where "psz = drop (length (takeWhile (\<lambda>c. c = CHR ''1'')
    (dropWhile isspace (takeWhile (\<lambda>c. c \<noteq> CHR 0x00) str))))
    (dropWhile isspace (takeWhile (\<lambda>c. c \<noteq> CHR 0x00) str))"
  have "decode_loop psz 0 (replicate (length psz * 733 div 1000 + 1) 0) \<noteq> AssertFail"
    using decode_size [of "length psz"]
    by (intro decode_loop_no_assert [OF buffer_ok_zero]) (simp_all add: less_imp_le)
  then show ?thesis
    unfolding DecodeBase58_run_def Let_def psz_def [symmetric]
    by (auto split: outcome.splits option.splits prod.splits)
qed

subsection \<open>Addresses are read back\<close>

lemma DecodeBase58Check_Encode: "DecodeBase58Check Hash (EncodeBase58Check Hash v) = Some v"
  by (simp add: DecodeBase58Check_def EncodeBase58Check_def DecodeBase58_Encode blob_bytes_def
      del: le_write.simps)

lemma uint160_of_bytes [simp]: "uint160_of (uint160_bytes h) = h"
proof -
  have "unat h < 256 ^ 20" by (rule order_less_le_trans [OF unsigned_less]) simp
  then show ?thesis by (simp add: uint160_of_def uint160_bytes_def del: le_write.simps)
qed

lemma uint160_bytes_of [simp]: "length bs = 20 \<Longrightarrow> uint160_bytes (uint160_of bs) = bs"
proof -
  assume l: "length bs = 20"
  then have "le_value bs < 2 ^ 160" using le_value_bound [of bs] by simp
  then show ?thesis using l by (simp add: uint160_of_def uint160_bytes_def unat_of_nat del: le_write.simps)
qed

lemma length_uint160_bytes [simp]: "length (uint160_bytes h) = 20"
  by (simp add: uint160_bytes_def del: le_write.simps)

text \<open>
  The contract between addresses and destinations: the text of a destination is a valid address
  that stands for that destination.
\<close>

locale address_codec =
  fixes show_dest :: "CTxDestination \<Rightarrow> string"
    and parse_addr :: "string \<Rightarrow> CTxDestination"
  assumes parse_show: "d \<noteq> CNoDestination \<Longrightarrow> parse_addr (show_dest d) = d"
begin

lemma show_dest_inject:
  "d \<noteq> CNoDestination \<Longrightarrow> d' \<noteq> CNoDestination \<Longrightarrow> show_dest d = show_dest d' \<Longrightarrow> d = d'"
  using parse_show by metis

lemma show_parse_show:
  "parse_addr a \<noteq> CNoDestination \<Longrightarrow> parse_addr (show_dest (parse_addr a)) = parse_addr a"
  by (rule parse_show)

end

lemma prefixes_ok_networks:
  "prefixes_ok main_prefixes" "prefixes_ok test_prefixes" "prefixes_ok regtest_prefixes"
  by (simp_all add: prefixes_ok_def main_prefixes_def test_prefixes_def regtest_prefixes_def)

lemma Address_of_string_ToString:
  assumes "length (vchVersion a) = 1"
  shows "Address_of_string Hash (Base58_ToString Hash a) = a"
  using assms by (simp add: Address_of_string_def SetString_def Base58_ToString_def
      DecodeBase58Check_Encode)

lemma address_codec_of:
  assumes "prefixes_ok P"
  shows "address_codec (address_string Hash P) (address_dest Hash P)"
proof
  fix d :: CTxDestination assume "d \<noteq> CNoDestination"
  then show "address_dest Hash P (address_string Hash P d) = d"
    using assms
    by (cases d) (auto simp: address_dest_def address_string_def prefixes_ok_def
        Address_of_string_ToString Address_Get_def Address_IsValid_def)
qed

interpretation main_addr: address_codec "address_string Hash main_prefixes" "address_dest Hash main_prefixes" for Hash
  by (rule address_codec_of [OF prefixes_ok_networks(1)])

interpretation test_addr: address_codec "address_string Hash test_prefixes" "address_dest Hash test_prefixes" for Hash
  by (rule address_codec_of [OF prefixes_ok_networks(2)])

interpretation regtest_addr: address_codec "address_string Hash regtest_prefixes" "address_dest Hash regtest_prefixes" for Hash
  by (rule address_codec_of [OF prefixes_ok_networks(3)])

subsection \<open>Leading characters\<close>

lemma digits_value_top:
  assumes "list_all (\<lambda>d. d < B) ds" "ds \<noteq> []"
  shows "digits_value B ds div B ^ (length ds - 1) = last ds"
proof -
  obtain xs x where ds: "ds = xs @ [x]" using assms(2) by (cases ds rule: rev_cases) auto
  have "digits_value B xs < B ^ length xs" using assms(1) ds by (intro digits_value_bound) simp
  then have "(digits_value B xs + B ^ length xs * x) div B ^ length xs = x"
    using div_mult_self2 [of "B ^ length xs" "digits_value B xs" x] by (cases "B ^ length xs = 0") simp_all
  then show ?thesis by (simp add: ds digits_value_append)
qed

lemma canon_length:
  assumes "list_all (\<lambda>d. d < B) D" "1 < B" "B ^ n \<le> digits_value B D" "digits_value B D < B ^ Suc n"
  shows "length (canon D) = Suc n"
proof -
  have v: "digits_value B (canon D) = digits_value B D" using assms(2) by simp
  have lt: "digits_value B D < B ^ length (canon D)"
    using digits_value_bound [OF canon_digits [OF assms(1)]] v by simp
  have ne: "canon D \<noteq> []" using v assms(2,3) by (cases "canon D") auto
  then have "last (canon D) \<noteq> 0" using canon_last by blast
  then have "1 \<le> digits_value B D div B ^ (length (canon D) - 1)"
    using digits_value_top [OF canon_digits [OF assms(1)] ne] v by simp
  then have ge: "B ^ (length (canon D) - 1) \<le> digits_value B D"
    using assms(2) by (metis One_nat_def Suc_le_eq div_less not_less_iff_gr_or_eq not_le)
  have "B ^ n < B ^ length (canon D)" using assms(3) lt by (rule le_less_trans)
  then have "n < length (canon D)" using assms(2) by simp
  moreover have "B ^ (length (canon D) - 1) < B ^ Suc n" using ge assms(4) by (rule le_less_trans)
  then have "length (canon D) - 1 < Suc n" using assms(2) power_strict_increasing_iff by blast
  ultimately show ?thesis by simp
qed

lemma encode_first_char:
  assumes "vch \<noteq> []" "hd vch \<noteq> 0"
    and "N = digits_value 256 (map unat (rev vch))" "58 ^ n \<le> N" "N < 58 ^ Suc n"
  shows "EncodeBase58 vch \<noteq> [] \<and> hd (EncodeBase58 vch) = pszBase58 ! (N div 58 ^ n)"
proof -
  have z: "takeWhile (\<lambda>b. b = 0) vch = []" "dropWhile (\<lambda>b. b = 0) vch = vch"
    using assms(1,2) by (cases vch; simp)+
  obtain D where D: "EncodeBase58_run vch = Ret (map (\<lambda>d. pszBase58 ! d) (rev (canon D)))"
    "list_all (\<lambda>d. d < 58) D" "digits_value 58 D = N"
    using encode_run [of vch] assms(3) unfolding z by (metis append_Nil list.size(3) replicate_0)
  have len: "length (canon D) = Suc n"
    using D assms(4,5) by (intro canon_length [of 58]) simp_all
  then have ne: "canon D \<noteq> []" by auto
  have "last (canon D) = N div 58 ^ n"
    using digits_value_top [OF canon_digits [OF D(2)] ne] len D(3) by simp
  then show ?thesis using ne by (simp add: EncodeBase58_def D(1) hd_map hd_rev)
qed

lemma digits_value_le_value: "digits_value 256 (map unat bs) = le_value bs"
  by (induction bs) simp_all

lemma main_address_range:
  assumes "length bs = 24"
  shows "45 * 256 ^ 24 \<le> digits_value 256 (map unat (rev ((45 :: byte) # bs))) \<and>
    digits_value 256 (map unat (rev ((45 :: byte) # bs))) < 46 * 256 ^ 24"
proof -
  have "le_value (rev bs) < 256 ^ 24" using le_value_bound [of "rev bs"] assms by simp
  then show ?thesis
    using assms by (simp add: digits_value_append flip: rev_map) (simp add: rev_map digits_value_le_value)
qed

lemma main_address_hd: "\<exists>rest. address_string Hash main_prefixes (CKeyID h) = CHR ''K'' # rest"
proof -
  define bs where "bs = uint160_bytes h @ take 4 (blob_bytes (Hash (45 # uint160_bytes h)))"
  define N where "N = digits_value 256 (map unat (rev ((45 :: byte) # bs)))"
  have "length bs = 24" by (simp add: bs_def blob_bytes_def del: le_write.simps)
  then have N: "45 * 256 ^ 24 \<le> N" "N < 46 * 256 ^ 24"
    using main_address_range unfolding N_def by blast+
  have top: "58 ^ 33 \<le> N" "N < 58 ^ Suc 33" using N by simp_all
  have "N div 58 ^ 33 = 18"
    using N by (intro div_nat_eqI) simp_all
  moreover have "pszBase58 ! 18 = CHR ''K''" by code_simp
  ultimately have "EncodeBase58 (45 # bs) \<noteq> [] \<and> hd (EncodeBase58 (45 # bs)) = CHR ''K''"
    using encode_first_char [OF _ _ N_def top] by simp
  then have "\<exists>rest. EncodeBase58 (45 # bs) = CHR ''K'' # rest" by (metis list.collapse)
  then show ?thesis
    by (simp add: address_string_def Base58_ToString_def EncodeBase58Check_def main_prefixes_def bs_def)
qed

text \<open>
  C19. Base58 coding is total and loses nothing. The buffers that \<^verbatim>\<open>EncodeBase58\<close> and
  \<^verbatim>\<open>DecodeBase58\<close> allocate with the rounded constants 138/100 and 733/1000 are large enough for
  every input, so neither \<^verbatim>\<open>assert(carry == 0)\<close> can fail, not even on a text chosen by a peer.
  Decoding the text of a byte string gives the byte string back, leading zero bytes included, and
  the same holds with the four checksum bytes, whatever the hash function.
\<close>

theorem base58_total_roundtrip:
  "EncodeBase58_run vch \<noteq> AssertFail \<and> DecodeBase58_run str \<noteq> AssertFail \<and>
   DecodeBase58 (EncodeBase58 vch) = Some vch \<and>
   DecodeBase58Check Hash (EncodeBase58Check Hash vch) = Some vch"
  by (simp add: EncodeBase58_total DecodeBase58_total DecodeBase58_Encode DecodeBase58Check_Encode)


end
