(* ===== verification/Kubu_Script.thy ===== *)
theory Kubu_Script
  imports Kubu_Base58
begin

text \<open>
  Standard scripts: \<^verbatim>\<open>src/src/script/standard.cpp\<close>, the script predicates of
  \<^verbatim>\<open>src/src/script/script.cpp\<close> and the public key wrapper of \<^verbatim>\<open>src/src/pubkey.h\<close>. The hash functions
  and the elliptic curve check of the cryptographic library are arguments.
\<close>

subsection \<open>Public keys\<close>

definition PUBKEY_SIZE :: nat where "PUBKEY_SIZE = 65"
definition COMPRESSED_SIZE :: nat where "COMPRESSED_SIZE = 33"

definition GetLen :: "byte \<Rightarrow> nat" where
  "GetLen chHeader =
     (if chHeader = 2 \<or> chHeader = 3 then COMPRESSED_SIZE
      else if chHeader = 4 \<or> chHeader = 6 \<or> chHeader = 7 then PUBKEY_SIZE
      else 0)"

text \<open>A \<^verbatim>\<open>CPubKey\<close> is the list of its \<^verbatim>\<open>size()\<close> bytes; the invalid key has none.\<close>

definition CPubKey :: "byte list \<Rightarrow> byte list" where
  "CPubKey vch =
     (let len = (if vch = [] then 0 else GetLen (hd vch)) in
      if len \<noteq> 0 \<and> len = length vch then vch else [])"

definition PubKey_IsValid :: "byte list \<Rightarrow> bool" where
  "PubKey_IsValid pk \<longleftrightarrow> length pk > 0"

definition PubKey_IsCompressed :: "byte list \<Rightarrow> bool" where
  "PubKey_IsCompressed pk \<longleftrightarrow> length pk = 33"

definition PubKey_IsFullyValid :: "(byte list \<Rightarrow> bool) \<Rightarrow> byte list \<Rightarrow> bool" where
  "PubKey_IsFullyValid ec_pubkey_parse pk \<longleftrightarrow> PubKey_IsValid pk \<and> ec_pubkey_parse pk"

definition PubKey_GetID :: "(byte list \<Rightarrow> uint160) \<Rightarrow> byte list \<Rightarrow> uint160" where
  "PubKey_GetID Hash160 pk = Hash160 pk"

subsection \<open>Opcodes of templates\<close>

definition OP_1 :: nat where "OP_1 = 81"
definition OP_16 :: nat where "OP_16 = 96"
definition OP_CHECKMULTISIG :: nat where "OP_CHECKMULTISIG = 174"
definition OP_SMALLINTEGER :: nat where "OP_SMALLINTEGER = 250"
definition OP_PUBKEYS :: nat where "OP_PUBKEYS = 251"
definition OP_PUBKEYHASH :: nat where "OP_PUBKEYHASH = 253"
definition OP_PUBKEY :: nat where "OP_PUBKEY = 254"
definition OP_INVALIDOPCODE :: nat where "OP_INVALIDOPCODE = 255"

lemmas template_defs = OP_1_def OP_16_def OP_CHECKMULTISIG_def OP_SMALLINTEGER_def OP_PUBKEYS_def
  OP_PUBKEYHASH_def OP_PUBKEY_def OP_INVALIDOPCODE_def

definition DecodeOP_N :: "nat \<Rightarrow> nat" where
  "DecodeOP_N opcode = (if opcode = OP_0 then 0 else opcode - (OP_1 - 1))"

definition EncodeOP_N :: "nat \<Rightarrow> nat" where
  "EncodeOP_N n = (if n = 0 then OP_0 else OP_1 + n - 1)"

subsection \<open>Script predicates\<close>

definition IsPayToScriptHash :: "CScript \<Rightarrow> bool" where
  "IsPayToScriptHash s \<longleftrightarrow> length s = 23 \<and> s ! 0 = byte OP_HASH160 \<and> s ! 1 = 20 \<and>
     s ! 22 = byte OP_EQUAL"

definition IsPayToWitnessScriptHash :: "CScript \<Rightarrow> bool" where
  "IsPayToWitnessScriptHash s \<longleftrightarrow> length s = 34 \<and> s ! 0 = byte OP_0 \<and> s ! 1 = 32"

definition IsWitnessProgram :: "CScript \<Rightarrow> (nat \<times> byte list) option" where
  "IsWitnessProgram s =
     (if length s < 4 \<or> length s > 42 then None
      else if unat (s ! 0) \<noteq> OP_0 \<and> (unat (s ! 0) < OP_1 \<or> unat (s ! 0) > OP_16) then None
      else if unat (s ! 1) + 2 = length s then Some (DecodeOP_N (unat (s ! 0)), drop 2 s)
      else None)"

function IsPushOnly :: "CScript \<Rightarrow> bool" where
  "IsPushOnly pc =
     (if pc = [] then True
      else case GetOp2 pc of
          None \<Rightarrow> False
        | Some (opcode, _, pc') \<Rightarrow> if opcode > OP_16 then False else IsPushOnly pc')"
  by auto
termination by (relation "measure length") (auto dest: GetOp2_shortens)

declare IsPushOnly.simps [simp del]

subsection \<open>Templates\<close>

datatype txnouttype = TX_NONSTANDARD | TX_PUBKEY | TX_PUBKEYHASH | TX_SCRIPTHASH | TX_MULTISIG
  | TX_NULL_DATA | TX_WITNESS_V0_SCRIPTHASH | TX_WITNESS_V0_KEYHASH

fun GetTxnOutputType :: "txnouttype \<Rightarrow> string" where
  "GetTxnOutputType TX_NONSTANDARD = ''nonstandard''"
| "GetTxnOutputType TX_PUBKEY = ''pubkey''"
| "GetTxnOutputType TX_PUBKEYHASH = ''pubkeyhash''"
| "GetTxnOutputType TX_SCRIPTHASH = ''scripthash''"
| "GetTxnOutputType TX_MULTISIG = ''multisig''"
| "GetTxnOutputType TX_NULL_DATA = ''nulldata''"
| "GetTxnOutputType TX_WITNESS_V0_KEYHASH = ''witness_v0_keyhash''"
| "GetTxnOutputType TX_WITNESS_V0_SCRIPTHASH = ''witness_v0_scripthash''"

definition opcodes :: "nat list \<Rightarrow> CScript" where
  "opcodes ops = foldl push_opcode [] ops"

text \<open>The templates in the order of the keys of the \<^verbatim>\<open>multimap\<close>.\<close>

definition mTemplates :: "(txnouttype \<times> CScript) list" where
  "mTemplates =
     [(TX_PUBKEY, opcodes [OP_PUBKEY, OP_CHECKSIG]),
      (TX_PUBKEYHASH, opcodes [OP_DUP, OP_HASH160, OP_PUBKEYHASH, OP_EQUALVERIFY, OP_CHECKSIG]),
      (TX_MULTISIG, opcodes [OP_SMALLINTEGER, OP_PUBKEYS, OP_SMALLINTEGER, OP_CHECKMULTISIG])]"

text \<open>
  The inner loop for \<^verbatim>\<open>OP_PUBKEYS\<close>: current opcode and data, position, solutions. A failing
  \<^verbatim>\<open>GetOp\<close> leaves the invalid opcode and no data.
\<close>

function take_pubkeys ::
  "nat \<Rightarrow> byte list \<Rightarrow> CScript \<Rightarrow> byte list list \<Rightarrow> nat \<times> byte list \<times> CScript \<times> byte list list" where
  "take_pubkeys opcode1 vch1 pc1 sols =
     (if 33 \<le> length vch1 \<and> length vch1 \<le> 65 then
        (case GetOp2 pc1 of
           None \<Rightarrow> (OP_INVALIDOPCODE, [], pc1, sols @ [vch1])
         | Some (opcode1, vch1', pc1') \<Rightarrow> take_pubkeys opcode1 vch1' pc1' (sols @ [vch1]))
      else (opcode1, vch1, pc1, sols))"
  by auto
termination
  by (relation "measure (\<lambda>(_, _, pc, _). length pc)") (auto dest: GetOp2_shortens)

declare take_pubkeys.simps [simp del]

text \<open>One comparison of an operation of the script with one of the template.\<close>

definition match_op ::
  "nat \<Rightarrow> byte list \<Rightarrow> nat \<Rightarrow> byte list \<Rightarrow> byte list list \<Rightarrow> byte list list option" where
  "match_op opcode1 vch1 opcode2 vch2 sols =
     (if opcode2 = OP_PUBKEY then
        (if length vch1 < 33 \<or> length vch1 > 65 then None else Some (sols @ [vch1]))
      else if opcode2 = OP_PUBKEYHASH then
        (if length vch1 \<noteq> 20 then None else Some (sols @ [vch1]))
      else if opcode2 = OP_SMALLINTEGER then
        (if opcode1 = OP_0 \<or> opcode1 \<ge> OP_1 \<and> opcode1 \<le> OP_16
         then Some (sols @ [[byte (DecodeOP_N opcode1)]]) else None)
      else if opcode1 \<noteq> opcode2 \<or> vch1 \<noteq> vch2 then None
      else Some sols)"

function match_template :: "CScript \<Rightarrow> CScript \<Rightarrow> byte list list \<Rightarrow> byte list list option" where
  "match_template pc1 pc2 sols =
     (if pc1 = [] \<and> pc2 = [] then Some sols
      else case GetOp2 pc1 of
        None \<Rightarrow> None
      | Some (opcode1, vch1, pc1) \<Rightarrow>
          (case GetOp2 pc2 of
             None \<Rightarrow> None
           | Some (opcode2, vch2, pc2) \<Rightarrow>
               if opcode2 = OP_PUBKEYS then
                 (case take_pubkeys opcode1 vch1 pc1 sols of (opcode1, vch1, pc1, sols) \<Rightarrow>
                   case GetOp2 pc2 of
                     None \<Rightarrow> None
                   | Some (opcode2, vch2, pc2) \<Rightarrow>
                       (case match_op opcode1 vch1 opcode2 vch2 sols of
                          None \<Rightarrow> None
                        | Some sols \<Rightarrow> match_template pc1 pc2 sols))
               else
                 (case match_op opcode1 vch1 opcode2 vch2 sols of
                    None \<Rightarrow> None
                  | Some sols \<Rightarrow> match_template pc1 pc2 sols)))"
  by auto
termination
  by (relation "measure (\<lambda>(_, pc2, _). length pc2)")
    (auto dest!: GetOp2_shortens)

declare match_template.simps [simp del]

definition multisig_ok :: "byte list list \<Rightarrow> bool" where
  "multisig_ok sols =
     (let m = unat (hd (hd sols)); n = unat (hd (last sols)) in
      \<not> (m < 1 \<or> n < 1 \<or> m > n \<or> length sols - 2 \<noteq> n))"

fun scan_templates ::
  "CScript \<Rightarrow> (txnouttype \<times> CScript) list \<Rightarrow> (txnouttype \<times> byte list list) option" where
  "scan_templates script [] = None"
| "scan_templates script ((t, tplate) # ts) =
     (case match_template script tplate [] of
        None \<Rightarrow> scan_templates script ts
      | Some sols \<Rightarrow>
          if t = TX_MULTISIG \<and> \<not> multisig_ok sols then None else Some (t, sols))"

text \<open>\<^const>\<open>None\<close> is the result \<^verbatim>\<open>false\<close>, whose out-parameters no caller in the model reads.\<close>

definition Solver :: "CScript \<Rightarrow> (txnouttype \<times> byte list list) option" where
  "Solver script =
     (if IsPayToScriptHash script then Some (TX_SCRIPTHASH, [take 20 (drop 2 script)])
      else case IsWitnessProgram script of
          Some (version, program) \<Rightarrow>
            (if version = 0 \<and> length program = 20 then Some (TX_WITNESS_V0_KEYHASH, [program])
             else if version = 0 \<and> length program = 32 then Some (TX_WITNESS_V0_SCRIPTHASH, [program])
             else None)
        | None \<Rightarrow>
            if length script \<ge> 1 \<and> script ! 0 = byte OP_RETURN \<and> IsPushOnly (drop 1 script)
            then Some (TX_NULL_DATA, [])
            else scan_templates script mTemplates)"

definition ExtractDestination :: "(byte list \<Rightarrow> uint160) \<Rightarrow> CScript \<Rightarrow> CTxDestination option" where
  "ExtractDestination Hash160 script =
     (case Solver script of
        None \<Rightarrow> None
      | Some (whichType, vSolutions) \<Rightarrow>
          if whichType = TX_PUBKEY then
            (let pubKey = CPubKey (vSolutions ! 0) in
             if \<not> PubKey_IsValid pubKey then None
             else Some (CKeyID (PubKey_GetID Hash160 pubKey)))
          else if whichType = TX_PUBKEYHASH then Some (CKeyID (uint160_of (vSolutions ! 0)))
          else if whichType = TX_SCRIPTHASH then Some (CScriptID (uint160_of (vSolutions ! 0)))
          else None)"

subsection \<open>Scripts of destinations\<close>

fun GetScriptForDestination :: "CTxDestination \<Rightarrow> CScript" where
  "GetScriptForDestination CNoDestination = []"
| "GetScriptForDestination (CKeyID keyID) =
     push_opcode (push_opcode (push_data (push_opcode (push_opcode [] OP_DUP) OP_HASH160)
       (uint160_bytes keyID)) OP_EQUALVERIFY) OP_CHECKSIG"
| "GetScriptForDestination (CScriptID scriptID) =
     push_opcode (push_data (push_opcode [] OP_HASH160) (uint160_bytes scriptID)) OP_EQUAL"

definition GetScriptForRawPubKey :: "byte list \<Rightarrow> CScript" where
  "GetScriptForRawPubKey pubKey = push_opcode (push_data [] pubKey) OP_CHECKSIG"

definition GetScriptForMultisig :: "nat \<Rightarrow> byte list list \<Rightarrow> CScript" where
  "GetScriptForMultisig nRequired keys =
     push_opcode (push_opcode (foldl push_data (push_opcode [] (EncodeOP_N nRequired)) keys)
       (EncodeOP_N (length keys))) OP_CHECKMULTISIG"

definition GetScriptForWitness ::
  "(byte list \<Rightarrow> uint160) \<Rightarrow> (byte list \<Rightarrow> uint256) \<Rightarrow> CScript \<Rightarrow> CScript" where
  "GetScriptForWitness Hash160 SHA256 redeemscript =
     (case Solver redeemscript of
        Some (TX_PUBKEY, vSolutions) \<Rightarrow>
          push_data (push_opcode [] OP_0) (uint160_bytes (Hash160 (vSolutions ! 0)))
      | Some (TX_PUBKEYHASH, vSolutions) \<Rightarrow> push_data (push_opcode [] OP_0) (vSolutions ! 0)
      | _ \<Rightarrow> push_data (push_opcode [] OP_0) (blob_bytes (SHA256 redeemscript)))"

subsection \<open>Running the matcher\<close>

lemma push_short:
  "length b < 76 \<Longrightarrow> push_data s b = s @ byte (length b) # b"
  by (simp add: push_data_def OP_PUSHDATA1_def)

lemma GetOp2_short:
  "length b < 76 \<Longrightarrow> GetOp2 (byte (length b) # b @ pc) = Some (length b, b, pc)"
  by (simp add: GetOp2_def opcode_defs Let_def)

lemma GetOp2_Nil [simp]: "GetOp2 [] = None"
  by (simp add: GetOp2_def)

lemma GetOp2_plain:
  "78 < n \<Longrightarrow> n < 256 \<Longrightarrow> GetOp2 (byte n # pc) = Some (n, [], pc)"
  by (rule GetOp2_opcode) (simp_all add: OP_PUSHDATA4_def)

lemma match_end [simp]: "match_template [] [] sols = Some sols"
  by (subst match_template.simps) simp

lemma match_step:
  assumes "GetOp2 pc1 = Some (o1, v1, p1)" "GetOp2 pc2 = Some (o2, v2, p2)" "o2 \<noteq> OP_PUBKEYS"
  shows "match_template pc1 pc2 sols =
    (case match_op o1 v1 o2 v2 sols of None \<Rightarrow> None | Some sols \<Rightarrow> match_template p1 p2 sols)"
  using assms by (subst match_template.simps) (auto split: option.splits)

lemma match_step_pubkeys:
  assumes "GetOp2 pc1 = Some (o1, v1, p1)" "GetOp2 pc2 = Some (OP_PUBKEYS, v2, p2)"
    and "take_pubkeys o1 v1 p1 sols = (o1', v1', p1', sols')" "GetOp2 p2 = Some (o2, w2, p2')"
  shows "match_template pc1 pc2 sols =
    (case match_op o1' v1' o2 w2 sols' of None \<Rightarrow> None | Some sols \<Rightarrow> match_template p1' p2' sols)"
  using assms by (subst match_template.simps) (auto split: option.splits)

lemma mTemplates_bytes:
  "mTemplates =
     [(TX_PUBKEY, [byte 254, byte 172]),
      (TX_PUBKEYHASH, [byte 118, byte 169, byte 253, byte 136, byte 172]),
      (TX_MULTISIG, [byte 250, byte 251, byte 250, byte 174])]"
  by (simp add: mTemplates_def opcodes_def push_opcode_def opcode_defs template_defs)

lemmas match_simps = match_step GetOp2_plain GetOp2_short match_op_def opcode_defs template_defs

lemma Solver_scan:
  assumes "script \<noteq> []" "hd script = byte n" "n < 256" "n \<noteq> 169" "n \<noteq> 106"
    and "n \<noteq> 0" "n < 81 \<or> 96 < n"
  shows "Solver script = scan_templates script mTemplates"
proof -
  obtain r where s: "script = byte n # r" using assms(1,2) by (cases script) auto
  have ne: "byte n \<noteq> byte k" if "k < 256" "n \<noteq> k" for k
    using assms(3) that by (metis mod_less unat_byte)
  have "\<not> IsPayToScriptHash script"
    using ne assms(4) by (simp add: s IsPayToScriptHash_def OP_HASH160_def)
  moreover have "IsWitnessProgram script = None"
    using assms(3,6,7) by (auto simp: s IsWitnessProgram_def OP_0_def OP_1_def OP_16_def)
  ultimately show ?thesis
    using ne assms(5) by (simp add: Solver_def s OP_RETURN_def)
qed

subsection \<open>Every constructor is recognised\<close>

lemma Solver_P2PK:
  assumes "33 \<le> length pk" "length pk \<le> 65"
  shows "Solver (GetScriptForRawPubKey pk) = Some (TX_PUBKEY, [pk])"
proof -
  have s: "GetScriptForRawPubKey pk = byte (length pk) # pk @ [byte 172]"
    using assms by (simp add: GetScriptForRawPubKey_def push_short push_opcode_def OP_CHECKSIG_def)
  have "Solver (GetScriptForRawPubKey pk) = scan_templates (GetScriptForRawPubKey pk) mTemplates"
    using assms by (intro Solver_scan [of _ "length pk"]) (auto simp: s)
  also have "\<dots> = Some (TX_PUBKEY, [pk])"
    using assms by (simp add: s mTemplates_bytes match_simps)
  finally show ?thesis .
qed

lemma P2PKH_bytes:
  "GetScriptForDestination (CKeyID h) =
   byte 118 # byte 169 # byte 20 # uint160_bytes h @ [byte 136, byte 172]"
  by (simp add: push_short push_opcode_def opcode_defs)

lemma P2SH_bytes:
  "GetScriptForDestination (CScriptID h) = byte 169 # byte 20 # uint160_bytes h @ [byte 135]"
  by (simp add: push_short push_opcode_def opcode_defs)

lemma Solver_P2PKH: "Solver (GetScriptForDestination (CKeyID h)) = Some (TX_PUBKEYHASH, [uint160_bytes h])"
proof -
  have g: "GetOp2 (byte 20 # uint160_bytes h @ pc) = Some (20, uint160_bytes h, pc)" for pc
    using GetOp2_short [of "uint160_bytes h"] by simp
  have "Solver (GetScriptForDestination (CKeyID h)) =
      scan_templates (GetScriptForDestination (CKeyID h)) mTemplates"
    unfolding P2PKH_bytes by (intro Solver_scan [of _ 118]) simp_all
  also have "\<dots> = Some (TX_PUBKEYHASH, [uint160_bytes h])"
    unfolding P2PKH_bytes by (simp add: mTemplates_bytes match_simps g)
  finally show ?thesis .
qed

lemma Solver_P2SH: "Solver (GetScriptForDestination (CScriptID h)) = Some (TX_SCRIPTHASH, [uint160_bytes h])"
proof -
  have "(uint160_bytes h @ [byte 135]) ! 20 = byte 135" by (simp add: nth_append)
  then have "IsPayToScriptHash (GetScriptForDestination (CScriptID h))"
    unfolding P2SH_bytes by (simp add: IsPayToScriptHash_def opcode_defs byte_def)
  then show ?thesis unfolding P2SH_bytes by (simp add: Solver_def)
qed

lemma Solver_witness:
  assumes "length program = 20 \<or> length program = 32"
  shows "Solver (push_data (push_opcode [] OP_0) program) =
    Some (if length program = 20 then TX_WITNESS_V0_KEYHASH else TX_WITNESS_V0_SCRIPTHASH, [program])"
  using assms
  by (auto simp: push_short push_opcode_def Solver_def IsPayToScriptHash_def IsWitnessProgram_def
      opcode_defs template_defs DecodeOP_N_def byte_def)

lemma Solver_nulldata:
  assumes "length payload < 2 ^ 32"
  shows "Solver (push_data (push_opcode [] OP_RETURN) payload) = Some (TX_NULL_DATA, [])"
proof -
  obtain opcode where g: "GetOp2 (push_data [] payload) = Some (opcode, payload, [])" "opcode \<le> OP_PUSHDATA4"
    using GetOp2_push [OF assms, of "[]"] by auto
  have e: "IsPushOnly []" by (subst IsPushOnly.simps) simp
  have "IsPushOnly (push_data [] payload)"
    using g by (subst IsPushOnly.simps) (simp add: e opcode_defs template_defs)
  moreover have s: "push_data (push_opcode [] OP_RETURN) payload = byte 106 # push_data [] payload"
    by (subst push_data_append) (simp add: push_opcode_def OP_RETURN_def)
  ultimately show ?thesis
    unfolding s by (simp add: Solver_def IsPayToScriptHash_def IsWitnessProgram_def byte_def opcode_defs template_defs)
qed

definition key_sized :: "byte list \<Rightarrow> bool" where
  "key_sized k \<longleftrightarrow> 33 \<le> length k \<and> length k \<le> 65"

lemma pushed_keys:
  assumes "list_all key_sized keys"
  shows "foldl push_data s keys = s @ concat (map (\<lambda>k. byte (length k) # k) keys)"
  using assms by (induction keys arbitrary: s) (auto simp: push_short key_sized_def)

lemma take_pubkeys_keys:
  assumes "list_all key_sized (k # keys)" "80 < n" "n < 97"
  shows "take_pubkeys (length k) k (concat (map (\<lambda>k. byte (length k) # k) keys) @ byte n # r) sols =
    (n, [], r, sols @ k # keys)"
  using assms
proof (induction keys arbitrary: k sols)
  case Nil
  have "GetOp2 (byte n # r) = Some (n, [], r)" using Nil by (intro GetOp2_plain) auto
  moreover have "take_pubkeys n [] r s = (n, [], r, s)" for s by (subst take_pubkeys.simps) simp
  ultimately show ?case using Nil by (subst take_pubkeys.simps) (simp add: key_sized_def)
next
  case (Cons k' keys)
  have "GetOp2 (byte (length k') # k' @ concat (map (\<lambda>k. byte (length k) # k) keys) @ byte n # r) =
      Some (length k', k', concat (map (\<lambda>k. byte (length k) # k) keys) @ byte n # r)"
    using Cons.prems by (intro GetOp2_short) (simp add: key_sized_def)
  then show ?case using Cons by (subst take_pubkeys.simps) (simp add: key_sized_def)
qed

lemma multisig_bytes:
  assumes "list_all key_sized keys" "1 \<le> m" "m \<le> length keys" "length keys \<le> 16"
  shows "GetScriptForMultisig m keys =
    byte (80 + m) # concat (map (\<lambda>k. byte (length k) # k) keys) @ [byte (80 + length keys), byte 174]"
  using assms
  by (auto simp: GetScriptForMultisig_def pushed_keys push_opcode_def EncodeOP_N_def opcode_defs template_defs)

lemma keys_length: "list_all key_sized keys \<Longrightarrow> 34 * length keys \<le> length (concat (map (\<lambda>k. byte (length k) # k) keys))"
  by (induction keys) (auto simp: key_sized_def)

lemma multisig_no_witness:
  assumes "list_all key_sized keys" "1 \<le> m" "m \<le> length keys" "length keys \<le> 16"
  shows "IsWitnessProgram (GetScriptForMultisig m keys) = None"
proof (cases "length keys = 1")
  case True
  then obtain k where k: "keys = [k]" by (cases keys) auto
  then show ?thesis
    using assms unfolding multisig_bytes [OF assms] by (auto simp: IsWitnessProgram_def key_sized_def)
next
  case False
  then have "68 \<le> length (concat (map (\<lambda>k. byte (length k) # k) keys))"
    using keys_length [OF assms(1)] assms(2,3) by linarith
  then show ?thesis
    unfolding multisig_bytes [OF assms] IsWitnessProgram_def by (simp del: length_concat)
qed

lemma Solver_multisig:
  assumes "list_all key_sized keys" "1 \<le> m" "m \<le> length keys" "length keys \<le> 16"
  shows "Solver (GetScriptForMultisig m keys) =
    Some (TX_MULTISIG, [byte m] # keys @ [[byte (length keys)]])"
proof -
  let ?n = "length keys" and ?K = "\<lambda>ks. concat (map (\<lambda>k. byte (length k) # k) ks)"
  obtain k ks where ks: "keys = k # ks" using assms(2,3) by (cases keys) auto
  have g1: "GetOp2 (byte (80 + m) # p) = Some (80 + m, [], p)" for p
    using assms by (intro GetOp2_plain) auto
  have g2: "GetOp2 (byte (length k) # k @ p) = Some (length k, k, p)" for p
    using assms(1) ks by (intro GetOp2_short) (simp add: key_sized_def)
  have t: "take_pubkeys (length k) k (?K ks @ [byte (80 + ?n), byte 174]) [[byte m]] =
      (80 + ?n, [], [byte 174], [byte m] # keys)"
    using take_pubkeys_keys [of k ks "80 + ?n" "[byte 174]" "[[byte m]]"] assms ks by simp
  have g251: "GetOp2 [byte 251, byte 250, byte 174] = Some (OP_PUBKEYS, [], [byte 250, byte 174])"
    and g250: "GetOp2 [byte 250, byte 174] = Some (250, [], [byte 174])"
    by (simp_all add: GetOp2_plain OP_PUBKEYS_def)
  have mm: "match_template (?K keys @ [byte (80 + ?n), byte 174]) [byte 251, byte 250, byte 174] [[byte m]] =
      Some ([byte m] # keys @ [[byte ?n]])"
  proof -
    have "match_template (byte (length k) # k @ ?K ks @ [byte (80 + ?n), byte 174])
        [byte 251, byte 250, byte 174] [[byte m]] =
      (case match_op (80 + ?n) [] 250 [] ([byte m] # keys) of None \<Rightarrow> None
       | Some sols \<Rightarrow> match_template [byte 174] [byte 174] sols)"
      by (rule match_step_pubkeys [OF g2 g251 t g250])
    also have "\<dots> = Some ([byte m] # keys @ [[byte ?n]])"
      using assms by (simp add: match_simps DecodeOP_N_def)
    finally show ?thesis unfolding ks by simp
  qed
  have "match_template (GetScriptForMultisig m keys) [byte 250, byte 251, byte 250, byte 174] [] =
      Some ([byte m] # keys @ [[byte ?n]])"
    unfolding multisig_bytes [OF assms]
    by (subst match_step [OF g1 GetOp2_plain [of 250]])
      (use assms mm in \<open>auto simp: match_op_def opcode_defs template_defs DecodeOP_N_def\<close>)
  moreover have "match_template (GetScriptForMultisig m keys) [byte 254, byte 172] [] = None"
    "match_template (GetScriptForMultisig m keys) [byte 118, byte 169, byte 253, byte 136, byte 172] [] = None"
    unfolding multisig_bytes [OF assms]
    by (subst match_step [OF g1 GetOp2_plain]; use assms in \<open>simp add: match_op_def opcode_defs template_defs\<close>)+
  moreover have "multisig_ok ([byte m] # keys @ [[byte ?n]])"
    using assms ks by (simp add: multisig_ok_def)
  moreover have "GetScriptForMultisig m keys ! 0 \<noteq> byte OP_RETURN"
    "GetScriptForMultisig m keys ! 0 \<noteq> byte OP_HASH160"
    unfolding multisig_bytes [OF assms] nth_Cons_0 using assms(3,4)
    by (auto simp: opcode_defs dest!: arg_cong [of _ _ unat])
  ultimately show ?thesis
    using multisig_no_witness [OF assms] assms
    by (simp add: Solver_def mTemplates_bytes IsPayToScriptHash_def)
qed

lemma ExtractDestination_script:
  "d \<noteq> CNoDestination \<Longrightarrow> ExtractDestination Hash160 (GetScriptForDestination d) = Some d"
  by (cases d) (simp_all add: ExtractDestination_def Solver_P2PKH Solver_P2SH del: GetScriptForDestination.simps)

lemma CPubKey_compressed:
  "length pk = COMPRESSED_SIZE \<Longrightarrow> hd pk = 2 \<or> hd pk = 3 \<Longrightarrow> CPubKey pk = pk"
  by (auto simp: CPubKey_def GetLen_def COMPRESSED_SIZE_def)

lemma CPubKey_cases: "CPubKey pk = pk \<and> (length pk = 33 \<or> length pk = 65) \<or> CPubKey pk = []"
  by (auto simp: CPubKey_def GetLen_def COMPRESSED_SIZE_def PUBKEY_SIZE_def Let_def)

lemma GetScriptForWitness_P2PKH:
  "GetScriptForWitness Hash160 SHA256 (GetScriptForDestination (CKeyID h)) =
   push_data (push_opcode [] OP_0) (uint160_bytes h)"
  by (simp add: GetScriptForWitness_def Solver_P2PKH del: GetScriptForDestination.simps)

text \<open>
  The solver recognises every script the wallet constructs, with the data that was put in:
  keys, key hashes, script hashes, m-of-n multisignature scripts, version 0 witness programs and
  data outputs; and the destination of a destination's script is that destination.
\<close>

theorem standard_scripts_recognised:
  assumes "key_sized pk" and "list_all key_sized keys" and "1 \<le> m" "m \<le> length keys" "length keys \<le> 16"
    and "length payload < 2 ^ 32"
  shows "Solver (GetScriptForRawPubKey pk) = Some (TX_PUBKEY, [pk]) \<and>
    Solver (GetScriptForDestination (CKeyID h)) = Some (TX_PUBKEYHASH, [uint160_bytes h]) \<and>
    Solver (GetScriptForDestination (CScriptID h)) = Some (TX_SCRIPTHASH, [uint160_bytes h]) \<and>
    Solver (GetScriptForMultisig m keys) = Some (TX_MULTISIG, [byte m] # keys @ [[byte (length keys)]]) \<and>
    Solver (push_data (push_opcode [] OP_0) (uint160_bytes h)) = Some (TX_WITNESS_V0_KEYHASH, [uint160_bytes h]) \<and>
    Solver (push_data (push_opcode [] OP_RETURN) payload) = Some (TX_NULL_DATA, []) \<and>
    ExtractDestination Hash160 (GetScriptForDestination (CKeyID h)) = Some (CKeyID h) \<and>
    ExtractDestination Hash160 (GetScriptForDestination (CScriptID h)) = Some (CScriptID h)"
  using assms Solver_witness [of "uint160_bytes h"]
  by (simp add: Solver_P2PK Solver_P2PKH Solver_P2SH Solver_multisig Solver_nulldata
      ExtractDestination_script key_sized_def del: GetScriptForDestination.simps)

theorem standard_scripts_recognised_witness:
  "Solver (GetScriptForMultisig 1 [replicate 33 2, replicate 33 3]) =
     Some (TX_MULTISIG, [[1], replicate 33 2, replicate 33 3, [2]])"
  using standard_scripts_recognised [of "replicate 33 2" "[replicate 33 2, replicate 33 3]" 1 "[]"]
  by (simp add: key_sized_def byte_def)

end
