(* ===== verification/NicknameOp.thy ===== *)
theory NicknameOp
  imports Nicknames Kubu_Script
begin

text \<open>
  Nickname operations: \<^verbatim>\<open>src/src/nicknameop.h\<close> and \<^verbatim>\<open>src/src/nicknameop.cpp\<close>. An operation travels
  in an \<^verbatim>\<open>OP_RETURN\<close> output whose pushed bytes are a magic number, the type, the name and the
  fields of the type. The hash function of Base58Check and the address prefixes of the network are
  arguments. A \<^verbatim>\<open>reason\<close> pointer is modelled as pointing to an empty string, which is what every
  caller passes.
\<close>

datatype NicknameOpType =
  NONE | REGISTER | UPDATE | TRANSFER | RENEW | RELEASE | CLAIM_BOND | UNNAMED byte

text \<open>The enumeration has the underlying type \<^verbatim>\<open>uint8_t\<close>: a cast keeps bytes without a name.\<close>

fun op_type_byte :: "NicknameOpType \<Rightarrow> byte" where
  "op_type_byte NONE = 0"
| "op_type_byte REGISTER = 1"
| "op_type_byte UPDATE = 2"
| "op_type_byte TRANSFER = 3"
| "op_type_byte RENEW = 4"
| "op_type_byte RELEASE = 5"
| "op_type_byte CLAIM_BOND = 6"
| "op_type_byte (UNNAMED b) = b"

definition op_type_of_byte :: "byte \<Rightarrow> NicknameOpType" where
  "op_type_of_byte b =
     (if b = 0 then NONE else if b = 1 then REGISTER else if b = 2 then UPDATE
      else if b = 3 then TRANSFER else if b = 4 then RENEW else if b = 5 then RELEASE
      else if b = 6 then CLAIM_BOND else UNNAMED b)"

record NicknameOperation =
  op_type :: NicknameOpType
  op_nickname :: string
  ownerPubKey :: "byte list"
  payoutAddress :: string
  newOwnerPubKey :: "byte list"

definition empty_operation :: NicknameOperation where
  "empty_operation = \<lparr>op_type = NONE, op_nickname = [], ownerPubKey = [], payoutAddress = [],
     newOwnerPubKey = []\<rparr>"

definition KUBU_NICKNAME_MAGIC :: "byte list" where
  "KUBU_NICKNAME_MAGIC = map byte_of ''KNA1''"

definition DEST_PKH :: byte where "DEST_PKH = 1"
definition DEST_SH :: byte where "DEST_SH = 2"
definition MAX_OP_RETURN_RELAY :: nat where "MAX_OP_RETURN_RELAY = 83"

type_synonym hasher = "byte list \<Rightarrow> uint256"

definition EncodeDestinationBytes :: "hasher \<Rightarrow> Base58Prefixes \<Rightarrow> string \<Rightarrow> byte list result" where
  "EncodeDestinationBytes Hash P address =
     (let parsed = Address_of_string Hash address in
      if \<not> Address_IsValid P parsed then Inl ''invalid payout address''
      else case Address_Get P parsed of
          CKeyID keyID \<Rightarrow> Inr (DEST_PKH # uint160_bytes keyID)
        | CScriptID scriptID \<Rightarrow> Inr (DEST_SH # uint160_bytes scriptID)
        | CNoDestination \<Rightarrow> Inl ''unsupported payout destination type'')"

definition DecodeDestinationBytes :: "hasher \<Rightarrow> Base58Prefixes \<Rightarrow> byte list \<Rightarrow> string result" where
  "DecodeDestinationBytes Hash P encoded =
     (if length encoded \<noteq> 21 then Inl ''invalid compact destination payload''
      else let hash = uint160_of (drop 1 encoded) in
        if encoded ! 0 = DEST_PKH then
          Inr (Base58_ToString Hash (Address_of_dest P (CKeyID hash)))
        else if encoded ! 0 = DEST_SH then
          Inr (Base58_ToString Hash (Address_of_dest P (CScriptID hash)))
        else Inl ''unknown compact destination type'')"

definition ReadBytes :: "stream \<Rightarrow> nat \<Rightarrow> (byte list \<times> stream) result" where
  "ReadBytes ss maxSize =
     (case Unserialize_bytes ss of
        None \<Rightarrow> Inl ''failed to deserialize nickname operation field''
      | Some (tmp, ss) \<Rightarrow>
          if length tmp > maxSize then Inl ''nickname operation field exceeds limit''
          else Inr (tmp, ss))"

text \<open>The \<^verbatim>\<open>switch\<close> of \<^verbatim>\<open>BuildNicknameOpScript\<close> on the type of the operation.\<close>

definition payload_fields :: "NicknameOperation \<Rightarrow> byte list \<Rightarrow> byte list result" where
  "payload_fields operation payoutBytes =
     (case op_type operation of
        REGISTER \<Rightarrow> Inr (Serialize_bytes (ownerPubKey operation) @ Serialize_bytes payoutBytes)
      | UPDATE \<Rightarrow> Inr (Serialize_bytes payoutBytes)
      | TRANSFER \<Rightarrow> Inr (Serialize_bytes (newOwnerPubKey operation))
      | RENEW \<Rightarrow> Inr []
      | RELEASE \<Rightarrow> Inr []
      | CLAIM_BOND \<Rightarrow> Inr []
      | _ \<Rightarrow> Inl ''unknown nickname operation type'')"

definition BuildNicknameOpScript ::
  "hasher \<Rightarrow> Base58Prefixes \<Rightarrow> NicknameOperation \<Rightarrow> CScript result" where
  "BuildNicknameOpScript Hash P operation =
     (let normalized = NormalizeNickname (op_nickname operation) in
      rbind (IsValidNormalizedNickname normalized) (\<lambda>_.
      rbind (if op_type operation = REGISTER \<or> op_type operation = UPDATE
             then EncodeDestinationBytes Hash P (payoutAddress operation) else Inr [])
        (\<lambda>payoutBytes.
      rbind (require (\<not> (op_type operation = REGISTER \<and> length (ownerPubKey operation) \<noteq> COMPRESSED_SIZE \<or>
                        op_type operation = TRANSFER \<and> length (newOwnerPubKey operation) \<noteq> COMPRESSED_SIZE))
             ''nickname operations currently require compressed pubkeys'') (\<lambda>_.
      rbind (payload_fields operation payoutBytes) (\<lambda>fields.
        let payload = KUBU_NICKNAME_MAGIC @ [op_type_byte (op_type operation)] @
              Serialize_string normalized @ fields in
        if length payload > MAX_OP_RETURN_RELAY then
          Inl ''nickname operation exceeds current OP_RETURN relay limit''
        else Inr (push_data (push_opcode [] OP_RETURN) payload))))))"

text \<open>The \<^verbatim>\<open>switch\<close> of \<^verbatim>\<open>ExtractNicknameOperation\<close>; bytes after the last field are not looked at.\<close>

definition extract_fields ::
  "hasher \<Rightarrow> Base58Prefixes \<Rightarrow> NicknameOperation \<Rightarrow> stream \<Rightarrow> NicknameOperation result" where
  "extract_fields Hash P operation payload =
     (case op_type operation of
        REGISTER \<Rightarrow>
          rbind (ReadBytes payload COMPRESSED_SIZE) (\<lambda>(key, payload).
          rbind (require (length key = COMPRESSED_SIZE)
                 ''register operation requires compressed owner pubkey'') (\<lambda>_.
          rbind (ReadBytes payload 21) (\<lambda>(payoutBytes, payload).
          rbind (DecodeDestinationBytes Hash P payoutBytes) (\<lambda>address.
            Inr (operation\<lparr>ownerPubKey := key, payoutAddress := address\<rparr>)))))
      | UPDATE \<Rightarrow>
          rbind (ReadBytes payload 21) (\<lambda>(payoutBytes, payload).
          rbind (DecodeDestinationBytes Hash P payoutBytes) (\<lambda>address.
            Inr (operation\<lparr>payoutAddress := address\<rparr>)))
      | TRANSFER \<Rightarrow>
          rbind (ReadBytes payload COMPRESSED_SIZE) (\<lambda>(key, payload).
          rbind (require (length key = COMPRESSED_SIZE)
                 ''transfer operation requires compressed new owner pubkey'') (\<lambda>_.
            Inr (operation\<lparr>newOwnerPubKey := key\<rparr>)))
      | RENEW \<Rightarrow> Inr operation
      | RELEASE \<Rightarrow> Inr operation
      | CLAIM_BOND \<Rightarrow> Inr operation
      | _ \<Rightarrow> Inl ''unknown nickname operation type'')"

definition parse_payload :: "hasher \<Rightarrow> Base58Prefixes \<Rightarrow> stream \<Rightarrow> NicknameOperation result" where
  "parse_payload Hash P payload =
     (case stream_read (length KUBU_NICKNAME_MAGIC) payload of
        None \<Rightarrow> Inl ''nickname payload is truncated''
      | Some (magic, payload) \<Rightarrow>
          if magic \<noteq> KUBU_NICKNAME_MAGIC then Inl ''nickname payload magic mismatch''
          else case stream_read 1 payload of
              None \<Rightarrow> Inl ''nickname payload is malformed''
            | Some (opType, payload) \<Rightarrow>
                (case Unserialize_string payload of
                   None \<Rightarrow> Inl ''nickname payload is malformed''
                 | Some (name, payload) \<Rightarrow>
                     rbind (IsValidNormalizedNickname name) (\<lambda>_.
                       extract_fields Hash P
                         (empty_operation\<lparr>op_type := op_type_of_byte (hd opType), op_nickname := name\<rparr>)
                         payload)))"

definition ExtractNicknameOperation ::
  "hasher \<Rightarrow> Base58Prefixes \<Rightarrow> CScript \<Rightarrow> NicknameOperation result" where
  "ExtractNicknameOperation Hash P script =
     (case GetOp2 script of
        None \<Rightarrow> Inl ''script is not an OP_RETURN nickname operation''
      | Some (opcode, _, pc) \<Rightarrow>
          if opcode \<noteq> OP_RETURN then Inl ''script is not an OP_RETURN nickname operation''
          else case GetOp2 pc of
              None \<Rightarrow> Inl ''nickname operation must contain a single pushed payload''
            | Some (opcode, pushed, pc) \<Rightarrow>
                if pc \<noteq> [] then Inl ''nickname operation must contain a single pushed payload''
                else parse_payload Hash P pushed)"

fun NicknameOpTypeToString :: "NicknameOpType \<Rightarrow> string" where
  "NicknameOpTypeToString REGISTER = ''NAME_REGISTER''"
| "NicknameOpTypeToString UPDATE = ''NAME_UPDATE''"
| "NicknameOpTypeToString TRANSFER = ''NAME_TRANSFER''"
| "NicknameOpTypeToString RENEW = ''NAME_RENEW''"
| "NicknameOpTypeToString RELEASE = ''NAME_RELEASE''"
| "NicknameOpTypeToString CLAIM_BOND = ''NAME_CLAIM_BOND''"
| "NicknameOpTypeToString NONE = ''NONE''"
| "NicknameOpTypeToString (UNNAMED b) = ''NONE''"

subsection \<open>What is built and what is read\<close>

text \<open>
  The abstract contract: which operations can be sent, and the operation a node sees when it reads
  one. Fields that the type does not use are dropped and the payout address is written in the form
  \<^verbatim>\<open>CBitcoinAddress::ToString\<close> gives it.
\<close>

definition pays :: "NicknameOpType \<Rightarrow> bool" where
  "pays t \<longleftrightarrow> t = REGISTER \<or> t = UPDATE"

definition sendable :: "hasher \<Rightarrow> Base58Prefixes \<Rightarrow> NicknameOperation \<Rightarrow> bool" where
  "sendable Hash P x \<longleftrightarrow>
     op_type x \<in> {REGISTER, UPDATE, TRANSFER, RENEW, RELEASE, CLAIM_BOND} \<and>
     valid_nickname (NormalizeNickname (op_nickname x)) \<and>
     (if pays (op_type x) then address_dest Hash P (payoutAddress x) \<noteq> CNoDestination else True) \<and>
     (if op_type x = REGISTER then length (ownerPubKey x) = COMPRESSED_SIZE else True) \<and>
     (if op_type x = TRANSFER then length (newOwnerPubKey x) = COMPRESSED_SIZE else True)"

definition received :: "hasher \<Rightarrow> Base58Prefixes \<Rightarrow> NicknameOperation \<Rightarrow> NicknameOperation" where
  "received Hash P x =
     \<lparr>op_type = op_type x,
      op_nickname = NormalizeNickname (op_nickname x),
      ownerPubKey = (if op_type x = REGISTER then ownerPubKey x else []),
      payoutAddress = (if pays (op_type x)
        then address_string Hash P (address_dest Hash P (payoutAddress x)) else []),
      newOwnerPubKey = (if op_type x = TRANSFER then newOwnerPubKey x else [])\<rparr>"

fun dest_bytes :: "CTxDestination \<Rightarrow> byte list" where
  "dest_bytes (CKeyID h) = DEST_PKH # uint160_bytes h"
| "dest_bytes (CScriptID h) = DEST_SH # uint160_bytes h"
| "dest_bytes CNoDestination = []"

definition op_payload :: "hasher \<Rightarrow> Base58Prefixes \<Rightarrow> NicknameOperation \<Rightarrow> byte list" where
  "op_payload Hash P x =
     KUBU_NICKNAME_MAGIC @ [op_type_byte (op_type x)] @
     Serialize_string (NormalizeNickname (op_nickname x)) @
     (let pay = dest_bytes (address_dest Hash P (payoutAddress x)) in
      case op_type x of
        REGISTER \<Rightarrow> Serialize_bytes (ownerPubKey x) @ Serialize_bytes pay
      | UPDATE \<Rightarrow> Serialize_bytes pay
      | TRANSFER \<Rightarrow> Serialize_bytes (newOwnerPubKey x)
      | _ \<Rightarrow> [])"

lemma op_type_of_byte_byte [simp]:
  "t \<in> {REGISTER, UPDATE, TRANSFER, RENEW, RELEASE, CLAIM_BOND} \<Longrightarrow> op_type_of_byte (op_type_byte t) = t"
  by (auto simp: op_type_of_byte_def)

lemma op_type_byte_of_byte [simp]: "op_type_byte (op_type_of_byte b) = b"
  by (simp add: op_type_of_byte_def)

lemma EncodeDestinationBytes_iff:
  "EncodeDestinationBytes Hash P a = Inr bs \<longleftrightarrow>
   address_dest Hash P a \<noteq> CNoDestination \<and> bs = dest_bytes (address_dest Hash P a)"
  by (auto simp: EncodeDestinationBytes_def address_dest_def Address_Get_def Let_def)

lemma length_dest_bytes: "d \<noteq> CNoDestination \<Longrightarrow> length (dest_bytes d) = 21"
  by (cases d) simp_all

lemma DecodeDestinationBytes_dest:
  "d \<noteq> CNoDestination \<Longrightarrow> DecodeDestinationBytes Hash P (dest_bytes d) = Inr (address_string Hash P d)"
  by (cases d) (simp_all add: DecodeDestinationBytes_def DEST_PKH_def DEST_SH_def address_string_def)

lemma DecodeDestinationBytes_iff:
  "DecodeDestinationBytes Hash P bs = Inr a \<longleftrightarrow>
   (\<exists>d. d \<noteq> CNoDestination \<and> bs = dest_bytes d \<and> a = address_string Hash P d)"
proof
  assume L: "DecodeDestinationBytes Hash P bs = Inr a"
  then have l: "length bs = 21" by (auto simp: DecodeDestinationBytes_def split: if_splits)
  then obtain b h where bs: "bs = b # h" "length h = 20" by (cases bs) auto
  define d where "d = (if b = DEST_PKH then CKeyID (uint160_of h) else CScriptID (uint160_of h))"
  have "bs = dest_bytes d" "a = address_string Hash P d"
    using L l by (auto simp: bs d_def DecodeDestinationBytes_def address_string_def Let_def split: if_splits)
  moreover have "d \<noteq> CNoDestination" by (simp add: d_def)
  ultimately show "\<exists>d. d \<noteq> CNoDestination \<and> bs = dest_bytes d \<and> a = address_string Hash P d" by blast
qed (auto simp: DecodeDestinationBytes_dest)

lemma ReadBytes_iff:
  assumes "n \<le> MAX_SIZE"
  shows "ReadBytes s n = Inr (v, r) \<longleftrightarrow> s = Serialize_bytes v @ r \<and> length v \<le> n"
proof
  assume "ReadBytes s n = Inr (v, r)"
  then have "Unserialize_bytes s = Some (v, r)" "length v \<le> n"
    by (auto simp: ReadBytes_def split: option.splits if_splits)
  then show "s = Serialize_bytes v @ r \<and> length v \<le> n" using bytes.enc_dec by blast
next
  assume "s = Serialize_bytes v @ r \<and> length v \<le> n"
  then show "ReadBytes s n = Inr (v, r)" using assms by (simp add: ReadBytes_def bytes.dec_enc)
qed

lemma length_Serialize_bytes: "length v < 253 \<Longrightarrow> length (Serialize_bytes v) = Suc (length v)"
  by (simp add: Serialize_bytes_def length_WriteCompactSize GetSizeOfCompactSize_def)

lemma length_Serialize_string: "length v < 253 \<Longrightarrow> length (Serialize_string v) = Suc (length v)"
  by (simp add: Serialize_string_def length_WriteCompactSize GetSizeOfCompactSize_def)

lemma valid_nickname_length: "valid_nickname n \<Longrightarrow> 4 \<le> length n \<and> length n \<le> 16"
  by (auto simp: IsValidNormalizedNickname_def MIN_LENGTH_def MAX_LENGTH_def split: if_splits)

lemma op_payload_length:
  assumes "sendable Hash P x"
  shows "length (op_payload Hash P x) \<le> 78"
proof -
  have "length (Serialize_string (NormalizeNickname (op_nickname x))) \<le> 17"
    using assms valid_nickname_length by (force simp: sendable_def length_Serialize_string)
  then show ?thesis
    using assms
    by (auto simp: op_payload_def sendable_def pays_def length_Serialize_bytes length_dest_bytes
        KUBU_NICKNAME_MAGIC_def COMPRESSED_SIZE_def Let_def)
qed

lemma BuildNicknameOpScript_iff:
  "BuildNicknameOpScript Hash P x = Inr s \<longleftrightarrow>
   sendable Hash P x \<and> s = push_data (push_opcode [] OP_RETURN) (op_payload Hash P x)"
proof -
  have "sendable Hash P x \<Longrightarrow> \<not> length (op_payload Hash P x) > MAX_OP_RETURN_RELAY"
    using op_payload_length [of Hash P x] by (simp add: MAX_OP_RETURN_RELAY_def)
  then show ?thesis
    by (cases "op_type x")
      (auto simp: BuildNicknameOpScript_def sendable_def op_payload_def pays_def payload_fields_def Let_def
        rbind_Inr_iff rbind_require_iff EncodeDestinationBytes_iff)
qed

lemma ReadBytes_Serialize:
  "length v \<le> n \<Longrightarrow> n \<le> MAX_SIZE \<Longrightarrow> ReadBytes (Serialize_bytes v @ r) n = Inr (v, r)"
  by (simp add: ReadBytes_iff)

lemma small_sizes: "COMPRESSED_SIZE \<le> MAX_SIZE" "21 \<le> MAX_SIZE" "16 \<le> MAX_SIZE"
  by (simp_all add: COMPRESSED_SIZE_def MAX_SIZE_def)

lemma parse_payload_op_payload:
  assumes "sendable Hash P x"
  shows "parse_payload Hash P (op_payload Hash P x @ junk) = Inr (received Hash P x)"
proof -
  have v: "valid_nickname (NormalizeNickname (op_nickname x))" using assms by (simp add: sendable_def)
  then have "length (NormalizeNickname (op_nickname x)) \<le> MAX_SIZE"
    using valid_nickname_length small_sizes(3) le_trans by blast
  moreover have "stream_read 1 (b # s) = Some ([b], s)" for b s by (simp add: stream_read_def)
  moreover have "op_type_of_byte (op_type_byte (op_type x)) = op_type x"
    using assms by (intro op_type_of_byte_byte) (simp add: sendable_def)
  ultimately show ?thesis
    using assms v
    by (cases "op_type x")
      (simp_all add: parse_payload_def op_payload_def str.dec_enc extract_fields_def received_def
        empty_operation_def pays_def sendable_def ReadBytes_Serialize small_sizes length_dest_bytes
        DecodeDestinationBytes_dest)
qed

lemma parse_payload_sound:
  assumes "prefixes_ok P" "parse_payload Hash P payload = Inr y"
  shows "sendable Hash P y \<and> received Hash P y = y"
proof -
  have rt: "d \<noteq> CNoDestination \<Longrightarrow> address_dest Hash P (address_string Hash P d) = d" for d
    using address_codec_of [OF assms(1)] by (rule address_codec.parse_show)
  obtain b name r where v: "valid_nickname name"
    and x: "extract_fields Hash P (empty_operation\<lparr>op_type := b, op_nickname := name\<rparr>) r = Inr y"
    using assms(2) by (auto simp: parse_payload_def rbind_Inr_iff split: option.splits if_splits)
  then show ?thesis
    by (cases b)
      (auto simp: extract_fields_def rbind_Inr_iff rbind_require_iff DecodeDestinationBytes_iff
        ReadBytes_iff small_sizes sendable_def received_def pays_def empty_operation_def rt)
qed

lemma GetOp2_OP_RETURN: "GetOp2 (push_opcode [] OP_RETURN @ pc) = Some (OP_RETURN, [], pc)"
  by (simp add: push_opcode_def GetOp2_opcode opcode_defs)

lemma ExtractNicknameOperation_push:
  assumes "length payload < 2 ^ 32"
  shows "ExtractNicknameOperation Hash P (push_data (push_opcode [] OP_RETURN) payload) =
    parse_payload Hash P payload"
proof -
  obtain opcode where "GetOp2 (push_data [] payload @ []) = Some (opcode, payload, [])"
    using GetOp2_push [OF assms] by blast
  then show ?thesis
    unfolding push_data_append [of "push_opcode [] OP_RETURN"]
    by (simp add: ExtractNicknameOperation_def GetOp2_OP_RETURN)
qed

lemma Extract_Build:
  assumes "BuildNicknameOpScript Hash P x = Inr script"
  shows "ExtractNicknameOperation Hash P script = Inr (received Hash P x)"
proof -
  have x: "sendable Hash P x" "script = push_data (push_opcode [] OP_RETURN) (op_payload Hash P x)"
    using assms by (simp_all add: BuildNicknameOpScript_iff)
  have "length (op_payload Hash P x) < 2 ^ 32" using op_payload_length [OF x(1)] by simp
  then show ?thesis
    using parse_payload_op_payload [OF x(1), of "[]"] by (simp add: x(2) ExtractNicknameOperation_push)
qed

lemma Extract_sound:
  assumes "prefixes_ok P" "ExtractNicknameOperation Hash P script = Inr y"
  shows "sendable Hash P y \<and> received Hash P y = y"
  using assms parse_payload_sound
  by (fastforce simp: ExtractNicknameOperation_def split: option.splits if_splits)

lemma op_script_length:
  assumes "sendable Hash P x"
  shows "length (push_data (push_opcode [] OP_RETURN) (op_payload Hash P x)) \<le> 81"
  using op_payload_length [OF assms]
  by (simp add: push_data_def push_opcode_def OP_PUSHDATA1_def)

lemma valid_scan_reason:
  "valid_scan l u cs = Inl e \<Longrightarrow>
   e \<noteq> ''nickname operation exceeds current OP_RETURN relay limit''"
  by (induction l u cs rule: valid_scan.induct) (auto split: if_splits)

lemma IsValidNormalizedNickname_reason:
  "IsValidNormalizedNickname n \<noteq> Inl ''nickname operation exceeds current OP_RETURN relay limit''"
  by (auto simp: IsValidNormalizedNickname_def dest: valid_scan_reason split: sum.splits)

lemma relay_limit_unreachable:
  "BuildNicknameOpScript Hash P x \<noteq> Inl ''nickname operation exceeds current OP_RETURN relay limit''"
proof
  let ?e = "''nickname operation exceeds current OP_RETURN relay limit''"
  assume b: "BuildNicknameOpScript Hash P x = Inl ?e"
  have e: "EncodeDestinationBytes Hash P a \<noteq> Inl ?e" for a
    by (auto simp: EncodeDestinationBytes_def Let_def split: CTxDestination.splits)
  have "sendable Hash P x"
    using b e IsValidNormalizedNickname_reason
    by (cases "op_type x")
      (auto simp: BuildNicknameOpScript_def sendable_def pays_def Let_def rbind_Inl_iff
        EncodeDestinationBytes_iff payload_fields_def split: if_splits)
  then have "\<exists>s. BuildNicknameOpScript Hash P x = Inr s" by (simp add: BuildNicknameOpScript_iff)
  then show False using b by simp
qed

text \<open>
  An operation can be sent exactly when its type is one of the six named ones, its name is
  valid once normalised, the address of a registration or update is valid on the network, and
  the keys of a registration or transfer are compressed. In particular the relay limit check of
  \<^verbatim>\<open>BuildNicknameOpScript\<close> never rejects anything, and a script that was built has at most 81 of the
  83 bytes a data output may have.
\<close>

theorem nickname_op_sendable:
  "((\<exists>script. BuildNicknameOpScript Hash P x = Inr script \<and> length script \<le> 81) \<longleftrightarrow>
    sendable Hash P x) \<and>
   BuildNicknameOpScript Hash P x \<noteq> Inl ''nickname operation exceeds current OP_RETURN relay limit''"
  using op_script_length relay_limit_unreachable by (auto simp: BuildNicknameOpScript_iff)

text \<open>
  C17. A built script is read back: \<^verbatim>\<open>ExtractNicknameOperation\<close> gives the operation with its name
  normalised, its payout address in the canonical form and the fields its type does not use empty.
\<close>

theorem nickname_op_roundtrip:
  assumes "BuildNicknameOpScript Hash P x = Inr script"
  shows "ExtractNicknameOperation Hash P script = Inr (received Hash P x)"
  by (rule Extract_Build [OF assms])

definition example_register :: NicknameOperation where
  "example_register = \<lparr>op_type = REGISTER, op_nickname = ''alice_7'', ownerPubKey = replicate 33 2,
     payoutAddress = address_string (\<lambda>_. 0) main_prefixes (CKeyID 7), newOwnerPubKey = []\<rparr>"

lemma example_register_sendable: "sendable (\<lambda>_. 0) main_prefixes example_register"
proof -
  have "valid_nickname ''alice_7''" by code_simp
  then show ?thesis
    by (simp add: sendable_def example_register_def pays_def main_addr.parse_show COMPRESSED_SIZE_def)
qed

theorem nickname_op_roundtrip_witness:
  "\<exists>script. BuildNicknameOpScript (\<lambda>_. 0) main_prefixes example_register = Inr script \<and>
     ExtractNicknameOperation (\<lambda>_. 0) main_prefixes script =
       Inr (received (\<lambda>_. 0) main_prefixes example_register)"
proof -
  have "BuildNicknameOpScript (\<lambda>_. 0) main_prefixes example_register =
      Inr (push_data (push_opcode [] OP_RETURN) (op_payload (\<lambda>_. 0) main_prefixes example_register))"
    using example_register_sendable by (simp add: BuildNicknameOpScript_iff)
  then show ?thesis using nickname_op_roundtrip by blast
qed

text \<open>
  C21. Whatever script a peer sends, an operation that is read from it is well formed: a wallet
  could have sent it, reading the script the wallet would build gives the same operation again,
  and none of its fields is used without being checked.
\<close>

theorem nickname_op_extract_sound:
  assumes "prefixes_ok P" and "ExtractNicknameOperation Hash P script = Inr x"
  shows "sendable Hash P x \<and> received Hash P x = x \<and>
    (\<exists>script'. BuildNicknameOpScript Hash P x = Inr script' \<and>
       ExtractNicknameOperation Hash P script' = Inr x)"
  using Extract_sound [OF assms] Extract_Build [of Hash P x] by (auto simp: BuildNicknameOpScript_iff)

theorem nickname_op_extract_sound_witness:
  "\<exists>script x. ExtractNicknameOperation (\<lambda>_. 0) main_prefixes script = Inr x \<and>
     op_type x = REGISTER \<and> sendable (\<lambda>_. 0) main_prefixes x"
proof -
  let ?s = "push_data (push_opcode [] OP_RETURN) (op_payload (\<lambda>_. 0) main_prefixes example_register)"
  let ?x = "received (\<lambda>_. 0) main_prefixes example_register"
  have e: "ExtractNicknameOperation (\<lambda>_. 0) main_prefixes ?s = Inr ?x"
    using example_register_sendable by (intro Extract_Build) (simp add: BuildNicknameOpScript_iff)
  moreover have "op_type ?x = REGISTER" by (simp add: received_def example_register_def)
  ultimately show ?thesis
    using nickname_op_extract_sound [OF prefixes_ok_networks(1) e] by blast
qed

end
