(* ===== verification/Kubu_Tx.thy ===== *)
theory Kubu_Tx
  imports Kubu_Script "HOL-Library.List_Lexorder" "HOL-Library.Char_ord" "HOL-Library.Product_Lexorder"
begin

text \<open>
  Transactions: \<^verbatim>\<open>src/src/primitives/transaction.h\<close>, \<^verbatim>\<open>src/src/undo.h\<close> and the part of
  \<^verbatim>\<open>src/src/coins.h\<close> that tells whether an output is unspent. A transaction carries its hash as the
  memory-only field of the class does.
\<close>

datatype COutPoint = COutPoint (out_hash: uint256) (out_n: "32 word")

definition null_outpoint :: COutPoint where
  "null_outpoint = COutPoint 0 (- 1)"

definition OutPoint_IsNull :: "COutPoint \<Rightarrow> bool" where
  "OutPoint_IsNull p \<longleftrightarrow> out_hash p = 0 \<and> out_n p = - 1"

record CTxIn =
  prevout :: COutPoint
  scriptSig :: CScript
  nSequence :: "32 word"
  scriptWitness :: "byte list list"

record CTxOut =
  nValue :: CAmount
  scriptPubKey :: CScript

definition TxOut_IsNull :: "CTxOut \<Rightarrow> bool" where
  "TxOut_IsNull o' \<longleftrightarrow> nValue o' = - 1"

record CTransaction =
  tx_nVersion :: int
  vin :: "CTxIn list"
  vout :: "CTxOut list"
  nLockTime :: "32 word"
  tx_hash :: uint256

definition IsCoinBase :: "CTransaction \<Rightarrow> bool" where
  "IsCoinBase tx \<longleftrightarrow> length (vin tx) = 1 \<and> OutPoint_IsNull (prevout (vin tx ! 0))"

record CTxInUndo =
  txout :: CTxOut
  undo_fCoinBase :: bool
  undo_nHeight :: nat
  undo_nVersion :: int

record CTxUndo =
  vprevout :: "CTxInUndo list"

record CBlockUndo =
  vtxundo :: "CTxUndo list"

record CCoins =
  coins_fCoinBase :: bool
  coins_vout :: "CTxOut list"
  coins_nHeight :: nat
  coins_nVersion :: int

definition IsAvailable :: "CCoins \<Rightarrow> nat \<Rightarrow> bool" where
  "IsAvailable coins nPos \<longleftrightarrow> nPos < length (coins_vout coins) \<and> \<not> TxOut_IsNull (coins_vout coins ! nPos)"

subsection \<open>The order of outpoints\<close>

text \<open>\<^verbatim>\<open>base_blob::Compare\<close> is \<^verbatim>\<open>memcmp\<close>: hashes are compared byte by byte from the first byte in memory.\<close>

lemma blob_bytes_inject [simp]: "blob_bytes a = blob_bytes b \<longleftrightarrow> a = b"
proof
  have v: "le_value (blob_bytes x) = unat x" for x :: uint256
  proof -
    have "unat x < 256 ^ 32" by (rule order_less_le_trans [OF unsigned_less]) simp
    then show ?thesis by (simp add: blob_bytes_def del: le_write.simps)
  qed
  assume "blob_bytes a = blob_bytes b"
  then have "unat a = unat b" using v by metis
  then show "a = b" by (simp add: word_unat_eq_iff)
qed simp

instantiation COutPoint :: linorder
begin

definition less_COutPoint :: "COutPoint \<Rightarrow> COutPoint \<Rightarrow> bool" where
  "less_COutPoint a b \<longleftrightarrow>
     blob_bytes (out_hash a) < blob_bytes (out_hash b) \<or>
     blob_bytes (out_hash a) = blob_bytes (out_hash b) \<and> out_n a < out_n b"

definition less_eq_COutPoint :: "COutPoint \<Rightarrow> COutPoint \<Rightarrow> bool" where
  "less_eq_COutPoint a b \<longleftrightarrow> a < b \<or> a = b"

instance
proof
  fix a b c :: COutPoint
  show "(a < b) = (a \<le> b \<and> \<not> b \<le> a)"
    by (auto simp: less_COutPoint_def less_eq_COutPoint_def)
  show "a \<le> a" by (simp add: less_eq_COutPoint_def)
  show "a \<le> b \<Longrightarrow> b \<le> c \<Longrightarrow> a \<le> c"
    by (auto simp: less_COutPoint_def less_eq_COutPoint_def)
  show "a \<le> b \<Longrightarrow> b \<le> a \<Longrightarrow> a = b"
    by (auto simp: less_COutPoint_def less_eq_COutPoint_def)
  show "a \<le> b \<or> b \<le> a"
    by (cases a; cases b) (auto simp: less_COutPoint_def less_eq_COutPoint_def)
qed

end

end
