(* ===== verification/Nickname_Info.thy ===== *)
theory Nickname_Info
  imports Nicknames Kubu_Tx
begin

text \<open>
  The record of a nickname and its undo data: the structures of \<^verbatim>\<open>src/src/nicknamedb.h\<close>, their
  methods from \<^verbatim>\<open>src/src/nicknamedb.cpp\<close> and the disk format of a record. Records that were written
  before the bond outpoint or the last three fields existed are still readable: the two
  \<^verbatim>\<open>try\<close>-blocks of \<^verbatim>\<open>SerializationOp\<close> are the case distinctions on a failing read.
\<close>

record NicknameInfo =
  info_nickname :: string
  info_ownerPubKey :: "byte list"
  info_payoutAddress :: string
  registrationHeight :: int
  activeUntilHeight :: int
  graceUntilHeight :: int
  info_bondAmount :: CAmount
  bondTxid :: uint256
  bondVout :: "32 word"
  lastUpdateTxid :: uint256
  released :: bool
  bondClaimed :: bool

definition empty_info :: NicknameInfo where
  "empty_info = \<lparr>info_nickname = [], info_ownerPubKey = [], info_payoutAddress = [],
     registrationHeight = 0, activeUntilHeight = 0, graceUntilHeight = 0, info_bondAmount = 0,
     bondTxid = 0, bondVout = - 1, lastUpdateTxid = 0, released = False, bondClaimed = False\<rparr>"

definition info_GetStatus :: "NicknameInfo \<Rightarrow> int \<Rightarrow> Status" where
  "info_GetStatus info currentHeight =
     GetStatus currentHeight (activeUntilHeight info) (graceUntilHeight info)
       (released info) (bondClaimed info)"

definition HasBondOutpoint :: "NicknameInfo \<Rightarrow> bool" where
  "HasBondOutpoint info \<longleftrightarrow> \<not> bondClaimed info \<and> bondTxid info \<noteq> 0 \<and> bondVout info \<noteq> - 1"

definition GetBondOutpoint :: "NicknameInfo \<Rightarrow> COutPoint" where
  "GetBondOutpoint info =
     (if \<not> HasBondOutpoint info then null_outpoint else COutPoint (bondTxid info) (bondVout info))"

record NicknameUndoEntry =
  undo_nickname :: string
  existedBefore :: bool
  previousInfo :: NicknameInfo

record NicknameBondIndexUndoEntry =
  undo_outpoint :: COutPoint
  bond_existedBefore :: bool
  previousNickname :: string

subsection \<open>Disk format\<close>

text \<open>\<^verbatim>\<open>VARINT\<close> of an \<^verbatim>\<open>int\<close>: a negative number is below 0x7f, so only its low seven bits are written.\<close>

definition WriteVarInt_int :: "int \<Rightarrow> byte list" where
  "WriteVarInt_int n = (if n < 0 then [byte (nat (n mod 128))] else WriteVarInt (nat n))"

definition ReadVarInt_int :: "int reader" where
  "ReadVarInt_int s = map_option (\<lambda>(n, s). (sint (word_of_nat n :: 32 word), s)) (ReadVarInt 32 0 s)"

definition Serialize_int64 :: "int \<Rightarrow> byte list" where
  "Serialize_int64 n = le_write 8 (nat (n mod 2 ^ 64))"

definition Unserialize_int64 :: "int reader" where
  "Unserialize_int64 s = map_option (\<lambda>(n, s). (sint (word_of_nat n :: 64 word), s)) (ser_readdata 8 s)"

definition Unserialize_uint256 :: "uint256 reader" where
  "Unserialize_uint256 s = map_option (\<lambda>(bs, s). (word_of_nat (le_value bs), s)) (stream_read 32 s)"

definition Serialize_bool :: "bool \<Rightarrow> byte list" where
  "Serialize_bool b = [if b then 1 else 0]"

definition Unserialize_bool :: "bool reader" where
  "Unserialize_bool s = map_option (\<lambda>(n, s). (n \<noteq> 0, s)) (ser_readdata 1 s)"

definition Serialize_info :: "NicknameInfo \<Rightarrow> byte list" where
  "Serialize_info i =
     Serialize_string (info_nickname i) @ Serialize_bytes (info_ownerPubKey i) @
     Serialize_string (info_payoutAddress i) @ WriteVarInt_int (registrationHeight i) @
     WriteVarInt_int (activeUntilHeight i) @ WriteVarInt_int (graceUntilHeight i) @
     Serialize_int64 (info_bondAmount i) @
     blob_bytes (bondTxid i) @ WriteVarInt (unat (bondVout i)) @
     blob_bytes (lastUpdateTxid i) @ Serialize_bool (released i) @ Serialize_bool (bondClaimed i)"

text \<open>
  The two guarded groups. A failing \<^verbatim>\<open>read\<close> consumes nothing, but a failing \<^verbatim>\<open>ReadVarInt\<close> has used up the
  stream byte by byte.
\<close>

definition read_bond :: "stream \<Rightarrow> uint256 \<times> 32 word \<times> stream" where
  "read_bond s =
     (case Unserialize_uint256 s of
        None \<Rightarrow> (0, - 1, s)
      | Some (txid, s1) \<Rightarrow>
          (case ReadVarInt 32 0 s1 of
             None \<Rightarrow> (0, - 1, [])
           | Some (n, s2) \<Rightarrow> (txid, word_of_nat n, s2)))"

definition read_flags :: "stream \<Rightarrow> uint256 \<times> bool \<times> bool \<times> stream" where
  "read_flags s =
     (case Unserialize_uint256 s of
        None \<Rightarrow> (0, False, False, s)
      | Some (txid, s1) \<Rightarrow>
          (case Unserialize_bool s1 of
             None \<Rightarrow> (0, False, False, s1)
           | Some (r, s2) \<Rightarrow>
               (case Unserialize_bool s2 of
                  None \<Rightarrow> (0, False, False, s2)
                | Some (c, s3) \<Rightarrow> (txid, r, c, s3))))"

definition Unserialize_info :: "NicknameInfo reader" where
  "Unserialize_info s =
     Option.bind (Unserialize_string s) (\<lambda>(name, s).
     Option.bind (Unserialize_bytes s) (\<lambda>(owner, s).
     Option.bind (Unserialize_string s) (\<lambda>(payout, s).
     Option.bind (ReadVarInt_int s) (\<lambda>(regHeight, s).
     Option.bind (ReadVarInt_int s) (\<lambda>(activeUntil, s).
     Option.bind (ReadVarInt_int s) (\<lambda>(graceUntil, s).
     Option.bind (Unserialize_int64 s) (\<lambda>(amount, s).
       let (txid, n, s) = read_bond s; (last, rel, claimed, s) = read_flags s in
       Some (\<lparr>info_nickname = name, info_ownerPubKey = owner, info_payoutAddress = payout,
         registrationHeight = regHeight, activeUntilHeight = activeUntil,
         graceUntilHeight = graceUntil, info_bondAmount = amount, bondTxid = txid, bondVout = n,
         lastUpdateTxid = last, released = rel, bondClaimed = claimed\<rparr>, s))))))))"

subsection \<open>What is written is read back\<close>

definition info_storable :: "NicknameInfo \<Rightarrow> bool" where
  "info_storable i \<longleftrightarrow>
     length (info_nickname i) \<le> MAX_SIZE \<and> length (info_ownerPubKey i) \<le> MAX_SIZE \<and>
     length (info_payoutAddress i) \<le> MAX_SIZE \<and>
     0 \<le> registrationHeight i \<and> registrationHeight i < 2 ^ 31 \<and>
     0 \<le> activeUntilHeight i \<and> activeUntilHeight i < 2 ^ 31 \<and>
     0 \<le> graceUntilHeight i \<and> graceUntilHeight i < 2 ^ 31 \<and> fits_int64 (info_bondAmount i)"

lemma sint_32: "0 \<le> n \<Longrightarrow> n < 2 ^ 31 \<Longrightarrow> sint (word_of_int n :: 32 word) = n"
  by (simp add: int_word_sint)

interpretation varint_int: codec WriteVarInt_int ReadVarInt_int "\<lambda>n. 0 \<le> n \<and> n < 2 ^ 31"
proof unfold_locales
  fix n :: int and s assume n: "0 \<le> n \<and> n < 2 ^ 31"
  then have "nat n < 2 ^ 32" by (simp add: nat_less_iff)
  then show "ReadVarInt_int (WriteVarInt_int n @ s) = Some (n, s)"
    using n by (simp add: ReadVarInt_int_def WriteVarInt_int_def varint.dec_enc sint_32)
qed

interpretation int64: codec Serialize_int64 Unserialize_int64 fits_int64
proof unfold_locales
  fix n :: int and s assume n: "fits_int64 n"
  have lt: "nat (n mod 2 ^ 64) < 256 ^ 8" by (simp add: nat_less_iff)
  have "word_of_int (n mod 2 ^ 64) = (word_of_int n :: 64 word)"
    by (simp add: word_of_int_eq_iff take_bit_eq_mod)
  then have "sint (word_of_nat (nat (n mod 2 ^ 64)) :: 64 word) = n"
    using n by (simp add: fits_int64_def int_word_sint)
  then show "Unserialize_int64 (Serialize_int64 n @ s) = Some (n, s)"
    using lt by (simp add: Unserialize_int64_def Serialize_int64_def del: le_write.simps)
qed

interpretation blob: codec blob_bytes Unserialize_uint256 "\<lambda>_. True"
proof unfold_locales
  fix x :: uint256 and s
  have "unat x < 256 ^ 32" by (rule order_less_le_trans [OF unsigned_less]) simp
  then show "Unserialize_uint256 (blob_bytes x @ s) = Some (x, s)"
    by (simp add: Unserialize_uint256_def blob_bytes_def del: le_write.simps)
qed

interpretation flag: codec Serialize_bool Unserialize_bool "\<lambda>_. True"
  by unfold_locales (simp add: Serialize_bool_def Unserialize_bool_def)

lemma vout_codec: "ReadVarInt 32 0 (WriteVarInt (unat (n :: 32 word)) @ s) = Some (unat n, s)"
  by (rule varint.dec_enc) (rule order_less_le_trans [OF unsigned_less], simp)

lemma read_bond_write:
  "read_bond (blob_bytes t @ WriteVarInt (unat (n :: 32 word)) @ s) = (t, n, s)"
  by (simp add: read_bond_def blob.dec_enc vout_codec)

lemma read_flags_write:
  "read_flags (blob_bytes t @ Serialize_bool r @ Serialize_bool c @ s) = (t, r, c, s)"
  by (simp add: read_flags_def blob.dec_enc flag.dec_enc)

lemma Unserialize_info_write:
  assumes "info_storable i"
  shows "Unserialize_info (Serialize_info i @ s) = Some (i, s)"
  using assms
  by (simp add: Unserialize_info_def Serialize_info_def info_storable_def str.dec_enc bytes.dec_enc
      varint_int.dec_enc int64.dec_enc read_bond_write read_flags_write)

interpretation info: codec Serialize_info Unserialize_info info_storable
  by unfold_locales (rule Unserialize_info_write)

text \<open>The format before the bond outpoint was added, and the one before the last three fields were.\<close>

definition Serialize_info_v1 :: "NicknameInfo \<Rightarrow> byte list" where
  "Serialize_info_v1 i =
     Serialize_string (info_nickname i) @ Serialize_bytes (info_ownerPubKey i) @
     Serialize_string (info_payoutAddress i) @ WriteVarInt_int (registrationHeight i) @
     WriteVarInt_int (activeUntilHeight i) @ WriteVarInt_int (graceUntilHeight i) @
     Serialize_int64 (info_bondAmount i)"

definition Serialize_info_v2 :: "NicknameInfo \<Rightarrow> byte list" where
  "Serialize_info_v2 i =
     Serialize_info_v1 i @ blob_bytes (bondTxid i) @ WriteVarInt (unat (bondVout i))"

lemma Unserialize_uint256_Nil [simp]: "Unserialize_uint256 [] = None"
  by (simp add: Unserialize_uint256_def stream_read_def)

lemma read_bond_Nil [simp]: "read_bond [] = (0, - 1, [])"
  by (simp add: read_bond_def)

lemma read_flags_Nil [simp]: "read_flags [] = (0, False, False, [])"
  by (simp add: read_flags_def)

text \<open>
  A nickname record is read from disk as it was written, whatever follows it; a record in the
  oldest format is read as one without a bond outpoint, and one in the middle format with its
  outpoint; in both the flags are clear.
\<close>

theorem nickname_record_roundtrip:
  assumes "info_storable i"
  shows "Unserialize_info (Serialize_info i @ s) = Some (i, s) \<and>
    Unserialize_info (Serialize_info_v1 i) =
      Some (i\<lparr>bondTxid := 0, bondVout := - 1, lastUpdateTxid := 0, released := False, bondClaimed := False\<rparr>, []) \<and>
    Unserialize_info (Serialize_info_v2 i) =
      Some (i\<lparr>lastUpdateTxid := 0, released := False, bondClaimed := False\<rparr>, [])"
proof -
  have b: "read_bond (blob_bytes (bondTxid i) @ WriteVarInt (unat (bondVout i))) = (bondTxid i, bondVout i, [])"
    using read_bond_write [of "bondTxid i" "bondVout i" "[]"] by simp
  have a: "Unserialize_int64 (Serialize_int64 (info_bondAmount i)) = Some (info_bondAmount i, [])"
    using assms int64.dec_enc_end by (simp add: info_storable_def)
  have "Unserialize_info (Serialize_info_v1 i) =
      Some (i\<lparr>bondTxid := 0, bondVout := - 1, lastUpdateTxid := 0, released := False, bondClaimed := False\<rparr>, [])"
    using assms
    by (simp add: Unserialize_info_def Serialize_info_v1_def info_storable_def str.dec_enc bytes.dec_enc
        varint_int.dec_enc a)
  moreover have "Unserialize_info (Serialize_info_v2 i) =
      Some (i\<lparr>lastUpdateTxid := 0, released := False, bondClaimed := False\<rparr>, [])"
    using assms
    by (simp add: Unserialize_info_def Serialize_info_v2_def Serialize_info_v1_def info_storable_def
        str.dec_enc bytes.dec_enc varint_int.dec_enc int64.dec_enc b)
  ultimately show ?thesis using Unserialize_info_write [OF assms] by blast
qed

theorem nickname_record_roundtrip_witness:
  "Unserialize_info (Serialize_info (empty_info\<lparr>info_nickname := ''alice'', bondTxid := 7, bondVout := 1\<rparr>) @ []) =
     Some (empty_info\<lparr>info_nickname := ''alice'', bondTxid := 7, bondVout := 1\<rparr>, [])"
  using nickname_record_roundtrip [of "empty_info\<lparr>info_nickname := ''alice'', bondTxid := 7, bondVout := 1\<rparr>" "[]"]
  by (simp add: info_storable_def empty_info_def MAX_SIZE_def fits_int64_def)

end
