(* ===== verification/Kubu_Money.thy ===== *)
theory Kubu_Money
  imports Kubu_Prelude
begin

text \<open>
  Amounts as text: \<^verbatim>\<open>src/src/utilmoneystr.cpp\<close>. The rules for nicknames print fees with \<^verbatim>\<open>FormatMoney\<close>.
  Its trimming loop reads \<^verbatim>\<open>str[i]\<close> and \<^verbatim>\<open>str[i-2]\<close> with nothing but the text itself to stop it; a read outside
  the string makes the loop of the model undefined, so a value is a proof that the loop ends in time.
\<close>

definition CENT :: CAmount where
  "CENT = 1000000"

subsection \<open>Decimal numbers\<close>

text \<open>The conversions \<^verbatim>\<open>%d\<close> and \<^verbatim>\<open>%08d\<close> of numbers that are not negative.\<close>

definition digit_char :: "nat \<Rightarrow> char" where
  "digit_char d = char_of (48 + d)"

fun decimal :: "nat \<Rightarrow> string" where
  "decimal n = (if n < 10 then [digit_char n] else decimal (n div 10) @ [digit_char (n mod 10)])"

declare decimal.simps [simp del]

definition pad_zeros :: "nat \<Rightarrow> string \<Rightarrow> string" where
  "pad_zeros width s = replicate (width - length s) CHR ''0'' @ s"

subsection \<open>Formatting\<close>

partial_function (option) trim_loop :: "string \<Rightarrow> int \<Rightarrow> nat \<Rightarrow> nat option" where
  "trim_loop str i nTrim =
     (if i < 0 \<or> int (length str) \<le> i then None
      else if str ! nat i \<noteq> CHR ''0'' then Some nTrim
      else if i - 2 < 0 then None
      else if \<not> isdigit (str ! nat (i - 2)) then Some nTrim
      else trim_loop str (i - 1) (nTrim + 1))"

definition FormatMoney :: "CAmount \<Rightarrow> string option" where
  "FormatMoney n =
     (let n_abs = (if n > 0 then n else - n);
          quotient = n_abs div COIN;
          remainder = n_abs mod COIN;
          str = decimal (nat quotient) @ ''.'' @ pad_zeros 8 (decimal (nat remainder))
      in map_option (\<lambda>nTrim.
           let str = take (length str - nTrim) str
           in if n < 0 then ''-'' @ str else str) (trim_loop str (int (length str) - 1) 0))"

subsection \<open>Parsing\<close>

text \<open>\<^verbatim>\<open>atoi64\<close> on the digits that \<^verbatim>\<open>ParseMoney\<close> collects: at most ten.\<close>

definition digit_value :: "char \<Rightarrow> int" where
  "digit_value c = int (char_code c) - 48"

definition atoi64 :: "string \<Rightarrow> int" where
  "atoi64 s = foldl (\<lambda>v c. 10 * v + digit_value c) 0 s"

fun parse_units :: "int \<Rightarrow> int \<Rightarrow> string \<Rightarrow> int \<times> string" where
  "parse_units nMult nUnits [] = (nUnits, [])"
| "parse_units nMult nUnits (c # p) =
     (if isdigit c \<and> nMult > 0
      then parse_units (nMult div 10) (nUnits + nMult * digit_value c) p
      else (nUnits, c # p))"

text \<open>The loop over the characters; the result is \<^verbatim>\<open>strWhole\<close>, \<^verbatim>\<open>nUnits\<close> and the rest of the text.\<close>

fun parse_whole :: "string \<Rightarrow> string \<Rightarrow> (string \<times> int \<times> string) option" where
  "parse_whole strWhole [] = Some (strWhole, 0, [])"
| "parse_whole strWhole (c # p) =
     (if c = CHR ''.'' then (case parse_units (CENT * 10) 0 p of (nUnits, p) \<Rightarrow> Some (strWhole, nUnits, p))
      else if isspace c then Some (strWhole, 0, c # p)
      else if \<not> isdigit c then None
      else parse_whole (strWhole @ [c]) p)"

text \<open>The argument is the text of a C string, which has no zero character.\<close>

definition ParseMoney :: "string \<Rightarrow> CAmount option" where
  "ParseMoney str =
     (case parse_whole [] (dropWhile isspace str) of
        None \<Rightarrow> None
      | Some (strWhole, nUnits, p) \<Rightarrow>
          if \<not> list_all isspace p then None
          else if length strWhole > 10 then None
          else if nUnits < 0 \<or> nUnits > COIN then None
          else Some (atoi64 strWhole * COIN + nUnits))"

subsection \<open>Digits\<close>

lemma digit_char [simp]:
  assumes "d < 10"
  shows "isdigit (digit_char d)" "digit_value (digit_char d) = int d" "\<not> isspace (digit_char d)"
    "digit_char d = CHR ''0'' \<longleftrightarrow> d = 0"
proof -
  have c: "char_code (digit_char d) = 48 + d" using assms by (simp add: digit_char_def)
  then show "isdigit (digit_char d)" "digit_value (digit_char d) = int d" "\<not> isspace (digit_char d)"
    using assms by (simp_all add: isdigit_def digit_value_def isspace_def)
  have "char_code (CHR ''0'') = 48" by (simp add: char_code_def)
  then show "digit_char d = CHR ''0'' \<longleftrightarrow> d = 0" using c char_code_inj [of "digit_char d" "CHR ''0''"] by simp
qed

lemma digit_plain: "isdigit c \<Longrightarrow> c \<noteq> CHR ''.'' \<and> \<not> isspace c"
  by (auto simp: isdigit_def isspace_def char_code_def)

lemma digit_positive: "isdigit c \<Longrightarrow> c \<noteq> CHR ''0'' \<Longrightarrow> 0 < digit_value c"
  using char_code_inj [of c "CHR ''0''"] by (auto simp: isdigit_def digit_value_def char_code_def)

lemma dot_plain [simp]: "\<not> isdigit CHR ''.''" "isdigit CHR ''0''" "digit_value CHR ''0'' = 0"
  by (simp_all add: isdigit_def digit_value_def char_code_def)

lemma space_plain: "isspace c \<Longrightarrow> \<not> isdigit c \<and> c \<noteq> CHR ''.''"
  by (auto simp: isdigit_def isspace_def char_code_def)

lemma atoi64_snoc: "atoi64 (s @ [c]) = 10 * atoi64 s + digit_value c"
  by (simp add: atoi64_def)

lemma decimal_text: "decimal n \<noteq> [] \<and> list_all isdigit (decimal n) \<and> atoi64 (decimal n) = int n"
proof (induction n rule: decimal.induct)
  case (1 n)
  show ?case
  proof (cases "n < 10")
    case True
    then show ?thesis by (simp add: decimal.simps [of n] atoi64_def)
  next
    case False
    have "10 * int (n div 10) + int (n mod 10) = int n" by presburger
    then show ?thesis using 1 False by (simp add: decimal.simps [of n] atoi64_snoc)
  qed
qed

lemma decimal_length: "n < 10 ^ Suc k \<Longrightarrow> length (decimal n) \<le> Suc k"
proof (induction k arbitrary: n)
  case 0
  then show ?case by (simp add: decimal.simps [of n])
next
  case (Suc k)
  then have "n div 10 < 10 ^ Suc k" by (simp add: div_less_iff_less_mult)
  then show ?case using Suc.IH [of "n div 10"] by (simp add: decimal.simps [of n])
qed

lemma atoi64_append: "atoi64 (s @ t) = atoi64 s * 10 ^ length t + atoi64 t"
  by (induction t rule: rev_induct) (simp_all add: atoi64_snoc algebra_simps flip: append_assoc, simp add: atoi64_def)

lemma atoi64_zeros [simp]: "atoi64 (replicate k CHR ''0'') = 0"
  by (induction k) (simp_all add: atoi64_def)

lemma atoi64_bounds:
  "list_all isdigit s \<Longrightarrow> 0 \<le> atoi64 s \<and> atoi64 s < 10 ^ length s"
  by (induction s rule: rev_induct) (auto simp: atoi64_snoc, auto simp: atoi64_def digit_value_def isdigit_def)

lemma pad_zeros:
  assumes "length s \<le> width" "list_all isdigit s"
  shows "length (pad_zeros width s) = width" "list_all isdigit (pad_zeros width s)"
    "atoi64 (pad_zeros width s) = atoi64 s"
  using assms by (auto simp: pad_zeros_def atoi64_append list_all_iff in_set_replicate)

subsection \<open>The trimming loop\<close>

lemma trim_loop_fraction:
  assumes "list_all isdigit f" "1 \<le> j" "j < length f"
  shows "trim_loop (w @ CHR ''.'' # f) (int (length w + 1 + j)) t =
    Some (t + length (takeWhile (\<lambda>c. c = CHR ''0'') (rev (drop 2 (take (Suc j) f)))))"
  using assms(2,3)
proof (induction j arbitrary: t rule: nat_induct_at_least)
  case base
  have "nat (int (length w + 1 + 1)) = length w + 2" "nat (int (length w + 1 + 1) - 2) = length w" by simp_all
  then show ?case using base by (subst trim_loop.simps) (simp add: nth_append del: nat_int)
next
  case (Suc j)
  let ?i = "int (length w + 1 + Suc j)"
  have i: "nat ?i = length w + Suc (Suc j)" "nat (?i - 2) = length w + j" "?i - 1 = int (length w + 1 + j)" by simp_all
  have d: "isdigit (f ! (j - 1))" using assms(1) Suc by (simp add: list_all_length)
  have tk: "take (Suc (Suc j)) f = take (Suc j) f @ [f ! Suc j]" using Suc by (simp add: take_Suc_conv_app_nth)
  show ?case
    using Suc d by (subst trim_loop.simps, unfold i) (simp add: nth_append nth_Cons' tk)
qed

text \<open>A fraction without the zeros at its end, but of at least two digits.\<close>

definition trimmed :: "string \<Rightarrow> string" where
  "trimmed f = take 2 f @ rev (dropWhile (\<lambda>c. c = CHR ''0'') (rev (drop 2 f)))"

lemma trimmed_eq:
  "trimmed f = take (length f - length (takeWhile (\<lambda>c. c = CHR ''0'') (rev (drop 2 f)))) f"
proof -
  let ?z = "takeWhile (\<lambda>c. c = CHR ''0'') (rev (drop 2 f))"
  have d: "drop 2 f = rev (dropWhile (\<lambda>c. c = CHR ''0'') (rev (drop 2 f))) @ rev ?z"
    by (metis rev_append rev_rev_ident takeWhile_dropWhile_id)
  have "f = trimmed f @ rev ?z"
    unfolding trimmed_def append_assoc d [symmetric] by simp
  then show ?thesis by (metis append_eq_conv_conj diff_add_inverse2 length_append length_rev)
qed

lemma trimmed_zeros:
  "f = trimmed f @ replicate (length f - length (trimmed f)) CHR ''0''"
proof -
  let ?z = "takeWhile (\<lambda>c. c = CHR ''0'') (rev (drop 2 f))"
  have d: "drop 2 f = rev (dropWhile (\<lambda>c. c = CHR ''0'') (rev (drop 2 f))) @ rev ?z"
    by (metis rev_append rev_rev_ident takeWhile_dropWhile_id)
  then have f: "f = trimmed f @ rev ?z"
    unfolding trimmed_def append_assoc d [symmetric] by simp
  have "rev ?z = replicate (length ?z) CHR ''0''"
    by (rule replicate_eqI) (auto dest: set_takeWhileD)
  then show ?thesis using f by (metis add_diff_cancel_left' length_append length_rev)
qed

lemma FormatMoney_eq:
  defines "fraction \<equiv> \<lambda>n :: int. pad_zeros 8 (decimal (nat (\<bar>n\<bar> mod COIN)))"
  shows "FormatMoney n =
    Some ((if n < 0 then ''-'' else []) @ decimal (nat (\<bar>n\<bar> div COIN)) @ ''.'' @ trimmed (fraction n))"
    and "length (fraction n) = 8" "list_all isdigit (fraction n)" "atoi64 (fraction n) = \<bar>n\<bar> mod COIN"
proof -
  have r: "0 \<le> \<bar>n\<bar> mod COIN" "\<bar>n\<bar> mod COIN < 10 ^ 8" by (simp_all add: COIN_def)
  have "length (decimal (nat (\<bar>n\<bar> mod COIN))) \<le> 8"
    using r decimal_length [of "nat (\<bar>n\<bar> mod COIN)" 7] by (simp add: nat_less_iff)
  then have p: "length (fraction n) = 8" "list_all isdigit (fraction n)" "atoi64 (fraction n) = \<bar>n\<bar> mod COIN"
    using pad_zeros [of "decimal (nat (\<bar>n\<bar> mod COIN))" 8] decimal_text r by (simp_all add: fraction_def)
  then show "length (fraction n) = 8" "list_all isdigit (fraction n)" "atoi64 (fraction n) = \<bar>n\<bar> mod COIN" .
  let ?w = "decimal (nat (\<bar>n\<bar> div COIN))"
  let ?k = "length (takeWhile (\<lambda>c. c = CHR ''0'') (rev (drop 2 (fraction n))))"
  have a: "(if n > 0 then n else - n) = \<bar>n\<bar>" by simp
  have "?k \<le> length (rev (drop 2 (fraction n)))" by (rule length_takeWhile_le)
  then have k: "?k \<le> 6" using p(1) by simp
  define str where "str = ?w @ CHR ''.'' # fraction n"
  have str: "?w @ ''.'' @ pad_zeros 8 (decimal (nat (\<bar>n\<bar> mod COIN))) = str" by (simp add: str_def fraction_def)
  have "trim_loop str (int (length str) - 1) 0 = Some ?k"
    using trim_loop_fraction [OF p(2), of 7 ?w 0] p(1) by (simp add: str_def)
  moreover have "take (length str - ?k) str = ?w @ ''.'' @ trimmed (fraction n)"
    using k p(1) take_Suc_Cons [of "8 - ?k" "CHR ''.''" "fraction n"]
    by (simp add: str_def trimmed_eq Suc_diff_le [symmetric] del: take_Suc_Cons)
  ultimately show "FormatMoney n = Some ((if n < 0 then ''-'' else []) @ ?w @ ''.'' @ trimmed (fraction n))"
    unfolding FormatMoney_def a Let_def str by simp
qed

subsection \<open>Reading an amount back\<close>

lemma parse_units_digits:
  assumes "list_all isdigit f" "length f \<le> Suc k" "rest = [] \<or> isspace (hd rest)"
  shows "parse_units (10 ^ k) u (f @ rest) = (u + 10 ^ (Suc k - length f) * atoi64 f, rest)"
  using assms
proof (induction f arbitrary: k u)
  case Nil
  then show ?case by (cases rest) (auto simp: atoi64_def dest: space_plain)
next
  case (Cons c f)
  have v: "atoi64 (c # f) = digit_value c * 10 ^ length f + atoi64 f"
    using atoi64_append [of "[c]" f] by (simp add: atoi64_def)
  show ?case
  proof (cases k)
    case 0
    then have "f = []" using Cons.prems by simp
    then show ?thesis using Cons.prems 0 by (cases rest) (auto simp: atoi64_def)
  next
    case (Suc m)
    then have "(10 :: int) ^ k div 10 = 10 ^ m" by simp
    then have "parse_units (10 ^ k) u ((c # f) @ rest) =
        (u + 10 ^ k * digit_value c + 10 ^ (Suc m - length f) * atoi64 f, rest)"
      using Cons Suc by simp
    moreover have "(10 :: int) ^ (Suc m - length f) * 10 ^ length f = 10 ^ k"
      using Cons.prems Suc by (simp flip: power_add)
    ultimately show ?thesis using Suc by (simp add: v distrib_left mult.assoc)
  qed
qed

lemma parse_whole_digits:
  assumes "list_all isdigit w"
  shows "parse_whole acc (w @ CHR ''.'' # p) =
    (case parse_units (CENT * 10) 0 p of (u, p) \<Rightarrow> Some (acc @ w, u, p))"
  using assms by (induction w arbitrary: acc) (auto dest: digit_plain)

lemma parse_money_text:
  assumes "list_all isdigit w" "w \<noteq> []" "length w \<le> 10" "list_all isdigit f" "length f \<le> 8"
    and "list_all isspace a" "list_all isspace b"
  shows "ParseMoney (a @ w @ ''.'' @ f @ b) = Some (atoi64 w * COIN + 10 ^ (8 - length f) * atoi64 f)"
proof -
  have "\<not> isspace (hd w)" using assms(1,2) digit_plain by (cases w) auto
  then have d: "dropWhile isspace (a @ w @ ''.'' @ f @ b) = w @ CHR ''.'' # f @ b"
    using assms(2,6) by (cases w) (auto simp: dropWhile_append list_all_iff dropWhile_eq_Nil_conv)
  have "b = [] \<or> isspace (hd b)" using assms(7) by (cases b) auto
  then have u: "parse_units (CENT * 10) 0 (f @ b) = (10 ^ (8 - length f) * atoi64 f, b)"
    using parse_units_digits [of f 7 b 0] assms(4,5) by (simp add: CENT_def)
  have "10 ^ (8 - length f) * atoi64 f \<le> 10 ^ (8 - length f) * 10 ^ length f"
    using atoi64_bounds [OF assms(4)] by (intro mult_left_mono) auto
  also have "\<dots> = COIN" using assms(5) by (simp add: COIN_def flip: power_add)
  finally show ?thesis
    using assms(3,7) atoi64_bounds [OF assms(4)]
    unfolding ParseMoney_def d parse_whole_digits [OF assms(1)] u by (simp add: not_less)
qed

subsection \<open>Properties\<close>

text \<open>C27. The loop that trims the text of an amount always ends inside the string: every amount has a text, the sign,
  the coins, a point and the fraction without the zeros at its end, of which two digits always stay.\<close>

theorem format_money_returns:
  "\<exists>f. FormatMoney n = Some ((if n < 0 then ''-'' else []) @ decimal (nat (\<bar>n\<bar> div COIN)) @ ''.'' @ f) \<and>
     2 \<le> length f \<and> length f \<le> 8 \<and> list_all isdigit f \<and>
     atoi64 f * 10 ^ (8 - length f) = \<bar>n\<bar> mod COIN \<and> (length f = 2 \<or> 0 < digit_value (last f))"
proof -
  let ?p = "pad_zeros 8 (decimal (nat (\<bar>n\<bar> mod COIN)))"
  let ?f = "trimmed ?p"
  note p = FormatMoney_eq [of n]
  have l: "2 \<le> length ?f" "length ?f \<le> 8" using p(2) by (simp add: trimmed_def, simp add: trimmed_eq)
  then have z: "?p = ?f @ replicate (8 - length ?f) CHR ''0''" using trimmed_zeros [of ?p] p(2) by simp
  then have d: "list_all isdigit ?f" using p(3) by (metis list_all_append)
  moreover have "atoi64 ?f * 10 ^ (8 - length ?f) = \<bar>n\<bar> mod COIN"
    using p(4) by (subst (asm) z) (simp add: atoi64_append)
  moreover have "length ?f = 2 \<or> 0 < digit_value (last ?f)"
  proof (cases "dropWhile (\<lambda>c. c = CHR ''0'') (rev (drop 2 ?p))")
    case Nil
    then show ?thesis using p(2) by (simp add: trimmed_def)
  next
    case (Cons c cs)
    then have "c \<noteq> CHR ''0''" by (metis (mono_tags, lifting) hd_dropWhile list.distinct(1) list.sel(1))
    moreover have "last ?f = c" "isdigit c" using d by (simp_all add: trimmed_def Cons)
    ultimately show ?thesis using digit_positive by simp
  qed
  ultimately show ?thesis using p(1) l by blast
qed

text \<open>C28. An amount below ten billion coins is read back from its text, with any spaces around it.\<close>

theorem money_roundtrip:
  assumes "0 \<le> n" "n < 10 ^ 18" "list_all isspace a" "list_all isspace b"
  shows "\<exists>s. FormatMoney n = Some s \<and> ParseMoney (a @ s @ b) = Some n"
proof -
  let ?p = "pad_zeros 8 (decimal (nat (n mod COIN)))"
  have n: "\<bar>n\<bar> = n" "(n < 0) = False" using assms(1) by simp_all
  note p = FormatMoney_eq [of n, unfolded n if_False append_Nil]
  have l: "length (trimmed ?p) \<le> 8" using p(2) by (simp add: trimmed_eq)
  then have z: "?p = trimmed ?p @ replicate (8 - length (trimmed ?p)) CHR ''0''" using trimmed_zeros [of ?p] p(2) by simp
  then have f: "list_all isdigit (trimmed ?p)" using p(3) by (metis list_all_append)
  have v: "atoi64 (trimmed ?p) * 10 ^ (8 - length (trimmed ?p)) = n mod COIN"
    using p(4) by (subst (asm) z) (simp add: atoi64_append)
  have "nat (n div COIN) < 10 ^ Suc 9" using assms(1,2) by (simp add: COIN_def nat_less_iff div_less_iff_less_mult)
  then have w: "length (decimal (nat (n div COIN))) \<le> 10" using decimal_length by fastforce
  have "atoi64 (decimal (nat (n div COIN))) = n div COIN"
    using decimal_text [of "nat (n div COIN)"] assms(1) by (simp add: COIN_def pos_imp_zdiv_nonneg_iff)
  moreover have "n div COIN * COIN + n mod COIN = n" by simp
  ultimately have "ParseMoney (a @ (decimal (nat (n div COIN)) @ ''.'' @ trimmed ?p) @ b) = Some n"
    using parse_money_text [of "decimal (nat (n div COIN))" "trimmed ?p" a b] decimal_text [of "nat (n div COIN)"]
      w f l assms(3,4) v by (simp add: mult.commute)
  then show ?thesis using p(1) by blast
qed

theorem money_roundtrip_witness:
  "\<exists>s. FormatMoney 1234567890 = Some s \<and> ParseMoney ('' '' @ s @ []) = Some 1234567890"
  by (rule money_roundtrip) (simp_all add: isspace_def char_code_def)

end
