(* ===== verification/Nickname_Rules.thy ===== *)
theory Nickname_Rules
  imports NicknameOp Nickname_Info Kubu_Money
begin

text \<open>
  The rules that the mempool and the block share: \<^verbatim>\<open>src/src/validation.cpp\<close>, from \<^verbatim>\<open>ParseNicknameOpScript\<close> to
  \<^verbatim>\<open>FindUniqueBondOutput\<close>. The hash functions, the address prefixes of the network, the check of a
  curve point and the command line options are the fields of a context.
\<close>

record NicknameContext =
  cx_Hash :: hasher
  cx_prefixes :: Base58Prefixes
  cx_Hash160 :: "byte list \<Rightarrow> uint160"
  cx_SHA256 :: hasher
  cx_pubkey_parse :: "byte list \<Rightarrow> bool"
  cx_options :: NicknameOptions

subsection \<open>The operation of a transaction\<close>

definition ParseNicknameOpScript :: "NicknameContext \<Rightarrow> CScript \<Rightarrow> NicknameOperation option result" where
  "ParseNicknameOpScript cx script =
     (case GetOp2 script of
        None \<Rightarrow> Inr None
      | Some (opcode, _, pc) \<Rightarrow>
          if opcode \<noteq> OP_RETURN then Inr None
          else case GetOp2 pc of
              None \<Rightarrow> Inr None
            | Some (opcode, pushed, pc) \<Rightarrow>
                if pc \<noteq> [] then Inr None
                else if length pushed < length KUBU_NICKNAME_MAGIC \<or>
                        take (length KUBU_NICKNAME_MAGIC) pushed \<noteq> KUBU_NICKNAME_MAGIC then Inr None
                else (case ExtractNicknameOperation (cx_Hash cx) (cx_prefixes cx) script of
                        Inl reason \<Rightarrow>
                          Inl (if reason = [] then ''failed to decode nickname operation payload'' else reason)
                      | Inr operation \<Rightarrow> Inr (Some operation)))"

text \<open>The loop over the outputs, with \<^verbatim>\<open>operationOut\<close> and \<^verbatim>\<open>hasNicknameOp\<close> as one optional value.\<close>

fun extract_from_outputs ::
  "NicknameContext \<Rightarrow> NicknameOperation option \<Rightarrow> CTxOut list \<Rightarrow> NicknameOperation option result" where
  "extract_from_outputs cx found [] = Inr found"
| "extract_from_outputs cx found (output # outputs) =
     rbind (ParseNicknameOpScript cx (scriptPubKey output)) (\<lambda>candidate.
       case candidate of
         None \<Rightarrow> extract_from_outputs cx found outputs
       | Some operation \<Rightarrow>
           (if found \<noteq> None then Inl ''transaction contains multiple nickname operations''
            else extract_from_outputs cx (Some operation) outputs))"

definition ExtractNicknameOperationFromTx ::
  "NicknameContext \<Rightarrow> CTransaction \<Rightarrow> NicknameOperation option result" where
  "ExtractNicknameOperationFromTx cx tx = extract_from_outputs cx None (vout tx)"

definition IsMutableNicknameStatus :: "Status \<Rightarrow> bool" where
  "IsMutableNicknameStatus status \<longleftrightarrow> status = ACTIVE \<or> status = EXPIRED_GRACE"

subsection \<open>Authorisation by the owner\<close>

definition pubkey_usable :: "NicknameContext \<Rightarrow> byte list \<Rightarrow> bool" where
  "pubkey_usable cx bytes \<longleftrightarrow>
     PubKey_IsFullyValid (cx_pubkey_parse cx) (CPubKey bytes) \<and> PubKey_IsCompressed (CPubKey bytes)"

definition owner_scripts :: "NicknameContext \<Rightarrow> byte list \<Rightarrow> CScript list" where
  "owner_scripts cx ownerPubKeyBytes =
     (let ownerPubKey = CPubKey ownerPubKeyBytes;
          ownerP2PK = GetScriptForRawPubKey ownerPubKey;
          ownerP2PKH = GetScriptForDestination (CKeyID (PubKey_GetID (cx_Hash160 cx) ownerPubKey));
          ownerP2WPKH = GetScriptForWitness (cx_Hash160 cx) (cx_SHA256 cx) ownerP2PKH;
          ownerP2SHP2WPKH = GetScriptForDestination (CScriptID (cx_Hash160 cx ownerP2WPKH))
      in [ownerP2PK, ownerP2PKH, ownerP2WPKH, ownerP2SHP2WPKH])"

definition TxHasOwnerAuthorizationInput ::
  "NicknameContext \<Rightarrow> CTransaction \<Rightarrow> CTxUndo option \<Rightarrow> byte list \<Rightarrow> unit result" where
  "TxHasOwnerAuthorizationInput cx tx txundo ownerPubKeyBytes =
     (case txundo of
        None \<Rightarrow> Inl ''missing undo context for owner authorization''
      | Some undo \<Rightarrow>
          rbind (require (length ownerPubKeyBytes = COMPRESSED_SIZE) ''owner pubkey must be compressed'') (\<lambda>_.
          rbind (require (pubkey_usable cx ownerPubKeyBytes) ''owner pubkey is invalid'') (\<lambda>_.
          rbind (require (length (vprevout undo) = length (vin tx)) ''owner authorization context mismatch'') (\<lambda>_.
            require (list_ex (\<lambda>prevoutUndo.
                scriptPubKey (txout prevoutUndo) \<in> set (owner_scripts cx ownerPubKeyBytes)) (vprevout undo))
              ''transaction does not spend an output controlled by nickname owner''))))"

text \<open>The variant of the mempool reads the outputs from the coins view, \<^verbatim>\<open>view.AccessCoins\<close>.\<close>

type_synonym coins_view = "uint256 \<Rightarrow> CCoins option"

definition spent_script :: "coins_view \<Rightarrow> CTxIn \<Rightarrow> CScript option" where
  "spent_script view txin =
     (case view (out_hash (prevout txin)) of
        None \<Rightarrow> None
      | Some coins \<Rightarrow>
          let n = unat (out_n (prevout txin)) in
          if n \<ge> length (coins_vout coins) \<or> \<not> IsAvailable coins n then None
          else Some (scriptPubKey (coins_vout coins ! n)))"

definition TxHasOwnerAuthorizationInputFromView ::
  "NicknameContext \<Rightarrow> CTransaction \<Rightarrow> coins_view \<Rightarrow> byte list \<Rightarrow> unit result" where
  "TxHasOwnerAuthorizationInputFromView cx tx view ownerPubKeyBytes =
     rbind (require (length ownerPubKeyBytes = COMPRESSED_SIZE) ''owner pubkey must be compressed'') (\<lambda>_.
     rbind (require (pubkey_usable cx ownerPubKeyBytes) ''owner pubkey is invalid'') (\<lambda>_.
       require (list_ex (\<lambda>txin. case spent_script view txin of
             None \<Rightarrow> False
           | Some script \<Rightarrow> script \<in> set (owner_scripts cx ownerPubKeyBytes)) (vin tx))
         ''transaction does not spend an output controlled by nickname owner''))"

subsection \<open>Fees and bonds\<close>

definition GetRequiredNicknameFee :: "NicknameOperation \<Rightarrow> int \<Rightarrow> CAmount option" where
  "GetRequiredNicknameFee operation pricingMultiplierPermille =
     (case op_type operation of
        REGISTER \<Rightarrow> Some (registrationFee (GetPricing (length (op_nickname operation)) pricingMultiplierPermille))
      | RENEW \<Rightarrow> Some 0
      | UPDATE \<Rightarrow> Some 0
      | TRANSFER \<Rightarrow> Some 0
      | RELEASE \<Rightarrow> Some 0
      | CLAIM_BOND \<Rightarrow> Some 0
      | NONE \<Rightarrow> Some 0
      | UNNAMED b \<Rightarrow> None)"

text \<open>The fee check that follows it in both callers, with its message.\<close>

definition money_text :: "CAmount \<Rightarrow> string" where
  "money_text n = (case FormatMoney n of None \<Rightarrow> [] | Some s \<Rightarrow> s)"

definition require_fee :: "NicknameOperation \<Rightarrow> int \<Rightarrow> CAmount \<Rightarrow> unit result" where
  "require_fee operation pricingMultiplierPermille txFee =
     (case GetRequiredNicknameFee operation pricingMultiplierPermille of
        None \<Rightarrow> Inl ''unknown nickname operation type''
      | Some requiredFee \<Rightarrow>
          require (\<not> txFee < requiredFee)
            (''insufficient fee for '' @ NicknameOpTypeToString (op_type operation) @
             '': required='' @ money_text requiredFee @ '' actual='' @ money_text txFee))"

text \<open>The loop of \<^verbatim>\<open>FindUniqueBondOutput\<close>: position, what was found so far, remaining outputs.\<close>

fun find_bond ::
  "CScript \<Rightarrow> CAmount \<Rightarrow> 32 word \<Rightarrow> 32 word option \<Rightarrow> CTxOut list \<Rightarrow> 32 word result" where
  "find_bond expectedScriptPubKey expectedAmount i found [] =
     (case found of None \<Rightarrow> Inl ''transaction is missing required nickname bond output''
      | Some foundIndex \<Rightarrow> Inr foundIndex)"
| "find_bond expectedScriptPubKey expectedAmount i found (output # outputs) =
     (if nValue output \<noteq> expectedAmount \<or> scriptPubKey output \<noteq> expectedScriptPubKey
      then find_bond expectedScriptPubKey expectedAmount (i + 1) found outputs
      else if found \<noteq> None then Inl ''transaction contains multiple matching nickname bond outputs''
      else find_bond expectedScriptPubKey expectedAmount (i + 1) (Some i) outputs)"

definition FindUniqueBondOutput :: "CTransaction \<Rightarrow> CScript \<Rightarrow> CAmount \<Rightarrow> 32 word result" where
  "FindUniqueBondOutput tx expectedScriptPubKey expectedAmount =
     find_bond expectedScriptPubKey expectedAmount 0 None (vout tx)"

text \<open>
  The emplacement of a spent bond into \<^verbatim>\<open>spentBondOutpoints\<close>. Only membership, size and the value of a key of
  this map are used, so it is a list of pairs.
\<close>

type_synonym spent_bonds = "(string \<times> COutPoint) list"

definition emplace_spent :: "string \<Rightarrow> COutPoint \<Rightarrow> spent_bonds \<Rightarrow> spent_bonds result" where
  "emplace_spent nickname outpoint spent =
     (case map_of spent nickname of
        None \<Rightarrow> Inr (spent @ [(nickname, outpoint)])
      | Some present \<Rightarrow>
          if present \<noteq> outpoint then Inl ''transaction spends multiple nickname bond outpoints''
          else Inr spent)"

text \<open>The three conditions on the spent bonds that precede the \<^verbatim>\<open>switch\<close> on the type of the operation.\<close>

definition require_own_bond :: "NicknameOperation \<Rightarrow> spent_bonds \<Rightarrow> unit result" where
  "require_own_bond operation spent =
     rbind (require (\<not> length spent > 1)
       ''nickname operation transaction cannot spend bond outpoints for multiple nicknames'') (\<lambda>_.
     require (\<not> (spent \<noteq> [] \<and> map_of spent (op_nickname operation) = None))
       ''nickname operation transaction spends bond outpoint for a different nickname'')"

definition spends_one :: "NicknameOperation \<Rightarrow> spent_bonds \<Rightarrow> bool" where
  "spends_one operation spent \<longleftrightarrow> \<not> (map_of spent (op_nickname operation) = None \<or> length spent \<noteq> 1)"

subsection \<open>What the helpers accept\<close>

text \<open>An operation that a script can carry.\<close>

definition operation_ok :: "NicknameOperation \<Rightarrow> bool" where
  "operation_ok x \<longleftrightarrow>
     valid_nickname (op_nickname x) \<and> op_type x \<in> {REGISTER, UPDATE, TRANSFER, RENEW, RELEASE, CLAIM_BOND} \<and>
     (op_type x = REGISTER \<longrightarrow> length (ownerPubKey x) = COMPRESSED_SIZE) \<and>
     (op_type x = TRANSFER \<longrightarrow> length (newOwnerPubKey x) = COMPRESSED_SIZE)"

lemma Extract_operation_ok:
  assumes "ExtractNicknameOperation Hash P script = Inr y"
  shows "operation_ok y"
proof -
  obtain b name r where v: "valid_nickname name"
    and x: "extract_fields Hash P (empty_operation\<lparr>op_type := b, op_nickname := name\<rparr>) r = Inr y"
    using assms by (auto simp: ExtractNicknameOperation_def parse_payload_def rbind_Inr_iff split: option.splits if_splits)
  then show ?thesis
    by (cases b)
      (auto simp: extract_fields_def rbind_Inr_iff rbind_require_iff operation_ok_def empty_operation_def)
qed

lemma Parse_Some: "ParseNicknameOpScript cx script = Inr (Some y) \<Longrightarrow> operation_ok y"
  using Extract_operation_ok [of "cx_Hash cx" "cx_prefixes cx" script y]
  by (auto simp: ParseNicknameOpScript_def split: option.splits if_splits sum.splits)

lemma extract_outputs_Some:
  "extract_from_outputs cx found outs = Inr (Some y) \<Longrightarrow> found = Some y \<or> operation_ok y"
proof (induction outs arbitrary: found)
  case (Cons out outs)
  then obtain c where c: "ParseNicknameOpScript cx (scriptPubKey out) = Inr c" by (auto simp: rbind_Inr_iff)
  then show ?case using Cons.prems Cons.IH Parse_Some [of cx "scriptPubKey out"]
    by (cases c) (force split: if_splits)+
qed simp

lemma ExtractFromTx_ok: "ExtractNicknameOperationFromTx cx tx = Inr (Some y) \<Longrightarrow> operation_ok y"
  by (auto simp: ExtractNicknameOperationFromTx_def dest: extract_outputs_Some)

lemma operation_name: "operation_ok x \<Longrightarrow> NormalizeNickname (op_nickname x) = op_nickname x"
  by (simp add: operation_ok_def)

text \<open>A transaction that its owner can be held to: it spends an output of the owner's key.\<close>

definition owner_spends :: "NicknameContext \<Rightarrow> byte list \<Rightarrow> CScript list \<Rightarrow> bool" where
  "owner_spends cx key scripts \<longleftrightarrow>
     length key = COMPRESSED_SIZE \<and> pubkey_usable cx key \<and> (\<exists>s \<in> set scripts. s \<in> set (owner_scripts cx key))"

definition undo_scripts :: "CTxUndo \<Rightarrow> CScript list" where
  "undo_scripts undo = map (\<lambda>u. scriptPubKey (txout u)) (vprevout undo)"

definition authorized :: "NicknameContext \<Rightarrow> CTransaction \<Rightarrow> CTxUndo option \<Rightarrow> byte list \<Rightarrow> bool" where
  "authorized cx tx txundo key \<longleftrightarrow>
     (\<exists>undo. txundo = Some undo \<and> length (vprevout undo) = length (vin tx) \<and> owner_spends cx key (undo_scripts undo))"

lemma TxHasOwner_iff: "TxHasOwnerAuthorizationInput cx tx txundo key = Inr u \<longleftrightarrow> authorized cx tx txundo key"
proof (cases txundo)
  case (Some undo)
  then show ?thesis
    unfolding TxHasOwnerAuthorizationInput_def authorized_def owner_spends_def undo_scripts_def
    by (simp add: rbind_require_iff list_ex_iff) blast
qed (simp add: TxHasOwnerAuthorizationInput_def authorized_def)

lemma TxHasOwnerView_iff:
  "TxHasOwnerAuthorizationInputFromView cx tx view key = Inr u \<longleftrightarrow>
   owner_spends cx key (List.map_filter (spent_script view) (vin tx))"
proof -
  have "list_ex (\<lambda>txin. case spent_script view txin of None \<Rightarrow> False | Some s \<Rightarrow> s \<in> A) ins \<longleftrightarrow>
      (\<exists>s \<in> set (List.map_filter (spent_script view) ins). s \<in> A)" for A ins
    by (induction ins) (simp_all add: List.map_filter_def split: option.split)
  then show ?thesis
    unfolding TxHasOwnerAuthorizationInputFromView_def owner_spends_def by (simp add: rbind_require_iff)
qed

text \<open>The outputs of a transaction that are the bond looked for.\<close>

definition bond_matches :: "CTransaction \<Rightarrow> CScript \<Rightarrow> CAmount \<Rightarrow> nat list" where
  "bond_matches tx script amount =
     filter (\<lambda>i. nValue (vout tx ! i) = amount \<and> scriptPubKey (vout tx ! i) = script) [0..<length (vout tx)]"

lemma find_bond_eq:
  "find_bond script amount i found outs =
     (let ms = filter (\<lambda>j. nValue (outs ! j) = amount \<and> scriptPubKey (outs ! j) = script) [0..<length outs];
          all = (case found of None \<Rightarrow> [] | Some k \<Rightarrow> [k]) @ map (\<lambda>j. i + word_of_nat j) ms
      in case all of [] \<Rightarrow> Inl ''transaction is missing required nickname bond output''
       | [k] \<Rightarrow> Inr k
       | _ \<Rightarrow> Inl ''transaction contains multiple matching nickname bond outputs'')"
proof (induction outs arbitrary: i found)
  case Nil
  then show ?case by (simp split: option.splits)
next
  case (Cons out outs)
  let ?m = "\<lambda>outs j. nValue (outs ! j) = amount \<and> scriptPubKey (outs ! j) = script"
  have up: "[0..<length (out # outs)] = 0 # map Suc [0..<length outs]" by (simp add: map_Suc_upt upt_conv_Cons del: upt_Suc)
  have ms: "filter (?m (out # outs)) [0..<length (out # outs)] =
      (if ?m (out # outs) 0 then [0] else []) @ map Suc (filter (?m outs) [0..<length outs])"
    unfolding up by (simp add: filter_map comp_def)
  have sh: "map (\<lambda>j. i + word_of_nat j) (map Suc js) = map (\<lambda>j. i + 1 + word_of_nat j) js" for js
    by (simp add: add.assoc)
  show ?case unfolding ms map_append sh
    using Cons.IH [of "i + 1" found] Cons.IH [of "i + 1" "Some i"]
    by (auto simp: Let_def split: option.splits list.splits)
qed

lemma FindUniqueBondOutput_eq:
  "FindUniqueBondOutput tx script amount =
     (case bond_matches tx script amount of
        [] \<Rightarrow> Inl ''transaction is missing required nickname bond output''
      | [i] \<Rightarrow> Inr (word_of_nat i)
      | _ \<Rightarrow> Inl ''transaction contains multiple matching nickname bond outputs'')"
  unfolding FindUniqueBondOutput_def find_bond_eq bond_matches_def Let_def by (simp split: list.splits)

lemma FindUniqueBondOutput_Inr:
  assumes "FindUniqueBondOutput tx script amount = Inr v"
  obtains i where "i < length (vout tx)" "v = word_of_nat i" "nValue (vout tx ! i) = amount"
    "scriptPubKey (vout tx ! i) = script"
proof -
  obtain i where "bond_matches tx script amount = [i]" "v = word_of_nat i"
    using assms by (auto simp: FindUniqueBondOutput_eq split: list.splits)
  then have "i \<in> set (bond_matches tx script amount)" "v = word_of_nat i" by simp_all
  then show thesis using that [of i] unfolding bond_matches_def by simp
qed

lemma emplace_spent_Inr:
  "emplace_spent n p spent = Inr spent' \<Longrightarrow>
   map_of spent' n = Some p \<and> (\<forall>m. m \<noteq> n \<longrightarrow> map_of spent' m = map_of spent m) \<and>
   (distinct (map fst spent) \<longrightarrow> distinct (map fst spent'))"
  unfolding emplace_spent_def
  by (cases "map_of spent n") (auto simp: map_add_def map_of_eq_None_iff [symmetric] image_iff [symmetric] split: option.splits if_splits)

subsection \<open>Scripts that are built\<close>

lemma Parse_built:
  assumes "sendable (cx_Hash cx) (cx_prefixes cx) x"
  shows "ParseNicknameOpScript cx (push_data (push_opcode [] OP_RETURN) (op_payload (cx_Hash cx) (cx_prefixes cx) x)) =
    Inr (Some (received (cx_Hash cx) (cx_prefixes cx) x))"
proof -
  let ?p = "op_payload (cx_Hash cx) (cx_prefixes cx) x"
  have "length ?p < 2 ^ 32" using op_payload_length [OF assms] by simp
  then obtain opcode where g: "GetOp2 (push_data [] ?p @ []) = Some (opcode, ?p, [])" using GetOp2_push by blast
  have m: "take (length KUBU_NICKNAME_MAGIC) ?p = KUBU_NICKNAME_MAGIC" "\<not> length ?p < length KUBU_NICKNAME_MAGIC"
    by (simp_all add: op_payload_def)
  have "ExtractNicknameOperation (cx_Hash cx) (cx_prefixes cx) (push_data (push_opcode [] OP_RETURN) ?p) =
      Inr (received (cx_Hash cx) (cx_prefixes cx) x)"
    using assms by (intro Extract_Build) (simp add: BuildNicknameOpScript_iff)
  then show ?thesis using g m
    unfolding push_data_append [of "push_opcode [] OP_RETURN"]
    by (simp add: ParseNicknameOpScript_def GetOp2_OP_RETURN)
qed

lemma Parse_P2PK:
  assumes "length key = COMPRESSED_SIZE"
  shows "ParseNicknameOpScript cx (GetScriptForRawPubKey key) = Inr None"
proof -
  have "GetScriptForRawPubKey key = byte (length key) # key @ [byte OP_CHECKSIG]"
    using assms by (simp add: GetScriptForRawPubKey_def push_short push_opcode_def COMPRESSED_SIZE_def)
  then have "GetOp2 (GetScriptForRawPubKey key) = Some (33, key, [byte OP_CHECKSIG])"
    using GetOp2_short [of key "[byte OP_CHECKSIG]"] assms by (simp add: COMPRESSED_SIZE_def)
  then show ?thesis by (simp add: ParseNicknameOpScript_def OP_RETURN_def)
qed

end
