(* ===== verification/Nickname_DB.thy ===== *)
theory Nickname_DB
  imports Nickname_Info "HOL-Library.Mapping"
begin

text \<open>
  The nickname database: \<^verbatim>\<open>src/src/nicknamedb.cpp\<close>. The keys of the store carry a one-letter prefix
  per kind of entry; the record of the database has one ordered map per prefix. A batch is the list
  of its writes and erases, applied in order and at once, so every read inside an operation sees
  the state before the batch. The hash of a public key is an argument.
\<close>

record NicknamePricingState =
  lastProcessedHeight :: int
  rollingRegistrations :: int
  multiplierPermille :: int

definition empty_pricing_state :: NicknamePricingState where
  "empty_pricing_state = \<lparr>lastProcessedHeight = - 1, rollingRegistrations = 0,
     multiplierPermille = DEFAULT_PRICING_MULTIPLIER_PERMILLE\<rparr>"

record NicknamePricingUndoEntry =
  pricing_existedBefore :: bool
  previousState :: NicknamePricingState

type_synonym key_hash = "byte list \<Rightarrow> uint160"

record NicknameStateDB =
  db_nickname :: "(string, NicknameInfo) mapping"
  db_undo :: "(uint256, NicknameUndoEntry list) mapping"
  db_bond :: "(COutPoint, string) mapping"
  db_owner :: "(uint160 \<times> string, bool) mapping"
  db_ready :: "bool option"
  db_pricing :: "NicknamePricingState option"
  db_pricing_undo :: "(uint256, NicknamePricingUndoEntry) mapping"
  db_bond_undo :: "(uint256, NicknameBondIndexUndoEntry list) mapping"
  db_reg_count :: "(int, nat) mapping"

definition empty_db :: NicknameStateDB where
  "empty_db = \<lparr>db_nickname = Mapping.empty, db_undo = Mapping.empty, db_bond = Mapping.empty,
     db_owner = Mapping.empty, db_ready = None, db_pricing = None, db_pricing_undo = Mapping.empty,
     db_bond_undo = Mapping.empty, db_reg_count = Mapping.empty\<rparr>"

subsection \<open>Batches\<close>

datatype DbOp =
  WriteN string NicknameInfo | EraseN string
| WriteU uint256 "NicknameUndoEntry list" | EraseU uint256
| WriteB COutPoint string | EraseB COutPoint
| WriteO "uint160 \<times> string" bool | EraseO "uint160 \<times> string"
| WriteReady bool
| WritePricing NicknamePricingState | ErasePricing
| WriteP uint256 NicknamePricingUndoEntry | EraseP uint256
| WriteQ uint256 "NicknameBondIndexUndoEntry list" | EraseQ uint256
| WriteR int nat | EraseR int

fun apply_op :: "DbOp \<Rightarrow> NicknameStateDB \<Rightarrow> NicknameStateDB" where
  "apply_op (WriteN k v) db = db\<lparr>db_nickname := Mapping.update k v (db_nickname db)\<rparr>"
| "apply_op (EraseN k) db = db\<lparr>db_nickname := Mapping.delete k (db_nickname db)\<rparr>"
| "apply_op (WriteU k v) db = db\<lparr>db_undo := Mapping.update k v (db_undo db)\<rparr>"
| "apply_op (EraseU k) db = db\<lparr>db_undo := Mapping.delete k (db_undo db)\<rparr>"
| "apply_op (WriteB k v) db = db\<lparr>db_bond := Mapping.update k v (db_bond db)\<rparr>"
| "apply_op (EraseB k) db = db\<lparr>db_bond := Mapping.delete k (db_bond db)\<rparr>"
| "apply_op (WriteO k v) db = db\<lparr>db_owner := Mapping.update k v (db_owner db)\<rparr>"
| "apply_op (EraseO k) db = db\<lparr>db_owner := Mapping.delete k (db_owner db)\<rparr>"
| "apply_op (WriteReady v) db = db\<lparr>db_ready := Some v\<rparr>"
| "apply_op (WritePricing v) db = db\<lparr>db_pricing := Some v\<rparr>"
| "apply_op ErasePricing db = db\<lparr>db_pricing := None\<rparr>"
| "apply_op (WriteP k v) db = db\<lparr>db_pricing_undo := Mapping.update k v (db_pricing_undo db)\<rparr>"
| "apply_op (EraseP k) db = db\<lparr>db_pricing_undo := Mapping.delete k (db_pricing_undo db)\<rparr>"
| "apply_op (WriteQ k v) db = db\<lparr>db_bond_undo := Mapping.update k v (db_bond_undo db)\<rparr>"
| "apply_op (EraseQ k) db = db\<lparr>db_bond_undo := Mapping.delete k (db_bond_undo db)\<rparr>"
| "apply_op (WriteR k v) db = db\<lparr>db_reg_count := Mapping.update k v (db_reg_count db)\<rparr>"
| "apply_op (EraseR k) db = db\<lparr>db_reg_count := Mapping.delete k (db_reg_count db)\<rparr>"

definition WriteBatch :: "NicknameStateDB \<Rightarrow> DbOp list \<Rightarrow> NicknameStateDB" where
  "WriteBatch db batch = fold apply_op batch db"

subsection \<open>Index entries\<close>

definition NormalizeKeyName :: "string \<Rightarrow> string" where
  "NormalizeKeyName nickname = NormalizeNickname nickname"

definition TryGetOwnerKeyID :: "key_hash \<Rightarrow> NicknameInfo \<Rightarrow> uint160 option" where
  "TryGetOwnerKeyID Hash160 info =
     (if length (info_ownerPubKey info) \<noteq> COMPRESSED_SIZE then None
      else Some (Hash160 (info_ownerPubKey info)))"

definition EraseNicknameOwnerIndexEntry :: "key_hash \<Rightarrow> NicknameInfo \<Rightarrow> string \<Rightarrow> DbOp list" where
  "EraseNicknameOwnerIndexEntry Hash160 info normalizedNickname =
     (case TryGetOwnerKeyID Hash160 info of
        None \<Rightarrow> [] | Some ownerKeyID \<Rightarrow> [EraseO (ownerKeyID, normalizedNickname)])"

definition EraseNicknameBondIndexEntry :: "NicknameInfo \<Rightarrow> DbOp list" where
  "EraseNicknameBondIndexEntry info =
     (if HasBondOutpoint info then [EraseB (GetBondOutpoint info)] else [])"

definition WriteNicknameIndexEntries :: "key_hash \<Rightarrow> NicknameInfo \<Rightarrow> string \<Rightarrow> DbOp list" where
  "WriteNicknameIndexEntries Hash160 info normalizedNickname =
     (if HasBondOutpoint info then [WriteB (GetBondOutpoint info) normalizedNickname] else []) @
     (case TryGetOwnerKeyID Hash160 info of
        None \<Rightarrow> [] | Some ownerKeyID \<Rightarrow> [WriteO (ownerKeyID, normalizedNickname) True])"

definition EnsureOwnerIndexReady :: "key_hash \<Rightarrow> NicknameStateDB \<Rightarrow> NicknameStateDB" where
  "EnsureOwnerIndexReady Hash160 db =
     (if db_ready db = Some True then db
      else WriteBatch db
        (map EraseO (Mapping.ordered_keys (db_owner db)) @
         concat (map (\<lambda>n. case Mapping.lookup (db_nickname db) n of
             None \<Rightarrow> []
           | Some info \<Rightarrow>
               (case TryGetOwnerKeyID Hash160 info of
                  None \<Rightarrow> [] | Some ownerKeyID \<Rightarrow> [WriteO (ownerKeyID, n) True]))
           (Mapping.ordered_keys (db_nickname db))) @
         [WriteReady True]))"

subsection \<open>Pricing state\<close>

definition ReadNicknamePricingState :: "NicknameStateDB \<Rightarrow> NicknamePricingState \<times> bool" where
  "ReadNicknamePricingState db =
     (case db_pricing db of
        None \<Rightarrow> (empty_pricing_state, False)
      | Some st \<Rightarrow>
          (st\<lparr>multiplierPermille := ClampPricingMultiplierPermille (multiplierPermille st),
              rollingRegistrations := (if rollingRegistrations st < 0 then 0 else rollingRegistrations st)\<rparr>,
           True))"

definition ReadRegistrationCountAtHeight :: "NicknameStateDB \<Rightarrow> int \<Rightarrow> nat" where
  "ReadRegistrationCountAtHeight db height =
     (if height < 0 then 0
      else case Mapping.lookup (db_reg_count db) height of None \<Rightarrow> 0 | Some count \<Rightarrow> count)"

definition RebuildRollingRegistrations :: "NicknameStateDB \<Rightarrow> int \<Rightarrow> int" where
  "RebuildRollingRegistrations db tipHeight =
     (if tipHeight < 0 then 0
      else let start = max 0 (tipHeight - PRICING_WINDOW_BLOCKS + 1) in
        sum_list (map (\<lambda>height. int (ReadRegistrationCountAtHeight db height)) [start..tipHeight]))"

definition ComputeNextPricingState ::
  "NicknameStateDB \<Rightarrow> NicknamePricingState \<Rightarrow> int \<Rightarrow> nat \<Rightarrow> NicknamePricingState" where
  "ComputeNextPricingState db prev blockHeight registeredCount =
     (let rolling = (if lastProcessedHeight prev + 1 \<noteq> blockHeight
            then RebuildRollingRegistrations db (blockHeight - 1) else rollingRegistrations prev);
          droppedHeight = blockHeight - PRICING_WINDOW_BLOCKS;
          droppedCount = int (ReadRegistrationCountAtHeight db droppedHeight);
          rolling = max 0 (rolling - droppedCount + int registeredCount);
          mult = (if blockHeight > 0 \<and> blockHeight mod PRICING_EPOCH_BLOCKS = 0
            then ComputeNextPricingMultiplierPermille (multiplierPermille prev) rolling
            else multiplierPermille prev)
      in \<lparr>lastProcessedHeight = blockHeight, rollingRegistrations = rolling,
          multiplierPermille = ClampPricingMultiplierPermille mult\<rparr>)"

subsection \<open>Operations\<close>

definition ReadNickname :: "NicknameStateDB \<Rightarrow> string \<Rightarrow> NicknameInfo option" where
  "ReadNickname db nickname = Mapping.lookup (db_nickname db) (NormalizeKeyName nickname)"

definition upsert_ops :: "key_hash \<Rightarrow> NicknameStateDB \<Rightarrow> NicknameInfo \<Rightarrow> DbOp list" where
  "upsert_ops Hash160 db info =
     (let name = NormalizeKeyName (info_nickname info);
          normalizedInfo = info\<lparr>info_nickname := name\<rparr>
      in (case Mapping.lookup (db_nickname db) name of
            None \<Rightarrow> []
          | Some currentInfo \<Rightarrow>
              EraseNicknameBondIndexEntry currentInfo @
              EraseNicknameOwnerIndexEntry Hash160 currentInfo name) @
         [WriteN name normalizedInfo] @ WriteNicknameIndexEntries Hash160 normalizedInfo name)"

definition erase_ops :: "key_hash \<Rightarrow> NicknameStateDB \<Rightarrow> string \<Rightarrow> DbOp list" where
  "erase_ops Hash160 db nickname =
     (let normalized = NormalizeKeyName nickname
      in (case Mapping.lookup (db_nickname db) normalized of
            None \<Rightarrow> []
          | Some currentInfo \<Rightarrow>
              EraseNicknameBondIndexEntry currentInfo @
              EraseNicknameOwnerIndexEntry Hash160 currentInfo normalized) @
         [EraseN normalized])"

definition WriteNickname :: "key_hash \<Rightarrow> NicknameStateDB \<Rightarrow> NicknameInfo \<Rightarrow> NicknameStateDB" where
  "WriteNickname Hash160 db info = WriteBatch db (upsert_ops Hash160 db info)"

definition EraseNickname :: "key_hash \<Rightarrow> NicknameStateDB \<Rightarrow> string \<Rightarrow> NicknameStateDB" where
  "EraseNickname Hash160 db nickname = WriteBatch db (erase_ops Hash160 db nickname)"

text \<open>
  Keys are stored with the length of the name in front, so the store iterates over names by length
  first and then by their bytes.
\<close>

definition db_scan :: "string \<Rightarrow> string list \<Rightarrow> string list" where
  "db_scan start names =
     filter (\<lambda>n. (length start, start) \<le> (length n, n)) (sort_key (\<lambda>n. (length n, n)) names)"

definition ListNicknames :: "NicknameStateDB \<Rightarrow> string \<Rightarrow> nat \<Rightarrow> NicknameInfo list" where
  "ListNicknames db startNickname limit =
     take limit (List.map_filter (Mapping.lookup (db_nickname db))
       (db_scan (NormalizeKeyName startNickname) (Mapping.ordered_keys (db_nickname db))))"

definition owner_scan :: "NicknameStateDB \<Rightarrow> string \<Rightarrow> uint160 \<Rightarrow> NicknameInfo list" where
  "owner_scan db start ownerKeyID =
     List.map_filter (Mapping.lookup (db_nickname db))
       (db_scan start (map snd (filter (\<lambda>key. fst key = ownerKeyID) (Mapping.ordered_keys (db_owner db)))))"

definition ListNicknamesByOwnerKeyID ::
  "key_hash \<Rightarrow> NicknameStateDB \<Rightarrow> uint160 \<Rightarrow> string \<Rightarrow> nat \<Rightarrow> NicknameInfo list \<times> NicknameStateDB" where
  "ListNicknamesByOwnerKeyID Hash160 db ownerKeyID startNickname limit =
     (if limit = 0 then ([], db)
      else let db = EnsureOwnerIndexReady Hash160 db
        in (take limit (owner_scan db (NormalizeKeyName startNickname) ownerKeyID), db))"

text \<open>The argument \<^verbatim>\<open>ownerKeyIDs\<close> is the list of the elements of the set, in its order.\<close>

definition ListNicknamesForOwnerKeyIDs ::
  "key_hash \<Rightarrow> NicknameStateDB \<Rightarrow> uint160 list \<Rightarrow> string \<Rightarrow> nat \<Rightarrow> NicknameInfo list \<times> NicknameStateDB" where
  "ListNicknamesForOwnerKeyIDs Hash160 db ownerKeyIDs startNickname limit =
     (if limit = 0 \<or> ownerKeyIDs = [] then ([], db)
      else let db = EnsureOwnerIndexReady Hash160 db;
               found = concat (map (owner_scan db (NormalizeKeyName startNickname)) ownerKeyIDs);
               dedup = fold (\<lambda>info. Mapping.update (NormalizeKeyName (info_nickname info)) info)
                 found Mapping.empty
        in (take limit (List.map_filter (Mapping.lookup dedup) (Mapping.ordered_keys dedup)), db))"

definition ReadNicknameUndo :: "NicknameStateDB \<Rightarrow> uint256 \<Rightarrow> NicknameUndoEntry list option" where
  "ReadNicknameUndo db blockHash = Mapping.lookup (db_undo db) blockHash"

definition ReadNicknameBondIndexUndo ::
  "NicknameStateDB \<Rightarrow> uint256 \<Rightarrow> NicknameBondIndexUndoEntry list option" where
  "ReadNicknameBondIndexUndo db blockHash = Mapping.lookup (db_bond_undo db) blockHash"

definition ReadNicknameByBondOutpoint :: "NicknameStateDB \<Rightarrow> COutPoint \<Rightarrow> string option" where
  "ReadNicknameByBondOutpoint db outpoint = Mapping.lookup (db_bond db) outpoint"

definition ReadPricingMultiplierPermille :: "NicknameStateDB \<Rightarrow> int \<times> bool" where
  "ReadPricingMultiplierPermille db =
     (case ReadNicknamePricingState db of (st, found) \<Rightarrow> (multiplierPermille st, found))"

definition rememberBondIndexUndo :: "NicknameStateDB \<Rightarrow> COutPoint \<Rightarrow> NicknameBondIndexUndoEntry" where
  "rememberBondIndexUndo db outpoint =
     (case Mapping.lookup (db_bond db) outpoint of
        None \<Rightarrow> \<lparr>undo_outpoint = outpoint, bond_existedBefore = False, previousNickname = []\<rparr>
      | Some n \<Rightarrow> \<lparr>undo_outpoint = outpoint, bond_existedBefore = True, previousNickname = n\<rparr>)"

definition pricing_undo_entry :: "NicknameStateDB \<Rightarrow> NicknamePricingUndoEntry" where
  "pricing_undo_entry db =
     (case ReadNicknamePricingState db of (prev, had) \<Rightarrow>
        \<lparr>pricing_existedBefore = had, previousState = (if had then prev else empty_pricing_state)\<rparr>)"

definition WriteNicknameBatch ::
  "key_hash \<Rightarrow> NicknameStateDB \<Rightarrow> NicknameInfo list \<Rightarrow> string list \<Rightarrow> (COutPoint \<times> string) list \<Rightarrow>
   COutPoint list \<Rightarrow> uint256 \<Rightarrow> int \<Rightarrow> nat \<Rightarrow> NicknameUndoEntry list \<Rightarrow> NicknameStateDB" where
  "WriteNicknameBatch Hash160 db upserts erases bondIndexUpserts bondIndexErases blockHash
     blockHeight registeredCount undoEntries =
     WriteBatch db
       (concat (map (upsert_ops Hash160 db) upserts) @
        concat (map (erase_ops Hash160 db) erases) @
        [WriteU blockHash undoEntries] @
        map EraseB bondIndexErases @
        map (\<lambda>(outpoint, nickname). WriteB outpoint (NormalizeKeyName nickname)) bondIndexUpserts @
        [WriteQ blockHash (map (rememberBondIndexUndo db)
           (sort (remdups (bondIndexErases @ map fst bondIndexUpserts)))),
         WriteP blockHash (pricing_undo_entry db),
         WriteR blockHeight registeredCount,
         WritePricing (ComputeNextPricingState db (fst (ReadNicknamePricingState db))
           blockHeight registeredCount)])"

text \<open>The three parts of \<^verbatim>\<open>ApplyNicknameUndo\<close>: records, bond index, pricing state.\<close>

definition undo_erase_ops :: "key_hash \<Rightarrow> NicknameStateDB \<Rightarrow> NicknameUndoEntry \<Rightarrow> DbOp list" where
  "undo_erase_ops Hash160 db undo =
     (let normalized = NormalizeKeyName (undo_nickname undo) in
      case Mapping.lookup (db_nickname db) normalized of
        None \<Rightarrow> []
      | Some currentInfo \<Rightarrow>
          EraseNicknameBondIndexEntry currentInfo @
          EraseNicknameOwnerIndexEntry Hash160 currentInfo normalized)"

definition undo_restore_ops :: "key_hash \<Rightarrow> NicknameUndoEntry \<Rightarrow> DbOp list" where
  "undo_restore_ops Hash160 undo =
     (let normalized = NormalizeKeyName (undo_nickname undo) in
      if existedBefore undo then
        let restored = (previousInfo undo)\<lparr>info_nickname := normalized\<rparr>
        in WriteN normalized restored # WriteNicknameIndexEntries Hash160 restored normalized
      else [EraseN normalized])"

definition undo_bond_ops :: "NicknameBondIndexUndoEntry \<Rightarrow> DbOp" where
  "undo_bond_ops undo =
     (if bond_existedBefore undo then WriteB (undo_outpoint undo) (previousNickname undo)
      else EraseB (undo_outpoint undo))"

definition ApplyNicknameUndo ::
  "key_hash \<Rightarrow> NicknameStateDB \<Rightarrow> uint256 \<Rightarrow> int \<Rightarrow> NicknameUndoEntry list \<Rightarrow> NicknameStateDB" where
  "ApplyNicknameUndo Hash160 db blockHash blockHeight undoEntries =
     WriteBatch db
       (concat (map (undo_erase_ops Hash160 db) undoEntries) @
        concat (map (undo_restore_ops Hash160) (rev undoEntries)) @
        [EraseU blockHash, EraseR blockHeight] @
        (case ReadNicknameBondIndexUndo db blockHash of
           None \<Rightarrow> []
         | Some bondUndo \<Rightarrow> map undo_bond_ops bondUndo @ [EraseQ blockHash]) @
        (case Mapping.lookup (db_pricing_undo db) blockHash of
           None \<Rightarrow> []
         | Some undo \<Rightarrow>
             [if pricing_existedBefore undo then WritePricing (previousState undo) else ErasePricing,
              EraseP blockHash]))"

subsection \<open>The effect of a batch on one column\<close>

definition last_write :: "('op \<Rightarrow> ('k \<times> 'v option) option) \<Rightarrow> 'op list \<Rightarrow> 'k \<Rightarrow> 'v option option" where
  "last_write proj ops = map_of (rev (List.map_filter proj ops))"

lemma last_write_Nil [simp]: "last_write proj [] k = None"
  by (simp add: last_write_def List.map_filter_def)

lemma last_write_append:
  "last_write proj (xs @ ys) k =
   (case last_write proj ys k of None \<Rightarrow> last_write proj xs k | Some v \<Rightarrow> Some v)"
  by (simp add: last_write_def List.map_filter_def map_add_def split: option.splits)

lemma last_write_single:
  "last_write proj [x] k = (case proj x of None \<Rightarrow> None | Some (k', v) \<Rightarrow> if k = k' then Some v else None)"
  by (auto simp: last_write_def List.map_filter_def split: option.splits)

lemma last_write_Cons:
  "last_write proj (x # xs) k =
   (case last_write proj xs k of None \<Rightarrow> last_write proj [x] k | Some v \<Rightarrow> Some v)"
  using last_write_append [of proj "[x]" xs k] by simp

lemma last_write_None:
  assumes "\<And>x. x \<in> set xs \<Longrightarrow> last_write proj [x] k = None"
  shows "last_write proj xs k = None"
  using assms
proof (induction xs)
  case (Cons x xs)
  then show ?case using last_write_Cons [of proj x xs k] by simp
qed simp

lemma last_write_concat_None:
  "(\<And>x. x \<in> set xs \<Longrightarrow> last_write proj (f x) k = None) \<Longrightarrow> last_write proj (concat (map f xs)) k = None"
  by (induction xs) (simp_all add: last_write_append)

lemma last_write_concat_unique:
  assumes "x \<in> set xs" "distinct xs"
    and "\<And>y. y \<in> set xs \<Longrightarrow> y \<noteq> x \<Longrightarrow> last_write proj (f y) k = None"
  shows "last_write proj (concat (map f xs)) k = last_write proj (f x) k"
  using assms
proof (induction xs)
  case (Cons y ys)
  show ?case
  proof (cases "y = x")
    case True
    have "last_write proj (concat (map f ys)) k = None"
      using Cons.prems True by (intro last_write_concat_None) auto
    then show ?thesis by (simp add: last_write_append True)
  next
    case False
    then have "last_write proj (f y) k = None" using Cons.prems by auto
    moreover have "last_write proj (concat (map f ys)) k = last_write proj (f x) k"
      using Cons False by auto
    ultimately show ?thesis by (simp add: last_write_append split: option.splits)
  qed
qed simp

text \<open>
  The contract of a column: an operation changes at most the entry its projection names. A batch
  then leaves in each entry what the last operation on it wrote.
\<close>

locale db_column =
  fixes get :: "NicknameStateDB \<Rightarrow> 'k \<Rightarrow> 'v option"
    and proj :: "DbOp \<Rightarrow> ('k \<times> 'v option) option"
  assumes get_apply:
    "get (apply_op x db) = (case proj x of None \<Rightarrow> get db | Some (k, v) \<Rightarrow> (get db)(k := v))"
begin

lemma get_batch:
  "get (WriteBatch db ops) k = (case last_write proj ops k of None \<Rightarrow> get db k | Some v \<Rightarrow> v)"
proof (induction ops arbitrary: db)
  case (Cons x ops)
  show ?case
    using Cons [of "apply_op x db"]
    unfolding last_write_Cons [of proj x ops k] last_write_single [of proj x]
    by (auto simp: WriteBatch_def get_apply split: option.splits prod.splits)
qed (simp add: WriteBatch_def)

lemma get_batch_None: "last_write proj ops k = None \<Longrightarrow> get (WriteBatch db ops) k = get db k"
  by (simp add: get_batch)

lemma get_batch_Some: "last_write proj ops k = Some v \<Longrightarrow> get (WriteBatch db ops) k = v"
  by (simp add: get_batch)

end

fun op_nick :: "DbOp \<Rightarrow> (string \<times> NicknameInfo option) option" where
  "op_nick (WriteN k v) = Some (k, Some v)" | "op_nick (EraseN k) = Some (k, None)" | "op_nick _ = None"

fun op_undo :: "DbOp \<Rightarrow> (uint256 \<times> NicknameUndoEntry list option) option" where
  "op_undo (WriteU k v) = Some (k, Some v)" | "op_undo (EraseU k) = Some (k, None)" | "op_undo _ = None"

fun op_bond :: "DbOp \<Rightarrow> (COutPoint \<times> string option) option" where
  "op_bond (WriteB k v) = Some (k, Some v)" | "op_bond (EraseB k) = Some (k, None)" | "op_bond _ = None"

fun op_owner :: "DbOp \<Rightarrow> ((uint160 \<times> string) \<times> bool option) option" where
  "op_owner (WriteO k v) = Some (k, Some v)" | "op_owner (EraseO k) = Some (k, None)" | "op_owner _ = None"

fun op_ready :: "DbOp \<Rightarrow> (unit \<times> bool option) option" where
  "op_ready (WriteReady v) = Some ((), Some v)" | "op_ready _ = None"

fun op_pricing :: "DbOp \<Rightarrow> (unit \<times> NicknamePricingState option) option" where
  "op_pricing (WritePricing v) = Some ((), Some v)" | "op_pricing ErasePricing = Some ((), None)"
| "op_pricing _ = None"

fun op_pricing_undo :: "DbOp \<Rightarrow> (uint256 \<times> NicknamePricingUndoEntry option) option" where
  "op_pricing_undo (WriteP k v) = Some (k, Some v)" | "op_pricing_undo (EraseP k) = Some (k, None)"
| "op_pricing_undo _ = None"

fun op_bond_undo :: "DbOp \<Rightarrow> (uint256 \<times> NicknameBondIndexUndoEntry list option) option" where
  "op_bond_undo (WriteQ k v) = Some (k, Some v)" | "op_bond_undo (EraseQ k) = Some (k, None)"
| "op_bond_undo _ = None"

fun op_reg :: "DbOp \<Rightarrow> (int \<times> nat option) option" where
  "op_reg (WriteR k v) = Some (k, Some v)" | "op_reg (EraseR k) = Some (k, None)" | "op_reg _ = None"

abbreviation get_nick :: "NicknameStateDB \<Rightarrow> string \<Rightarrow> NicknameInfo option" where
  "get_nick db \<equiv> Mapping.lookup (db_nickname db)"
abbreviation get_bond :: "NicknameStateDB \<Rightarrow> COutPoint \<Rightarrow> string option" where
  "get_bond db \<equiv> Mapping.lookup (db_bond db)"
abbreviation get_owner :: "NicknameStateDB \<Rightarrow> uint160 \<times> string \<Rightarrow> bool option" where
  "get_owner db \<equiv> Mapping.lookup (db_owner db)"

lemma lookup_update_fun: "Mapping.lookup (Mapping.update k v m) = (Mapping.lookup m)(k := Some v)"
  by transfer (simp add: fun_eq_iff)

lemma lookup_delete_fun: "Mapping.lookup (Mapping.delete k m) = (Mapping.lookup m)(k := None)"
  by transfer (simp add: fun_eq_iff)

lemmas column_simps = lookup_update_fun lookup_delete_fun

interpretation nick: db_column get_nick op_nick
proof unfold_locales
  fix x db show "get_nick (apply_op x db) =
      (case op_nick x of None \<Rightarrow> get_nick db | Some (k, v) \<Rightarrow> (get_nick db)(k := v))"
    by (cases x) (simp_all add: column_simps)
qed

interpretation undo: db_column "\<lambda>db. Mapping.lookup (db_undo db)" op_undo
proof unfold_locales
  fix x db show "Mapping.lookup (db_undo (apply_op x db)) =
      (case op_undo x of None \<Rightarrow> Mapping.lookup (db_undo db) | Some (k, v) \<Rightarrow> (Mapping.lookup (db_undo db))(k := v))"
    by (cases x) (simp_all add: column_simps)
qed

interpretation bond: db_column get_bond op_bond
proof unfold_locales
  fix x db show "get_bond (apply_op x db) =
      (case op_bond x of None \<Rightarrow> get_bond db | Some (k, v) \<Rightarrow> (get_bond db)(k := v))"
    by (cases x) (simp_all add: column_simps)
qed

interpretation owner: db_column get_owner op_owner
proof unfold_locales
  fix x db show "get_owner (apply_op x db) =
      (case op_owner x of None \<Rightarrow> get_owner db | Some (k, v) \<Rightarrow> (get_owner db)(k := v))"
    by (cases x) (simp_all add: column_simps)
qed

interpretation ready: db_column "\<lambda>db _. db_ready db" op_ready
proof unfold_locales
  fix x db show "(\<lambda>_. db_ready (apply_op x db)) =
      (case op_ready x of None \<Rightarrow> \<lambda>_. db_ready db | Some (k, v) \<Rightarrow> (\<lambda>_. db_ready db)(k := v))"
    by (cases x) (auto simp: fun_eq_iff)
qed

interpretation pricing: db_column "\<lambda>db _. db_pricing db" op_pricing
proof unfold_locales
  fix x db show "(\<lambda>_. db_pricing (apply_op x db)) =
      (case op_pricing x of None \<Rightarrow> \<lambda>_. db_pricing db | Some (k, v) \<Rightarrow> (\<lambda>_. db_pricing db)(k := v))"
    by (cases x) (auto simp: fun_eq_iff)
qed

interpretation pundo: db_column "\<lambda>db. Mapping.lookup (db_pricing_undo db)" op_pricing_undo
proof unfold_locales
  fix x db show "Mapping.lookup (db_pricing_undo (apply_op x db)) =
      (case op_pricing_undo x of None \<Rightarrow> Mapping.lookup (db_pricing_undo db)
       | Some (k, v) \<Rightarrow> (Mapping.lookup (db_pricing_undo db))(k := v))"
    by (cases x) (simp_all add: column_simps)
qed

interpretation bundo: db_column "\<lambda>db. Mapping.lookup (db_bond_undo db)" op_bond_undo
proof unfold_locales
  fix x db show "Mapping.lookup (db_bond_undo (apply_op x db)) =
      (case op_bond_undo x of None \<Rightarrow> Mapping.lookup (db_bond_undo db)
       | Some (k, v) \<Rightarrow> (Mapping.lookup (db_bond_undo db))(k := v))"
    by (cases x) (simp_all add: column_simps)
qed

interpretation reg: db_column "\<lambda>db. Mapping.lookup (db_reg_count db)" op_reg
proof unfold_locales
  fix x db show "Mapping.lookup (db_reg_count (apply_op x db)) =
      (case op_reg x of None \<Rightarrow> Mapping.lookup (db_reg_count db)
       | Some (k, v) \<Rightarrow> (Mapping.lookup (db_reg_count db))(k := v))"
    by (cases x) (simp_all add: column_simps)
qed

text \<open>Two databases that agree on every column are the same.\<close>

lemma db_eqI:
  assumes "get_nick a = get_nick b" "get_bond a = get_bond b" "get_owner a = get_owner b"
    and "Mapping.lookup (db_undo a) = Mapping.lookup (db_undo b)" "db_ready a = db_ready b"
    and "db_pricing a = db_pricing b"
    and "Mapping.lookup (db_pricing_undo a) = Mapping.lookup (db_pricing_undo b)"
    and "Mapping.lookup (db_bond_undo a) = Mapping.lookup (db_bond_undo b)"
    and "Mapping.lookup (db_reg_count a) = Mapping.lookup (db_reg_count b)"
  shows "a = (b :: NicknameStateDB)"
  using assms by (cases a; cases b) (simp add: lookup.rep_eq rep_inject)

end
