(* ===== verification/Nickname_Blocks.thy ===== *)
theory Nickname_Blocks
  imports Nickname_DB "HOL-Library.AList_Mapping"
begin

text \<open>
  Connecting a block to the nickname database and disconnecting it again: the end of
  \<^verbatim>\<open>BuildNicknameBlockUpdates\<close> in \<^verbatim>\<open>src/src/validation.cpp\<close>, which collects the changed names of a block with
  their undo entries, and the parts of \<^verbatim>\<open>ConnectBlock\<close> and \<^verbatim>\<open>DisconnectBlock\<close> that write them to the
  database. The working states of the names are the contents of a \<^verbatim>\<open>std::map\<close>, in its order.
\<close>

record NicknameWorkingState =
  ws_loaded :: bool
  ws_existedBefore :: bool
  ws_existsNow :: bool
  ws_dirty :: bool
  ws_before :: NicknameInfo
  ws_current :: NicknameInfo

record NicknameBlockUpdates =
  upserts :: "NicknameInfo list"
  erases :: "string list"
  bondIndexUpserts :: "(COutPoint \<times> string) list"
  bondIndexErases :: "COutPoint list"
  undoEntries :: "NicknameUndoEntry list"
  up_blockHeight :: int
  registeredCount :: nat

definition undo_entry :: "string \<times> NicknameWorkingState \<Rightarrow> NicknameUndoEntry" where
  "undo_entry entry =
     \<lparr>undo_nickname = fst entry, existedBefore = ws_existedBefore (snd entry),
      previousInfo = (if ws_existedBefore (snd entry) then ws_before (snd entry) else empty_info)\<rparr>"

text \<open>The final loop over the working states; the bond index changes are collected before it.\<close>

definition collect_updates ::
  "(string \<times> NicknameWorkingState) list \<Rightarrow> NicknameBlockUpdates \<Rightarrow> NicknameBlockUpdates" where
  "collect_updates states updates =
     (let dirty = filter (\<lambda>entry. ws_dirty (snd entry)) states in
      updates
        \<lparr>undoEntries := undoEntries updates @ map undo_entry dirty,
         upserts := upserts updates @
           map (\<lambda>entry. ws_current (snd entry)) (filter (\<lambda>entry. ws_existsNow (snd entry)) dirty),
         erases := erases updates @ map fst (filter (\<lambda>entry. \<not> ws_existsNow (snd entry)) dirty)\<rparr>)"

definition connect_nicknames :: "key_hash \<Rightarrow> NicknameStateDB \<Rightarrow> uint256 \<Rightarrow> NicknameBlockUpdates \<Rightarrow> NicknameStateDB" where
  "connect_nicknames Hash160 db blockHash u =
     WriteNicknameBatch Hash160 db (upserts u) (erases u) (bondIndexUpserts u) (bondIndexErases u)
       blockHash (up_blockHeight u) (registeredCount u) (undoEntries u)"

definition disconnect_nicknames :: "key_hash \<Rightarrow> NicknameStateDB \<Rightarrow> uint256 \<Rightarrow> int \<Rightarrow> NicknameStateDB" where
  "disconnect_nicknames Hash160 db blockHash nHeight =
     (case ReadNicknameUndo db blockHash of
        None \<Rightarrow> db
      | Some entries \<Rightarrow> ApplyNicknameUndo Hash160 db blockHash nHeight entries)"

subsection \<open>Invariants of the database\<close>

definition owner_entry :: "key_hash \<Rightarrow> NicknameInfo option \<Rightarrow> uint160 \<Rightarrow> bool option" where
  "owner_entry Hash160 x k =
     (case x of None \<Rightarrow> None
      | Some info \<Rightarrow> if TryGetOwnerKeyID Hash160 info = Some k then Some True else None)"

text \<open>The owner index has an entry for each record under the hash of its key, and no others.\<close>

definition owner_index_ok :: "key_hash \<Rightarrow> NicknameStateDB \<Rightarrow> bool" where
  "owner_index_ok Hash160 db \<longleftrightarrow> (\<forall>k n. get_owner db (k, n) = owner_entry Hash160 (get_nick db n) k)"

text \<open>Records are stored under their normalised name, and a bond that a record holds is indexed.\<close>

definition records_ok :: "NicknameStateDB \<Rightarrow> bool" where
  "records_ok db \<longleftrightarrow>
     (\<forall>n info. get_nick db n = Some info \<longrightarrow>
        info_nickname info = n \<and> NormalizeKeyName n = n \<and>
        (HasBondOutpoint info \<longrightarrow> get_bond db (GetBondOutpoint info) = Some n))"

definition pricing_ok :: "NicknameStateDB \<Rightarrow> bool" where
  "pricing_ok db \<longleftrightarrow>
     (\<forall>st. db_pricing db = Some st \<longrightarrow> 0 \<le> rollingRegistrations st \<and>
        ClampPricingMultiplierPermille (multiplierPermille st) = multiplierPermille st)"

text \<open>The block has not been connected: the database has no entry of its own for it.\<close>

definition block_fresh :: "NicknameStateDB \<Rightarrow> uint256 \<Rightarrow> int \<Rightarrow> bool" where
  "block_fresh db blockHash height \<longleftrightarrow>
     Mapping.lookup (db_undo db) blockHash = None \<and> Mapping.lookup (db_bond_undo db) blockHash = None \<and>
     Mapping.lookup (db_pricing_undo db) blockHash = None \<and> Mapping.lookup (db_reg_count db) height = None"

text \<open>
  Working states as \<^verbatim>\<open>BuildNicknameBlockUpdates\<close> makes them: loaded from the database, under normalised
  names; a bond that a block gives a name is new to the index, or was the name's bond before.
\<close>

definition state_ok :: "NicknameStateDB \<Rightarrow> string \<times> NicknameWorkingState \<Rightarrow> bool" where
  "state_ok db entry \<longleftrightarrow>
     (case entry of (n, st) \<Rightarrow>
        NormalizeKeyName n = n \<and> (ws_existsNow st \<longrightarrow> info_nickname (ws_current st) = n) \<and>
        get_nick db n = (if ws_existedBefore st then Some (ws_before st) else None) \<and>
        (ws_existsNow st \<and> HasBondOutpoint (ws_current st) \<longrightarrow>
           get_bond db (GetBondOutpoint (ws_current st)) = None \<or>
           ws_existedBefore st \<and> HasBondOutpoint (ws_before st) \<and>
             GetBondOutpoint (ws_before st) = GetBondOutpoint (ws_current st)))"

definition new_record :: "NicknameWorkingState \<Rightarrow> NicknameInfo option" where
  "new_record st = (if ws_existsNow st then Some (ws_current st) else None)"

subsection \<open>Operations of a batch\<close>

lemma last_write_SomeD: "last_write proj ops k = Some v \<Longrightarrow> \<exists>x \<in> set ops. proj x = Some (k, v)"
  unfolding last_write_def by (force dest!: map_of_SomeD simp: List.map_filter_def)

lemma last_write_iff: "last_write proj ops k = None \<longleftrightarrow> (\<forall>x \<in> set ops. \<forall>v. proj x \<noteq> Some (k, v))"
  unfolding last_write_def by (force simp: map_of_eq_None_iff List.map_filter_def)

text \<open>Replacing the record of one name, with its index entries.\<close>

definition put_ops :: "key_hash \<Rightarrow> NicknameStateDB \<Rightarrow> string \<Rightarrow> NicknameInfo option \<Rightarrow> DbOp list" where
  "put_ops Hash160 db n new =
     (case get_nick db n of None \<Rightarrow> []
      | Some cur \<Rightarrow> EraseNicknameBondIndexEntry cur @ EraseNicknameOwnerIndexEntry Hash160 cur n) @
     (case new of None \<Rightarrow> [EraseN n]
      | Some info \<Rightarrow> WriteN n info # WriteNicknameIndexEntries Hash160 info n)"

lemma upsert_put:
  "NormalizeKeyName (info_nickname info) = info_nickname info \<Longrightarrow>
   upsert_ops Hash160 db info = put_ops Hash160 db (info_nickname info) (Some info)"
  by (simp add: upsert_ops_def put_ops_def Let_def split: option.splits)

lemma erase_put: "NormalizeKeyName n = n \<Longrightarrow> erase_ops Hash160 db n = put_ops Hash160 db n None"
  by (simp add: erase_ops_def put_ops_def Let_def split: option.splits)

lemmas index_ops = EraseNicknameBondIndexEntry_def EraseNicknameOwnerIndexEntry_def WriteNicknameIndexEntries_def

lemma put_nick: "last_write op_nick (put_ops Hash160 db n new) m = (if m = n then Some new else None)"
  by (auto simp: put_ops_def index_ops last_write_append last_write_single
      last_write_Cons [of op_nick "WriteN n i" "ops" for i ops] split: option.splits)

lemma owner_pieces:
  "last_write op_owner (EraseNicknameBondIndexEntry i) km = None"
  "last_write op_owner (EraseNicknameOwnerIndexEntry Hash160 i n) (k, m) =
     (if m = n \<and> TryGetOwnerKeyID Hash160 i = Some k then Some None else None)"
  "last_write op_owner (WriteNicknameIndexEntries Hash160 i n) (k, m) =
     (if m = n \<and> TryGetOwnerKeyID Hash160 i = Some k then Some (Some True) else None)"
proof -
  show "last_write op_owner (EraseNicknameBondIndexEntry i) km = None"
    unfolding last_write_iff by (auto simp: index_ops)
qed (auto simp: index_ops last_write_append last_write_single split: option.splits)

lemma put_owner:
  "last_write op_owner (put_ops Hash160 db n new) (k, m) =
     (if m \<noteq> n then None
      else if owner_entry Hash160 new k = Some True then Some (Some True)
      else if owner_entry Hash160 (get_nick db n) k = Some True then Some None else None)"
  unfolding put_ops_def owner_entry_def
  by (auto simp: last_write_append last_write_single owner_pieces
      last_write_Cons [of op_owner "WriteN n i" "WriteNicknameIndexEntries Hash160 i n" for i]
      split: option.splits)

definition holds_bond :: "NicknameInfo option \<Rightarrow> COutPoint \<Rightarrow> bool" where
  "holds_bond x b \<longleftrightarrow> (case x of None \<Rightarrow> False | Some info \<Rightarrow> HasBondOutpoint info \<and> GetBondOutpoint info = b)"

lemma put_bond_op:
  assumes "x \<in> set (put_ops Hash160 db n new)" "op_bond x = Some (b, v)"
  shows "holds_bond (get_nick db n) b \<and> v = None \<or> holds_bond new b \<and> v = Some n"
  using assms unfolding put_ops_def index_ops holds_bond_def
  by (cases "get_nick db n"; cases new) (auto split: option.splits if_splits)

subsection \<open>The batch of a block\<close>

text \<open>The changes of a block: names with their working states, and the changes of the bond index.\<close>

definition dirty :: "(string \<times> NicknameWorkingState) list \<Rightarrow> (string \<times> NicknameWorkingState) list" where
  "dirty states = filter (\<lambda>entry. ws_dirty (snd entry)) states"

definition no_changes :: "NicknameBlockUpdates \<Rightarrow> bool" where
  "no_changes u \<longleftrightarrow> upserts u = [] \<and> erases u = [] \<and> undoEntries u = []"

definition block_puts :: "key_hash \<Rightarrow> NicknameStateDB \<Rightarrow> (string \<times> NicknameWorkingState) list \<Rightarrow> DbOp list" where
  "block_puts Hash160 db xs = concat (map (\<lambda>(n, st). put_ops Hash160 db n (new_record st)) xs)"

lemma block_puts_upserts:
  assumes "\<forall>e \<in> set xs. state_ok db e"
  shows "concat (map (upsert_ops Hash160 db) (map (\<lambda>e. ws_current (snd e)) (filter (\<lambda>e. ws_existsNow (snd e)) xs))) =
      block_puts Hash160 db (filter (\<lambda>e. ws_existsNow (snd e)) xs)"
    and "concat (map (erase_ops Hash160 db) (map fst (filter (\<lambda>e. \<not> ws_existsNow (snd e)) xs))) =
      block_puts Hash160 db (filter (\<lambda>e. \<not> ws_existsNow (snd e)) xs)"
  using assms
  by (induction xs) (auto simp: block_puts_def state_ok_def new_record_def upsert_put erase_put)

definition ordered :: "(string \<times> NicknameWorkingState) list \<Rightarrow> (string \<times> NicknameWorkingState) list" where
  "ordered xs = filter (\<lambda>e. ws_existsNow (snd e)) xs @ filter (\<lambda>e. \<not> ws_existsNow (snd e)) xs"

lemma ordered_set [simp]: "set (ordered xs) = set xs"
  by (auto simp: ordered_def)

lemma ordered_distinct: "distinct (map fst xs) \<Longrightarrow> distinct (map fst (ordered xs))"
  unfolding ordered_def by (induction xs) (auto simp: image_iff)

definition bond_ops :: "NicknameBlockUpdates \<Rightarrow> DbOp list" where
  "bond_ops u = map EraseB (bondIndexErases u) @
     map (\<lambda>(outpoint, nickname). WriteB outpoint (NormalizeKeyName nickname)) (bondIndexUpserts u)"

definition touched_bonds :: "NicknameBlockUpdates \<Rightarrow> COutPoint list" where
  "touched_bonds u = sort (remdups (bondIndexErases u @ map fst (bondIndexUpserts u)))"

definition tail_ops ::
  "NicknameStateDB \<Rightarrow> uint256 \<Rightarrow> (string \<times> NicknameWorkingState) list \<Rightarrow> NicknameBlockUpdates \<Rightarrow> DbOp list" where
  "tail_ops db h xs u =
     [WriteU h (map undo_entry xs)] @ bond_ops u @
     [WriteQ h (map (rememberBondIndexUndo db) (touched_bonds u)), WriteP h (pricing_undo_entry db),
      WriteR (up_blockHeight u) (registeredCount u),
      WritePricing (ComputeNextPricingState db (fst (ReadNicknamePricingState db)) (up_blockHeight u) (registeredCount u))]"

lemma connect_batch:
  assumes "\<forall>e \<in> set (dirty states). state_ok db e" "no_changes u"
  shows "connect_nicknames Hash160 db h (collect_updates states u) =
    WriteBatch db (block_puts Hash160 db (ordered (dirty states)) @ tail_ops db h (dirty states) u)"
  using assms(2) block_puts_upserts [OF assms(1), of Hash160]
  by (simp add: connect_nicknames_def collect_updates_def WriteNicknameBatch_def no_changes_def Let_def
      dirty_def [symmetric] ordered_def block_puts_def bond_ops_def touched_bonds_def tail_ops_def)

definition block_ok ::
  "key_hash \<Rightarrow> NicknameStateDB \<Rightarrow> uint256 \<Rightarrow> (string \<times> NicknameWorkingState) list \<Rightarrow> NicknameBlockUpdates \<Rightarrow> bool" where
  "block_ok Hash160 db h states u \<longleftrightarrow>
     (\<forall>e \<in> set (dirty states). state_ok db e) \<and> distinct (map fst states) \<and> no_changes u \<and>
     records_ok db \<and> owner_index_ok Hash160 db \<and> pricing_ok db \<and> block_fresh db h (up_blockHeight u)"

lemma distinct_dirty: "distinct (map fst states) \<Longrightarrow> distinct (map fst (dirty states))"
  unfolding dirty_def by (induction states) (auto simp: image_iff)

lemma puts_unique:
  assumes "distinct (map fst xs)" "(n, st) \<in> set xs"
    and "\<And>m st. m \<noteq> n \<Longrightarrow> last_write proj (put_ops Hash160 db m (new_record st)) k = None"
  shows "last_write proj (block_puts Hash160 db xs) k = last_write proj (put_ops Hash160 db n (new_record st)) k"
proof -
  have other: "fst y \<noteq> n" if "y \<in> set xs" "y \<noteq> (n, st)" for y
    using assms(1,2) that by (metis eq_key_imp_eq_value prod.collapse)
  have "last_write proj (concat (map (\<lambda>(n, st). put_ops Hash160 db n (new_record st)) xs)) k =
    last_write proj ((\<lambda>(n, st). put_ops Hash160 db n (new_record st)) (n, st)) k"
  proof (rule last_write_concat_unique [OF assms(2)])
    show "distinct xs" using assms(1) by (simp add: distinct_map)
  next
    fix y assume "y \<in> set xs" "y \<noteq> (n, st)"
    then show "last_write proj ((\<lambda>(n, st). put_ops Hash160 db n (new_record st)) y) k = None"
      using assms(3) [OF other, of y "snd y"] by (simp add: split_def)
  qed
  then show ?thesis by (simp add: block_puts_def)
qed

lemma puts_none:
  assumes "n \<notin> fst ` set xs"
    and "\<And>m st. m \<noteq> n \<Longrightarrow> last_write proj (put_ops Hash160 db m (new_record st)) k = None"
  shows "last_write proj (block_puts Hash160 db xs) k = None"
  unfolding block_puts_def
proof (rule last_write_concat_None)
  fix y assume "y \<in> set xs"
  then have "fst y \<noteq> n" using assms(1) by auto
  then show "last_write proj ((\<lambda>(n, st). put_ops Hash160 db n (new_record st)) y) k = None"
    using assms(2) [of "fst y" "snd y"] by (simp add: split_def)
qed

lemma bond_ops_none:
  "last_write op_nick (bond_ops u) n = None" "last_write op_owner (bond_ops u) k = None"
  "b \<notin> set (touched_bonds u) \<Longrightarrow> last_write op_bond (bond_ops u) b = None"
  unfolding last_write_iff by (force simp: bond_ops_def touched_bonds_def)+

lemma ordered_map_of: "distinct (map fst xs) \<Longrightarrow> map_of (ordered xs) = map_of xs"
  by (simp add: map_of_inject_set ordered_distinct)

lemma puts_nick:
  assumes "distinct (map fst xs)"
  shows "last_write op_nick (block_puts Hash160 db xs) n = map_option new_record (map_of xs n)"
proof (cases "map_of xs n")
  case None
  then have "n \<notin> fst ` set xs" by (simp add: map_of_eq_None_iff)
  then show ?thesis using puts_none [of n xs op_nick Hash160 db n] None by (simp add: put_nick)
next
  case (Some st)
  then show ?thesis using puts_unique [OF assms map_of_SomeD [OF Some], of op_nick Hash160 db n]
    by (simp add: put_nick)
qed

lemma puts_owner:
  assumes "distinct (map fst xs)"
  shows "last_write op_owner (block_puts Hash160 db xs) (k, n) =
    (case map_of xs n of None \<Rightarrow> None
     | Some st \<Rightarrow> last_write op_owner (put_ops Hash160 db n (new_record st)) (k, n))"
proof (cases "map_of xs n")
  case None
  then have "n \<notin> fst ` set xs" by (simp add: map_of_eq_None_iff)
  then show ?thesis using puts_none [of n xs op_owner Hash160 db "(k, n)"] None by (simp add: put_owner)
next
  case (Some st)
  then show ?thesis using puts_unique [OF assms map_of_SomeD [OF Some], of op_owner Hash160 db "(k, n)"]
    by (simp add: put_owner)
qed

lemma puts_bond:
  assumes "last_write op_bond (block_puts Hash160 db xs) b \<noteq> None"
  shows "\<exists>(n, st) \<in> set xs. holds_bond (get_nick db n) b \<or> holds_bond (new_record st) b"
proof -
  obtain x v where "x \<in> set (block_puts Hash160 db xs)" "op_bond x = Some (b, v)"
    using assms unfolding last_write_iff by blast
  then obtain n st where "(n, st) \<in> set xs" "x \<in> set (put_ops Hash160 db n (new_record st))"
    unfolding block_puts_def by auto
  then show ?thesis using put_bond_op [of x Hash160 db n "new_record st" b v] \<open>op_bond x = Some (b, v)\<close> by auto
qed

text \<open>Records and indices are written by one part of the batch, the other columns by the rest.\<close>

lemma last_write_Cons2:
  "last_write proj (x # y # ys) k =
   (case last_write proj (y # ys) k of None \<Rightarrow> last_write proj [x] k | Some v \<Rightarrow> Some v)"
  by (rule last_write_Cons)

lemmas last_write_simps = last_write_append last_write_single last_write_Cons2

lemma last_write_tail:
  "last_write proj (tail_ops db h xs u) k =
   (case last_write proj
      [WriteQ h (map (rememberBondIndexUndo db) (touched_bonds u)), WriteP h (pricing_undo_entry db),
       WriteR (up_blockHeight u) (registeredCount u),
       WritePricing (ComputeNextPricingState db (fst (ReadNicknamePricingState db)) (up_blockHeight u) (registeredCount u))] k of
      None \<Rightarrow> (case last_write proj (bond_ops u) k of
         None \<Rightarrow> last_write proj [WriteU h (map undo_entry xs)] k | Some v \<Rightarrow> Some v)
    | Some v \<Rightarrow> Some v)"
  by (simp only: tail_ops_def last_write_append) (simp split: option.splits)

lemma puts_kind:
  assumes "x \<in> set (block_puts Hash160 db xs) \<or> x \<in> set (bond_ops u)"
  shows "op_undo x = None" "op_ready x = None" "op_pricing x = None" "op_pricing_undo x = None"
    "op_bond_undo x = None" "op_reg x = None"
  using assms by (auto simp: block_puts_def put_ops_def index_ops bond_ops_def split: option.splits if_splits)

lemma puts_other [simp]:
  "last_write op_undo (block_puts Hash160 db xs) a = None" "last_write op_undo (bond_ops u) a = None"
  "last_write op_ready (block_puts Hash160 db xs) b = None" "last_write op_ready (bond_ops u) b = None"
  "last_write op_pricing (block_puts Hash160 db xs) b = None" "last_write op_pricing (bond_ops u) b = None"
  "last_write op_pricing_undo (block_puts Hash160 db xs) a = None" "last_write op_pricing_undo (bond_ops u) a = None"
  "last_write op_bond_undo (block_puts Hash160 db xs) a = None" "last_write op_bond_undo (bond_ops u) a = None"
  "last_write op_reg (block_puts Hash160 db xs) c = None" "last_write op_reg (bond_ops u) c = None"
  unfolding last_write_iff using puts_kind by (metis option.distinct(1))+

lemma connect_nick:
  assumes "block_ok Hash160 db h states u"
  shows "get_nick (connect_nicknames Hash160 db h (collect_updates states u)) n =
    (case map_of (dirty states) n of None \<Rightarrow> get_nick db n | Some st \<Rightarrow> new_record st)"
proof -
  have d: "distinct (map fst (dirty states))" using assms by (simp add: block_ok_def distinct_dirty)
  show ?thesis
    using assms puts_nick [OF ordered_distinct [OF d], of Hash160 db n]
    by (cases "map_of (dirty states) n")
      (simp_all add: block_ok_def connect_batch nick.get_batch last_write_simps last_write_tail bond_ops_none
        ordered_map_of [OF d])
qed

lemma owner_entry_None: "owner_entry Hash160 x k \<noteq> Some True \<Longrightarrow> owner_entry Hash160 x k = None"
  by (cases x) (auto simp: owner_entry_def split: if_splits)

lemma connect_owner:
  assumes "block_ok Hash160 db h states u"
  shows "get_owner (connect_nicknames Hash160 db h (collect_updates states u)) (k, n) =
    owner_entry Hash160 (get_nick (connect_nicknames Hash160 db h (collect_updates states u)) n) k"
proof -
  have "get_owner db (k, n) = owner_entry Hash160 (get_nick db n) k"
    using assms by (simp add: block_ok_def owner_index_ok_def)
  moreover have d: "distinct (map fst (dirty states))" using assms by (simp add: block_ok_def distinct_dirty)
  ultimately show ?thesis
    unfolding connect_nick [OF assms]
    using assms puts_owner [OF ordered_distinct [OF d], of Hash160 db k n]
    by (cases "map_of (dirty states) n")
      (auto simp: block_ok_def connect_batch owner.get_batch last_write_simps last_write_tail bond_ops_none
        ordered_map_of [OF d] put_owner dest!: owner_entry_None)
qed

lemma connect_bond:
  assumes "block_ok Hash160 db h states u" "b \<notin> set (touched_bonds u)"
    and "\<not> (\<exists>(n, st) \<in> set (dirty states). holds_bond (get_nick db n) b \<or> holds_bond (new_record st) b)"
  shows "get_bond (connect_nicknames Hash160 db h (collect_updates states u)) b = get_bond db b"
proof -
  have "last_write op_bond (block_puts Hash160 db (ordered (dirty states))) b = None"
  proof (rule ccontr)
    assume "\<not> ?thesis"
    from puts_bond [OF this] assms(3) show False by simp
  qed
  then show ?thesis using assms(1) bond_ops_none(3) [OF assms(2)]
    by (simp add: block_ok_def connect_batch bond.get_batch last_write_simps last_write_tail)
qed

lemma connect_admin:
  assumes "block_ok Hash160 db h states u"
  defines "db' \<equiv> connect_nicknames Hash160 db h (collect_updates states u)"
  shows "Mapping.lookup (db_undo db') k = (if k = h then Some (map undo_entry (dirty states)) else Mapping.lookup (db_undo db) k)"
    and "Mapping.lookup (db_bond_undo db') k =
      (if k = h then Some (map (rememberBondIndexUndo db) (touched_bonds u)) else Mapping.lookup (db_bond_undo db) k)"
    and "Mapping.lookup (db_pricing_undo db') k =
      (if k = h then Some (pricing_undo_entry db) else Mapping.lookup (db_pricing_undo db) k)"
    and "Mapping.lookup (db_reg_count db') ht =
      (if ht = up_blockHeight u then Some (registeredCount u) else Mapping.lookup (db_reg_count db) ht)"
    and "db_ready db' = db_ready db"
  using assms(1) unfolding db'_def
  by (simp_all add: block_ok_def connect_batch undo.get_batch bundo.get_batch pundo.get_batch reg.get_batch
      ready.get_batch [of _ _ "()"] last_write_simps last_write_tail)

subsection \<open>The batch that undoes a block\<close>

lemma undo_erase_op:
  assumes "x \<in> set (concat (map (undo_erase_ops Hash160 db) es))"
  obtains e cur n where "e \<in> set es" "n = NormalizeKeyName (undo_nickname e)" "get_nick db n = Some cur"
    "x = EraseB (GetBondOutpoint cur) \<and> HasBondOutpoint cur \<or>
     (\<exists>k. x = EraseO (k, n) \<and> TryGetOwnerKeyID Hash160 cur = Some k)"
proof -
  obtain e where e: "e \<in> set es" "x \<in> set (undo_erase_ops Hash160 db e)" using assms by auto
  then show thesis
    by (cases "get_nick db (NormalizeKeyName (undo_nickname e))")
      (auto simp: undo_erase_ops_def index_ops Let_def split: option.splits if_splits intro: that)
qed

lemma undo_restore_op:
  assumes "x \<in> set (concat (map (undo_restore_ops Hash160) (rev es)))"
  obtains e n old where "e \<in> set es" "n = NormalizeKeyName (undo_nickname e)"
    "old = (if existedBefore e then Some ((previousInfo e)\<lparr>info_nickname := n\<rparr>) else None)"
    "op_nick x = Some (n, old) \<or>
     (\<exists>info. old = Some info \<and> HasBondOutpoint info \<and> x = WriteB (GetBondOutpoint info) n) \<or>
     (\<exists>info k. old = Some info \<and> TryGetOwnerKeyID Hash160 info = Some k \<and> x = WriteO (k, n) True)"
  using assms
  by (auto simp: undo_restore_ops_def index_ops Let_def split: option.splits if_splits)

definition undo_erases :: "key_hash \<Rightarrow> NicknameStateDB \<Rightarrow> (string \<times> NicknameWorkingState) list \<Rightarrow> DbOp list" where
  "undo_erases Hash160 db xs = concat (map (undo_erase_ops Hash160 db) (map undo_entry xs))"

definition undo_restores :: "key_hash \<Rightarrow> (string \<times> NicknameWorkingState) list \<Rightarrow> DbOp list" where
  "undo_restores Hash160 xs = concat (map (undo_restore_ops Hash160) (rev (map undo_entry xs)))"

definition undo_tail :: "NicknameStateDB \<Rightarrow> uint256 \<Rightarrow> NicknameBlockUpdates \<Rightarrow> DbOp list" where
  "undo_tail db h u =
     [EraseU h, EraseR (up_blockHeight u)] @
     map (\<lambda>b. undo_bond_ops (rememberBondIndexUndo db b)) (touched_bonds u) @
     [EraseQ h, if pricing_existedBefore (pricing_undo_entry db)
        then WritePricing (previousState (pricing_undo_entry db)) else ErasePricing, EraseP h]"

lemma disconnect_batch:
  assumes "block_ok Hash160 db h states u"
  defines "db' \<equiv> connect_nicknames Hash160 db h (collect_updates states u)"
  shows "disconnect_nicknames Hash160 db' h (up_blockHeight u) =
    WriteBatch db' (undo_erases Hash160 db' (dirty states) @ undo_restores Hash160 (dirty states) @ undo_tail db h u)"
  using connect_admin(1-3) [OF assms(1), where k = h]
  unfolding db'_def [symmetric] disconnect_nicknames_def ApplyNicknameUndo_def ReadNicknameUndo_def
    ReadNicknameBondIndexUndo_def undo_erases_def undo_restores_def undo_tail_def
  by (simp add: comp_def)

lemma old_record:
  assumes "block_ok Hash160 db h states u" "(n, st) \<in> set (dirty states)"
  shows "NormalizeKeyName (undo_nickname (undo_entry (n, st))) = n"
    and "(if existedBefore (undo_entry (n, st))
          then Some ((previousInfo (undo_entry (n, st)))\<lparr>info_nickname := n\<rparr>) else None) = get_nick db n"
proof -
  have ok: "state_ok db (n, st)" using assms by (simp add: block_ok_def)
  then show "NormalizeKeyName (undo_nickname (undo_entry (n, st))) = n"
    by (simp add: state_ok_def undo_entry_def)
  have "info_nickname (ws_before st) = n" if "ws_existedBefore st"
    using ok that assms(1) by (simp add: state_ok_def block_ok_def records_ok_def)
  then show "(if existedBefore (undo_entry (n, st))
      then Some ((previousInfo (undo_entry (n, st)))\<lparr>info_nickname := n\<rparr>) else None) = get_nick db n"
    using ok by (auto simp: state_ok_def undo_entry_def)
qed

lemma undo_erasesE:
  assumes "block_ok Hash160 db h states u" "x \<in> set (undo_erases Hash160 db' (dirty states))"
  obtains n st cur where "(n, st) \<in> set (dirty states)" "get_nick db' n = Some cur"
    "x = EraseB (GetBondOutpoint cur) \<and> HasBondOutpoint cur \<or>
     (\<exists>k. x = EraseO (k, n) \<and> TryGetOwnerKeyID Hash160 cur = Some k)"
proof -
  from assms(2) obtain e cur n where e: "e \<in> set (map undo_entry (dirty states))"
      "n = NormalizeKeyName (undo_nickname e)" "get_nick db' n = Some cur"
      "x = EraseB (GetBondOutpoint cur) \<and> HasBondOutpoint cur \<or>
       (\<exists>k. x = EraseO (k, n) \<and> TryGetOwnerKeyID Hash160 cur = Some k)"
    unfolding undo_erases_def by (rule undo_erase_op)
  from e(1) obtain m st where m: "(m, st) \<in> set (dirty states)" "e = undo_entry (m, st)" by auto
  then have "n = m" using e(2) old_record(1) [OF assms(1) m(1)] by simp
  then show thesis using that m(1) e(3,4) by simp
qed

lemma undo_restoresE:
  assumes "block_ok Hash160 db h states u" "x \<in> set (undo_restores Hash160 (dirty states))"
  obtains n st where "(n, st) \<in> set (dirty states)"
    "op_nick x = Some (n, get_nick db n) \<or>
     (\<exists>info. get_nick db n = Some info \<and> HasBondOutpoint info \<and> x = WriteB (GetBondOutpoint info) n) \<or>
     (\<exists>info k. get_nick db n = Some info \<and> TryGetOwnerKeyID Hash160 info = Some k \<and> x = WriteO (k, n) True)"
proof -
  from assms(2) obtain e n old where e: "e \<in> set (map undo_entry (dirty states))"
      "n = NormalizeKeyName (undo_nickname e)"
      "old = (if existedBefore e then Some ((previousInfo e)\<lparr>info_nickname := n\<rparr>) else None)"
      "op_nick x = Some (n, old) \<or>
       (\<exists>info. old = Some info \<and> HasBondOutpoint info \<and> x = WriteB (GetBondOutpoint info) n) \<or>
       (\<exists>info k. old = Some info \<and> TryGetOwnerKeyID Hash160 info = Some k \<and> x = WriteO (k, n) True)"
    unfolding undo_restores_def by (rule undo_restore_op)
  from e(1) obtain m st where m: "(m, st) \<in> set (dirty states)" "e = undo_entry (m, st)" by auto
  then have "n = m" using e(2) old_record(1) [OF assms(1) m(1)] by simp
  moreover have "old = get_nick db m" unfolding e(3) m(2) \<open>n = m\<close>
    by (rule old_record(2) [OF assms(1) m(1)])
  ultimately show thesis using that m(1) e(4) by simp
qed

lemma undo_restores_nick:
  assumes "block_ok Hash160 db h states u" "(n, st) \<in> set (dirty states)"
  shows "last_write op_nick (undo_restores Hash160 (dirty states)) n \<noteq> None"
proof -
  have "\<exists>x \<in> set (undo_restore_ops Hash160 (undo_entry (n, st))). \<exists>v. op_nick x = Some (n, v)"
    using old_record(1) [OF assms] by (simp add: undo_restore_ops_def Let_def)
  then have "\<exists>x \<in> set (undo_restores Hash160 (dirty states)). \<exists>v. op_nick x = Some (n, v)"
    using assms(2) unfolding undo_restores_def by fastforce
  then show ?thesis unfolding last_write_iff by blast
qed

lemma undo_restores_index:
  assumes "block_ok Hash160 db h states u" "(n, st) \<in> set (dirty states)" "get_nick db n = Some info"
  shows "HasBondOutpoint info \<Longrightarrow> last_write op_bond (undo_restores Hash160 (dirty states)) (GetBondOutpoint info) \<noteq> None"
    and "TryGetOwnerKeyID Hash160 info = Some k \<Longrightarrow> last_write op_owner (undo_restores Hash160 (dirty states)) (k, n) \<noteq> None"
proof -
  let ?e = "undo_entry (n, st)"
  have "existedBefore ?e" "(previousInfo ?e)\<lparr>info_nickname := n\<rparr> = info"
    using old_record(2) [OF assms(1,2)] assms(3) by (auto split: if_splits)
  then have ops: "undo_restore_ops Hash160 ?e = WriteN n info # WriteNicknameIndexEntries Hash160 info n"
    using old_record(1) [OF assms(1,2)] by (simp add: undo_restore_ops_def Let_def)
  have "set (undo_restore_ops Hash160 ?e) \<subseteq> set (undo_restores Hash160 (dirty states))"
    using assms(2) unfolding undo_restores_def by fastforce
  then have sub: "set (WriteNicknameIndexEntries Hash160 info n) \<subseteq> set (undo_restores Hash160 (dirty states))"
    unfolding ops by simp
  show "last_write op_bond (undo_restores Hash160 (dirty states)) (GetBondOutpoint info) \<noteq> None" if "HasBondOutpoint info"
    using sub that unfolding last_write_iff by (fastforce simp: WriteNicknameIndexEntries_def)
  show "last_write op_owner (undo_restores Hash160 (dirty states)) (k, n) \<noteq> None" if "TryGetOwnerKeyID Hash160 info = Some k"
    using sub that unfolding last_write_iff by (fastforce simp: WriteNicknameIndexEntries_def)
qed

lemma undo_erases_index:
  assumes "block_ok Hash160 db h states u" "(n, st) \<in> set (dirty states)" "get_nick db' n = Some info"
  shows "HasBondOutpoint info \<Longrightarrow> last_write op_bond (undo_erases Hash160 db' (dirty states)) (GetBondOutpoint info) \<noteq> None"
    and "TryGetOwnerKeyID Hash160 info = Some k \<Longrightarrow> last_write op_owner (undo_erases Hash160 db' (dirty states)) (k, n) \<noteq> None"
proof -
  have "set (undo_erase_ops Hash160 db' (undo_entry (n, st))) \<subseteq> set (undo_erases Hash160 db' (dirty states))"
    using assms(2) unfolding undo_erases_def by fastforce
  then have sub: "set (EraseNicknameBondIndexEntry info @ EraseNicknameOwnerIndexEntry Hash160 info n) \<subseteq>
      set (undo_erases Hash160 db' (dirty states))"
    using assms(3) old_record(1) [OF assms(1,2)] by (simp add: undo_erase_ops_def Let_def)
  show "last_write op_bond (undo_erases Hash160 db' (dirty states)) (GetBondOutpoint info) \<noteq> None" if "HasBondOutpoint info"
    using sub that unfolding last_write_iff by (fastforce simp: index_ops)
  show "last_write op_owner (undo_erases Hash160 db' (dirty states)) (k, n) \<noteq> None" if "TryGetOwnerKeyID Hash160 info = Some k"
    using sub that unfolding last_write_iff by (fastforce simp: index_ops)
qed

text \<open>A touched name has no index entry that neither part of the undo batch names.\<close>

lemma undo_silent:
  assumes ok: "block_ok Hash160 db h states u" and m: "(n, st) \<in> set (dirty states)"
  shows "last_write op_owner (undo_restores Hash160 (dirty states)) (k, n) = None \<Longrightarrow> owner_entry Hash160 (get_nick db n) k = None"
    and "last_write op_bond (undo_restores Hash160 (dirty states)) b = None \<Longrightarrow> \<not> holds_bond (get_nick db n) b"
    and "last_write op_owner (undo_erases Hash160 db' (dirty states)) (k, n) = None \<Longrightarrow> owner_entry Hash160 (get_nick db' n) k = None"
    and "last_write op_bond (undo_erases Hash160 db' (dirty states)) b = None \<Longrightarrow> \<not> holds_bond (get_nick db' n) b"
proof -
  show "owner_entry Hash160 (get_nick db n) k = None"
    if "last_write op_owner (undo_restores Hash160 (dirty states)) (k, n) = None"
    using undo_restores_index(2) [OF ok m, of _ k] that by (cases "get_nick db n") (force simp: owner_entry_def)+
  show "\<not> holds_bond (get_nick db n) b"
    if "last_write op_bond (undo_restores Hash160 (dirty states)) b = None"
    using undo_restores_index(1) [OF ok m] that by (cases "get_nick db n") (force simp: holds_bond_def)+
  show "owner_entry Hash160 (get_nick db' n) k = None"
    if "last_write op_owner (undo_erases Hash160 db' (dirty states)) (k, n) = None"
    using undo_erases_index(2) [OF ok m, of db' _ k] that by (cases "get_nick db' n") (force simp: owner_entry_def)+
  show "\<not> holds_bond (get_nick db' n) b"
    if "last_write op_bond (undo_erases Hash160 db' (dirty states)) b = None"
    using undo_erases_index(1) [OF ok m, of db'] that by (cases "get_nick db' n") (force simp: holds_bond_def)+
qed

lemma undo_tail_none:
  "last_write op_nick (undo_tail db h u) n = None" "last_write op_owner (undo_tail db h u) k = None"
  unfolding last_write_iff by (auto simp: undo_tail_def undo_bond_ops_def)

lemma undo_tail_bond:
  "last_write op_bond (undo_tail db h u) b = (if b \<in> set (touched_bonds u) then Some (get_bond db b) else None)"
proof (cases "b \<in> set (touched_bonds u)")
  case False
  then have "last_write op_bond (undo_tail db h u) b = None"
    unfolding last_write_iff by (auto simp: undo_tail_def undo_bond_ops_def rememberBondIndexUndo_def split: option.splits if_splits)
  then show ?thesis using False by simp
next
  case True
  have op: "op_bond (undo_bond_ops (rememberBondIndexUndo db c)) = Some (c, get_bond db c)" for c
    by (simp add: undo_bond_ops_def rememberBondIndexUndo_def split: option.splits)
  have "last_write op_bond (undo_tail db h u) b \<noteq> None"
    using True op unfolding last_write_iff by (fastforce simp: undo_tail_def)
  then obtain v where v: "last_write op_bond (undo_tail db h u) b = Some v" by blast
  from last_write_SomeD [OF v] have "v = get_bond db b"
    by (auto simp: undo_tail_def op split: if_splits)
  then show ?thesis using v True by simp
qed

lemma nick_op_only: "op_nick x = Some y \<Longrightarrow> op_owner x = None \<and> op_bond x = None"
  by (cases x) auto

lemma restore_nick:
  assumes ok: "block_ok Hash160 db h states u"
  defines "db' \<equiv> connect_nicknames Hash160 db h (collect_updates states u)"
  shows "get_nick (disconnect_nicknames Hash160 db' h (up_blockHeight u)) n = get_nick db n"
proof -
  let ?r = "last_write op_nick (undo_restores Hash160 (dirty states)) n"
  have "last_write op_nick (undo_erases Hash160 db' (dirty states)) n = None"
    unfolding last_write_iff by (auto elim!: undo_erasesE [OF ok])
  then have val: "get_nick (disconnect_nicknames Hash160 db' h (up_blockHeight u)) n =
      (case ?r of None \<Rightarrow> get_nick db' n | Some v \<Rightarrow> v)"
    unfolding db'_def disconnect_batch [OF ok] nick.get_batch
    by (simp add: last_write_append undo_tail_none split: option.splits)
  show ?thesis
  proof (cases ?r)
    case None
    then have "n \<notin> fst ` set (dirty states)" using undo_restores_nick [OF ok] by force
    then have "map_of (dirty states) n = None" by (simp add: map_of_eq_None_iff)
    then show ?thesis using None val connect_nick [OF ok, of n] by (simp add: db'_def)
  next
    case (Some v)
    from last_write_SomeD [OF this] have "v = get_nick db n" by (auto elim!: undo_restoresE [OF ok])
    then show ?thesis using Some val by simp
  qed
qed

lemma dirty_new:
  assumes "block_ok Hash160 db h states u" "(n, st) \<in> set (dirty states)"
  shows "get_nick (connect_nicknames Hash160 db h (collect_updates states u)) n = new_record st"
proof -
  have "map_of (dirty states) n = Some st"
    using assms distinct_dirty [of states] by (simp add: block_ok_def)
  then show ?thesis by (simp add: connect_nick [OF assms(1)])
qed

lemma restore_owner:
  assumes ok: "block_ok Hash160 db h states u"
  defines "db' \<equiv> connect_nicknames Hash160 db h (collect_updates states u)"
  shows "get_owner (disconnect_nicknames Hash160 db' h (up_blockHeight u)) (k, n) = get_owner db (k, n)"
proof -
  let ?r = "last_write op_owner (undo_restores Hash160 (dirty states)) (k, n)"
  let ?e = "last_write op_owner (undo_erases Hash160 db' (dirty states)) (k, n)"
  have idx: "get_owner db (k, n) = owner_entry Hash160 (get_nick db n) k"
    using ok by (simp add: block_ok_def owner_index_ok_def)
  have val: "get_owner (disconnect_nicknames Hash160 db' h (up_blockHeight u)) (k, n) =
      (case ?r of None \<Rightarrow> (case ?e of None \<Rightarrow> get_owner db' (k, n) | Some v \<Rightarrow> v) | Some v \<Rightarrow> v)"
    unfolding db'_def disconnect_batch [OF ok] owner.get_batch
    by (simp add: last_write_append undo_tail_none split: option.splits)
  show ?thesis
  proof (cases ?r)
    case (Some v)
    from last_write_SomeD [OF this] have "v = Some True" "owner_entry Hash160 (get_nick db n) k = Some True"
      by (auto elim!: undo_restoresE [OF ok] simp: owner_entry_def dest: nick_op_only)
    then show ?thesis using Some val idx by simp
  next
    case r: None
    show ?thesis
    proof (cases ?e)
      case (Some v)
      from last_write_SomeD [OF this] obtain st where m: "v = None" "(n, st) \<in> set (dirty states)"
        by (auto elim!: undo_erasesE [OF ok])
      have "owner_entry Hash160 (get_nick db n) k = None"
        using r by (rule undo_silent(1) [OF ok m(2)])
      then show ?thesis using Some r val idx m(1) by simp
    next
      case e: None
      have "owner_entry Hash160 (get_nick db' n) k = owner_entry Hash160 (get_nick db n) k"
      proof (cases "map_of (dirty states) n")
        case None
        then show ?thesis using connect_nick [OF ok, of n] by (simp add: db'_def)
      next
        case (Some st)
        then have m: "(n, st) \<in> set (dirty states)" by (rule map_of_SomeD)
        have "owner_entry Hash160 (get_nick db n) k = None"
          using r by (rule undo_silent(1) [OF ok m])
        moreover have "owner_entry Hash160 (get_nick db' n) k = None"
          using e by (rule undo_silent(3) [OF ok m])
        ultimately show ?thesis by simp
      qed
      then show ?thesis using r e val idx connect_owner [OF ok, of k n] by (simp add: db'_def)
    qed
  qed
qed

lemma restore_bond:
  assumes ok: "block_ok Hash160 db h states u"
  defines "db' \<equiv> connect_nicknames Hash160 db h (collect_updates states u)"
  shows "get_bond (disconnect_nicknames Hash160 db' h (up_blockHeight u)) b = get_bond db b"
proof (cases "b \<in> set (touched_bonds u)")
  case True
  then show ?thesis unfolding db'_def disconnect_batch [OF ok] bond.get_batch
    by (simp add: last_write_append undo_tail_bond)
next
  case False
  let ?r = "last_write op_bond (undo_restores Hash160 (dirty states)) b"
  let ?e = "last_write op_bond (undo_erases Hash160 db' (dirty states)) b"
  have val: "get_bond (disconnect_nicknames Hash160 db' h (up_blockHeight u)) b =
      (case ?r of None \<Rightarrow> (case ?e of None \<Rightarrow> get_bond db' b | Some v \<Rightarrow> v) | Some v \<Rightarrow> v)"
    unfolding db'_def disconnect_batch [OF ok] bond.get_batch
    using False by (simp add: last_write_append undo_tail_bond split: option.splits)
  show ?thesis
  proof (cases ?r)
    case (Some v)
    from last_write_SomeD [OF this] obtain n info where "v = Some n" "get_nick db n = Some info"
        "HasBondOutpoint info" "GetBondOutpoint info = b"
      by (auto elim!: undo_restoresE [OF ok] dest: nick_op_only)
    then show ?thesis using Some val ok by (auto simp: block_ok_def records_ok_def)
  next
    case r: None
    then have old: "\<not> holds_bond (get_nick db n) b" if "(n, st) \<in> set (dirty states)" for n st
      by (rule undo_silent(2) [OF ok that])
    show ?thesis
    proof (cases ?e)
      case (Some v)
      from last_write_SomeD [OF this] obtain n st cur where e: "v = None" "(n, st) \<in> set (dirty states)"
          "get_nick db' n = Some cur" "HasBondOutpoint cur" "GetBondOutpoint cur = b"
        by (auto elim!: undo_erasesE [OF ok])
      have "new_record st = Some cur" using dirty_new [OF ok e(2)] e(3) by (simp add: db'_def)
      moreover have "state_ok db (n, st)" using ok e(2) by (simp add: block_ok_def)
      ultimately have "get_bond db b = None"
        using e(4,5) old [OF e(2)] by (auto simp: state_ok_def new_record_def holds_bond_def split: if_splits)
      then show ?thesis using Some r val e(1) by simp
    next
      case e: None
      have "\<not> holds_bond (new_record st) b" if "(n, st) \<in> set (dirty states)" for n st
        using undo_silent(4) [OF ok that e] dirty_new [OF ok that] by (simp add: db'_def)
      with old have "get_bond db' b = get_bond db b"
        unfolding db'_def by (intro connect_bond [OF ok False]) auto
      then show ?thesis using r e val by simp
    qed
  qed
qed

lemma undo_kind:
  assumes "x \<in> set (undo_erases Hash160 db' xs) \<or> x \<in> set (undo_restores Hash160 xs)"
  shows "op_undo x = None" "op_ready x = None" "op_pricing x = None" "op_pricing_undo x = None"
    "op_bond_undo x = None" "op_reg x = None"
  using assms
  by (auto simp: undo_erases_def undo_restores_def undo_erase_ops_def undo_restore_ops_def index_ops Let_def
      split: option.splits if_splits)

lemma undo_other [simp]:
  "last_write op_undo (undo_erases Hash160 db' xs) a = None" "last_write op_undo (undo_restores Hash160 xs) a = None"
  "last_write op_ready (undo_erases Hash160 db' xs) b = None" "last_write op_ready (undo_restores Hash160 xs) b = None"
  "last_write op_pricing (undo_erases Hash160 db' xs) b = None" "last_write op_pricing (undo_restores Hash160 xs) b = None"
  "last_write op_pricing_undo (undo_erases Hash160 db' xs) a = None" "last_write op_pricing_undo (undo_restores Hash160 xs) a = None"
  "last_write op_bond_undo (undo_erases Hash160 db' xs) a = None" "last_write op_bond_undo (undo_restores Hash160 xs) a = None"
  "last_write op_reg (undo_erases Hash160 db' xs) c = None" "last_write op_reg (undo_restores Hash160 xs) c = None"
  unfolding last_write_iff using undo_kind by (metis option.distinct(1))+

lemma undo_tail_admin:
  "last_write op_undo (undo_tail db h u) k = (if k = h then Some None else None)"
  "last_write op_bond_undo (undo_tail db h u) k = (if k = h then Some None else None)"
  "last_write op_pricing_undo (undo_tail db h u) k = (if k = h then Some None else None)"
  "last_write op_reg (undo_tail db h u) ht = (if ht = up_blockHeight u then Some None else None)"
  "last_write op_ready (undo_tail db h u) z = None"
  "last_write op_pricing (undo_tail db h u) z =
     Some (if pricing_existedBefore (pricing_undo_entry db) then Some (previousState (pricing_undo_entry db)) else None)"
proof -
  have b: "op_undo (undo_bond_ops e) = None" "op_bond_undo (undo_bond_ops e) = None" "op_pricing_undo (undo_bond_ops e) = None"
    "op_reg (undo_bond_ops e) = None" "op_ready (undo_bond_ops e) = None" "op_pricing (undo_bond_ops e) = None" for e
    by (simp_all add: undo_bond_ops_def)
  have m: "last_write proj (map (\<lambda>b. undo_bond_ops (rememberBondIndexUndo db b)) (touched_bonds u)) k = None"
    if "\<And>e. proj (undo_bond_ops e) = None" for proj :: "DbOp \<Rightarrow> ('k \<times> 'v option) option" and k
    unfolding last_write_iff using that by auto
  show "last_write op_undo (undo_tail db h u) k = (if k = h then Some None else None)"
    "last_write op_bond_undo (undo_tail db h u) k = (if k = h then Some None else None)"
    "last_write op_pricing_undo (undo_tail db h u) k = (if k = h then Some None else None)"
    "last_write op_reg (undo_tail db h u) ht = (if ht = up_blockHeight u then Some None else None)"
    "last_write op_ready (undo_tail db h u) z = None"
    "last_write op_pricing (undo_tail db h u) z =
       Some (if pricing_existedBefore (pricing_undo_entry db) then Some (previousState (pricing_undo_entry db)) else None)"
    unfolding undo_tail_def last_write_append by (simp_all add: m b last_write_single last_write_Cons2)
qed

lemma restore_pricing:
  assumes "pricing_ok db"
  shows "(if pricing_existedBefore (pricing_undo_entry db) then Some (previousState (pricing_undo_entry db)) else None) = db_pricing db"
  using assms by (auto simp: pricing_undo_entry_def ReadNicknamePricingState_def pricing_ok_def split: option.splits)

lemma restore_admin:
  assumes ok: "block_ok Hash160 db h states u"
  defines "db' \<equiv> connect_nicknames Hash160 db h (collect_updates states u)"
  defines "db'' \<equiv> disconnect_nicknames Hash160 db' h (up_blockHeight u)"
  shows "Mapping.lookup (db_undo db'') k = Mapping.lookup (db_undo db) k"
    and "Mapping.lookup (db_bond_undo db'') k = Mapping.lookup (db_bond_undo db) k"
    and "Mapping.lookup (db_pricing_undo db'') k = Mapping.lookup (db_pricing_undo db) k"
    and "Mapping.lookup (db_reg_count db'') ht = Mapping.lookup (db_reg_count db) ht"
    and "db_ready db'' = db_ready db" "db_pricing db'' = db_pricing db"
  using ok connect_admin [OF ok] restore_pricing [of db]
  unfolding db''_def db'_def disconnect_batch [OF ok]
  by (simp_all add: block_ok_def block_fresh_def undo.get_batch bundo.get_batch pundo.get_batch reg.get_batch
      ready.get_batch [of _ _ "()"] pricing.get_batch [of _ _ "()"] last_write_append undo_tail_admin)

lemma disconnect_connect:
  assumes "block_ok Hash160 db h states u"
  shows "disconnect_nicknames Hash160 (connect_nicknames Hash160 db h (collect_updates states u)) h (up_blockHeight u) = db"
  using restore_nick [OF assms] restore_bond [OF assms] restore_owner [OF assms] restore_admin [OF assms]
  by (intro db_eqI) (auto simp: fun_eq_iff)

subsection \<open>The owner index\<close>

definition index_current :: "key_hash \<Rightarrow> NicknameStateDB \<Rightarrow> bool" where
  "index_current Hash160 db \<longleftrightarrow> finite (Mapping.keys (db_nickname db)) \<and> finite (Mapping.keys (db_owner db)) \<and>
     (db_ready db = Some True \<longrightarrow> owner_index_ok Hash160 db)"

lemma ordered_keys_set: "finite (Mapping.keys m) \<Longrightarrow> set (Mapping.ordered_keys m) = Mapping.keys m"
  by (simp add: Mapping.ordered_keys_def)

lemma lookup_keys: "Mapping.lookup m k = Some v \<Longrightarrow> k \<in> Mapping.keys m"
  by (simp add: keys_is_none_rep Option.is_none_def)

definition index_writes :: "key_hash \<Rightarrow> NicknameStateDB \<Rightarrow> DbOp list" where
  "index_writes Hash160 db =
     concat (map (\<lambda>n. case get_nick db n of None \<Rightarrow> []
       | Some info \<Rightarrow> (case TryGetOwnerKeyID Hash160 info of None \<Rightarrow> [] | Some k \<Rightarrow> [WriteO (k, n) True]))
       (Mapping.ordered_keys (db_nickname db)))"

lemma index_writes_op:
  assumes "x \<in> set (index_writes Hash160 db)"
  shows "\<exists>n k. x = WriteO (k, n) True \<and> owner_entry Hash160 (get_nick db n) k = Some True"
proof -
  obtain n where n: "x \<in> set (case get_nick db n of None \<Rightarrow> []
      | Some info \<Rightarrow> (case TryGetOwnerKeyID Hash160 info of None \<Rightarrow> [] | Some k \<Rightarrow> [WriteO (k, n) True]))"
    using assms unfolding index_writes_def by auto
  then obtain info where i: "get_nick db n = Some info" by (cases "get_nick db n") auto
  then show ?thesis using n by (cases "TryGetOwnerKeyID Hash160 info") (auto simp: owner_entry_def)
qed

lemma index_writes_complete:
  assumes "finite (Mapping.keys (db_nickname db))" "owner_entry Hash160 (get_nick db n) k = Some True"
  shows "WriteO (k, n) True \<in> set (index_writes Hash160 db)"
proof -
  obtain info where i: "get_nick db n = Some info" "TryGetOwnerKeyID Hash160 info = Some k"
    using assms(2) by (auto simp: owner_entry_def split: option.splits if_splits)
  then have "n \<in> set (Mapping.ordered_keys (db_nickname db))"
    using lookup_keys [OF i(1)] assms(1) by (simp add: ordered_keys_set)
  then show ?thesis unfolding index_writes_def using i by (auto intro!: bexI [of _ n])
qed

lemma ensure_nick: "get_nick (EnsureOwnerIndexReady Hash160 db) = get_nick db"
proof (rule ext)
  fix n
  have "last_write op_nick (map EraseO (Mapping.ordered_keys (db_owner db)) @ index_writes Hash160 db @ [WriteReady True]) n = None"
    unfolding last_write_iff using index_writes_op by fastforce
  then show "get_nick (EnsureOwnerIndexReady Hash160 db) n = get_nick db n"
    by (simp add: EnsureOwnerIndexReady_def index_writes_def [symmetric] nick.get_batch)
qed

lemma ensure_owner:
  assumes "index_current Hash160 db"
  shows "owner_index_ok Hash160 (EnsureOwnerIndexReady Hash160 db)"
proof (cases "db_ready db = Some True")
  case True
  then show ?thesis using assms by (simp add: EnsureOwnerIndexReady_def index_current_def)
next
  case False
  have "get_owner (EnsureOwnerIndexReady Hash160 db) (k, n) = owner_entry Hash160 (get_nick db n) k" for k n
  proof -
    let ?w = "last_write op_owner (index_writes Hash160 db) (k, n)"
    let ?e = "last_write op_owner (map EraseO (Mapping.ordered_keys (db_owner db))) (k, n)"
    have val: "get_owner (EnsureOwnerIndexReady Hash160 db) (k, n) =
        (case ?w of None \<Rightarrow> (case ?e of None \<Rightarrow> get_owner db (k, n) | Some v \<Rightarrow> v) | Some v \<Rightarrow> v)"
      using False by (simp add: EnsureOwnerIndexReady_def index_writes_def [symmetric] owner.get_batch
          last_write_append last_write_single split: option.splits)
    show ?thesis
    proof (cases ?w)
      case (Some v)
      from last_write_SomeD [OF this] obtain x where "x \<in> set (index_writes Hash160 db)" "op_owner x = Some ((k, n), v)" by blast
      with index_writes_op [of x Hash160 db] have "v = Some True" "owner_entry Hash160 (get_nick db n) k = Some True" by auto
      then show ?thesis using Some val by simp
    next
      case None
      then have "owner_entry Hash160 (get_nick db n) k \<noteq> Some True"
        using index_writes_complete [of db Hash160 n k] assms unfolding last_write_iff index_current_def by fastforce
      moreover have "(case ?e of None \<Rightarrow> get_owner db (k, n) | Some v \<Rightarrow> v) = None"
      proof (cases ?e)
        case None
        then have "(k, n) \<notin> Mapping.keys (db_owner db)"
          using assms unfolding last_write_iff by (auto simp: index_current_def ordered_keys_set)
        then show ?thesis using None lookup_keys [of "db_owner db" "(k, n)"] by (cases "get_owner db (k, n)") auto
      next
        case (Some v)
        from last_write_SomeD [OF this] show ?thesis using Some by auto
      qed
      ultimately show ?thesis using None val by (simp add: owner_entry_None)
    qed
  qed
  then show ?thesis by (simp add: owner_index_ok_def ensure_nick)
qed

subsection \<open>Listing\<close>

lemma finite_owner_apply:
  "finite (Mapping.keys (db_owner db)) \<Longrightarrow> finite (Mapping.keys (db_owner (apply_op x db)))"
  by (cases x) simp_all

lemma finite_owner_batch: "finite (Mapping.keys (db_owner db)) \<Longrightarrow> finite (Mapping.keys (db_owner (WriteBatch db ops)))"
proof (induction ops arbitrary: db)
  case (Cons x ops)
  show ?case using Cons.IH [OF finite_owner_apply [OF Cons.prems]] by (simp add: WriteBatch_def)
qed (simp add: WriteBatch_def)

lemma finite_owner_ensure:
  "finite (Mapping.keys (db_owner db)) \<Longrightarrow> finite (Mapping.keys (db_owner (EnsureOwnerIndexReady Hash160 db)))"
  unfolding EnsureOwnerIndexReady_def by (simp add: finite_owner_batch)

definition owned_names :: "NicknameStateDB \<Rightarrow> uint160 \<Rightarrow> string list" where
  "owned_names db k = map snd (filter (\<lambda>key. fst key = k) (Mapping.ordered_keys (db_owner db)))"

lemma owned_names_set:
  assumes "finite (Mapping.keys (db_owner db))" "owner_index_ok Hash160 db"
  shows "n \<in> set (owned_names db k) \<longleftrightarrow> (\<exists>info. get_nick db n = Some info \<and> TryGetOwnerKeyID Hash160 info = Some k)"
proof -
  have "n \<in> set (owned_names db k) \<longleftrightarrow> (k, n) \<in> Mapping.keys (db_owner db)"
    using assms(1) by (force simp: owned_names_def ordered_keys_set)
  also have "\<dots> \<longleftrightarrow> get_owner db (k, n) \<noteq> None" by (simp add: keys_is_none_rep Option.is_none_def)
  also have "\<dots> \<longleftrightarrow> (\<exists>info. get_nick db n = Some info \<and> TryGetOwnerKeyID Hash160 info = Some k)"
    using assms(2) by (auto simp: owner_index_ok_def owner_entry_def split: option.splits)
  finally show ?thesis .
qed

lemma owned_names_distinct: "distinct (owned_names db k)"
proof -
  have "distinct (Mapping.ordered_keys (db_owner db))" by (simp add: Mapping.ordered_keys_def)
  moreover have "inj_on snd (set (filter (\<lambda>key. fst key = k) xs))" for xs :: "(uint160 \<times> string) list"
    by (auto simp: inj_on_def)
  ultimately show ?thesis unfolding owned_names_def by (simp add: distinct_map)
qed

lemma map_filter_length: "length (List.map_filter f xs) \<le> length xs"
  by (simp add: List.map_filter_def)

lemma owner_scan_length:
  assumes "finite (Mapping.keys (db_owner db))" "owner_index_ok Hash160 db" "finite (Mapping.keys (db_nickname db))"
  shows "length (owner_scan db start k) \<le> card (Mapping.keys (db_nickname db))"
proof -
  have sub: "set (owned_names db k) \<subseteq> Mapping.keys (db_nickname db)"
  proof
    fix n assume "n \<in> set (owned_names db k)"
    then obtain info where "get_nick db n = Some info" using owned_names_set [OF assms(1,2), of n k] by blast
    then show "n \<in> Mapping.keys (db_nickname db)" by (rule lookup_keys)
  qed
  have "length (owner_scan db start k) \<le> length (db_scan start (owned_names db k))"
    unfolding owner_scan_def owned_names_def [symmetric] by (rule map_filter_length)
  also have "\<dots> \<le> length (owned_names db k)"
    unfolding db_scan_def by (rule order_trans [OF length_filter_le]) simp
  also have "\<dots> = card (set (owned_names db k))" by (simp add: distinct_card owned_names_distinct)
  also have "\<dots> \<le> card (Mapping.keys (db_nickname db))"
    by (rule card_mono [OF assms(3) sub])
  finally show ?thesis .
qed

lemma map_filter_set: "y \<in> set (List.map_filter f xs) \<longleftrightarrow> (\<exists>x \<in> set xs. f x = Some y)"
  by (force simp: List.map_filter_def)

lemma owner_scan_iff:
  assumes "finite (Mapping.keys (db_owner db))" "owner_index_ok Hash160 db"
  shows "info \<in> set (owner_scan db start k) \<longleftrightarrow>
    (\<exists>n. get_nick db n = Some info \<and> TryGetOwnerKeyID Hash160 info = Some k \<and> (length start, start) \<le> (length n, n))"
    (is "?l \<longleftrightarrow> ?r")
proof
  assume ?l
  then obtain n where "n \<in> set (owned_names db k)" "(length start, start) \<le> (length n, n)" "get_nick db n = Some info"
    unfolding owner_scan_def owned_names_def [symmetric] db_scan_def map_filter_set by (simp del: less_eq_prod_simp) blast
  then show ?r using owned_names_set [OF assms, of n k] by (metis option.inject)
next
  assume ?r
  then obtain n where "get_nick db n = Some info" "TryGetOwnerKeyID Hash160 info = Some k" "(length start, start) \<le> (length n, n)"
    by blast
  moreover from this have "n \<in> set (owned_names db k)" using owned_names_set [OF assms, of n k] by blast
  ultimately show ?l
    unfolding owner_scan_def owned_names_def [symmetric] db_scan_def map_filter_set by (simp del: less_eq_prod_simp) blast
qed

subsection \<open>The window of registrations\<close>

lemma rebuild_sum:
  "0 \<le> tip \<Longrightarrow> RebuildRollingRegistrations db tip =
     (\<Sum>i \<in> {max 0 (tip - PRICING_WINDOW_BLOCKS + 1)..tip}. int (ReadRegistrationCountAtHeight db i))"
  by (simp add: RebuildRollingRegistrations_def Let_def interv_sum_list_conv_sum_set_int)

lemma rebuild_nonneg: "0 \<le> RebuildRollingRegistrations db tip"
  by (cases "0 \<le> tip") (simp_all add: rebuild_sum sum_nonneg, simp add: RebuildRollingRegistrations_def)

lemma rebuild_next:
  assumes "0 \<le> ht"
    and "\<And>i. i \<noteq> ht \<Longrightarrow> ReadRegistrationCountAtHeight db' i = ReadRegistrationCountAtHeight db i"
  shows "RebuildRollingRegistrations db' ht =
    RebuildRollingRegistrations db (ht - 1) - int (ReadRegistrationCountAtHeight db (ht - PRICING_WINDOW_BLOCKS))
      + int (ReadRegistrationCountAtHeight db' ht)"
proof -
  let ?f = "\<lambda>i. int (ReadRegistrationCountAtHeight db i)" and ?g = "\<lambda>i. int (ReadRegistrationCountAtHeight db' i)"
  let ?s = "max 0 (ht - PRICING_WINDOW_BLOCKS + 1)"
  have W: "1 \<le> PRICING_WINDOW_BLOCKS" by (simp add: PRICING_WINDOW_BLOCKS_def)
  have "{?s..ht} = insert ht {?s..ht - 1}" using assms(1) W by auto
  then have new: "RebuildRollingRegistrations db' ht = ?g ht + sum ?g {?s..ht - 1}"
    using rebuild_sum [OF assms(1), of db'] by simp
  have same: "sum ?g {?s..ht - 1} = sum ?f {?s..ht - 1}" using assms(2) by (intro sum.cong) auto
  have "RebuildRollingRegistrations db (ht - 1) = sum ?f {?s..ht - 1} + ?f (ht - PRICING_WINDOW_BLOCKS)"
  proof (cases "PRICING_WINDOW_BLOCKS \<le> ht")
    case True
    then have "{max 0 (ht - 1 - PRICING_WINDOW_BLOCKS + 1)..ht - 1} = insert (ht - PRICING_WINDOW_BLOCKS) {?s..ht - 1}"
      using W by auto
    then show ?thesis using rebuild_sum [of "ht - 1" db] True W by simp
  next
    case False
    then have "?f (ht - PRICING_WINDOW_BLOCKS) = 0" by (simp add: ReadRegistrationCountAtHeight_def)
    moreover have "max 0 (ht - 1 - PRICING_WINDOW_BLOCKS + 1) = ?s" using False by simp
    ultimately show ?thesis using rebuild_sum [of "ht - 1" db] assms(1)
      by (cases "ht = 0") (simp_all add: RebuildRollingRegistrations_def)
  qed
  then show ?thesis using new same by simp
qed

text \<open>The stored sum is the sum over the window, when the state is that of the block before.\<close>

definition window_ok :: "NicknameStateDB \<Rightarrow> int \<Rightarrow> bool" where
  "window_ok db ht \<longleftrightarrow>
     (let st = fst (ReadNicknamePricingState db) in
      lastProcessedHeight st = ht \<longrightarrow> rollingRegistrations st = RebuildRollingRegistrations db ht)"

lemma batch_pricing:
  "db_pricing (WriteNicknameBatch Hash160 db up er bu be h ht c un) =
     Some (ComputeNextPricingState db (fst (ReadNicknamePricingState db)) ht c)"
  unfolding WriteNicknameBatch_def pricing.get_batch [of _ _ "()"] last_write_append
  by (simp add: last_write_single last_write_Cons2)

lemma clamp_idem: "ClampPricingMultiplierPermille (ClampPricingMultiplierPermille x) = ClampPricingMultiplierPermille x"
  by (simp add: ClampPricingMultiplierPermille_def MIN_PRICING_MULTIPLIER_PERMILLE_def MAX_PRICING_MULTIPLIER_PERMILLE_def)

lemma connect_pricing:
  "fst (ReadNicknamePricingState (connect_nicknames Hash160 db h u)) =
     ComputeNextPricingState db (fst (ReadNicknamePricingState db)) (up_blockHeight u) (registeredCount u)"
proof -
  let ?n = "ComputeNextPricingState db (fst (ReadNicknamePricingState db)) (up_blockHeight u) (registeredCount u)"
  have "db_pricing (connect_nicknames Hash160 db h u) = Some ?n" by (simp add: connect_nicknames_def batch_pricing)
  moreover have "0 \<le> rollingRegistrations ?n"
    "ClampPricingMultiplierPermille (multiplierPermille ?n) = multiplierPermille ?n"
    by (simp_all add: ComputeNextPricingState_def Let_def clamp_idem)
  ultimately show ?thesis by (simp add: ReadNicknamePricingState_def [of "connect_nicknames Hash160 db h u"])
qed

lemma connect_window:
  assumes ok: "block_ok Hash160 db h states u" and "0 \<le> up_blockHeight u" and "window_ok db (up_blockHeight u - 1)"
  shows "rollingRegistrations (fst (ReadNicknamePricingState (connect_nicknames Hash160 db h (collect_updates states u)))) =
    RebuildRollingRegistrations (connect_nicknames Hash160 db h (collect_updates states u)) (up_blockHeight u)"
proof -
  let ?db' = "connect_nicknames Hash160 db h (collect_updates states u)"
  let ?ht = "up_blockHeight u"
  have h: "up_blockHeight (collect_updates states u) = ?ht" "registeredCount (collect_updates states u) = registeredCount u"
    by (simp_all add: collect_updates_def Let_def)
  have r: "ReadRegistrationCountAtHeight ?db' i =
      (if i = ?ht then registeredCount u else ReadRegistrationCountAtHeight db i)" for i
    using connect_admin(4) [OF ok, of i] assms(2) by (auto simp: ReadRegistrationCountAtHeight_def)
  have "RebuildRollingRegistrations ?db' ?ht = RebuildRollingRegistrations db (?ht - 1)
      - int (ReadRegistrationCountAtHeight db (?ht - PRICING_WINDOW_BLOCKS)) + int (registeredCount u)"
    using rebuild_next [OF assms(2), of ?db' db] r by simp
  then show ?thesis
    using rebuild_nonneg [of ?db' ?ht] assms(3)
    by (auto simp: connect_pricing h ComputeNextPricingState_def Let_def window_ok_def)
qed

subsection \<open>Properties\<close>

definition example_info :: NicknameInfo where
  "example_info = empty_info\<lparr>info_nickname := ''alice'', info_ownerPubKey := replicate 33 2, bondTxid := 7, bondVout := 1\<rparr>"

definition example_states :: "(string \<times> NicknameWorkingState) list" where
  "example_states = [(''alice'', \<lparr>ws_loaded = True, ws_existedBefore = False, ws_existsNow = True, ws_dirty = True,
     ws_before = empty_info, ws_current = example_info\<rparr>)]"

definition example_updates :: NicknameBlockUpdates where
  "example_updates = \<lparr>upserts = [], erases = [], bondIndexUpserts = [], bondIndexErases = [], undoEntries = [],
     up_blockHeight = 5, registeredCount = 1\<rparr>"

lemma empty_lookup [simp]: "Mapping.lookup Mapping.empty k = None"
  by (simp add: lookup_empty)

lemma example_block_ok: "block_ok Hash160 empty_db 9 example_states example_updates"
proof -
  have "NormalizeKeyName ''alice'' = ''alice''" by code_simp
  then show ?thesis
    by (simp add: block_ok_def state_ok_def dirty_def no_changes_def records_ok_def owner_index_ok_def pricing_ok_def
        block_fresh_def empty_db_def owner_entry_def example_states_def example_updates_def example_info_def)
qed

text \<open>
  Disconnecting a block restores the whole nickname database as it was before the block was
  connected: records, undo data, the bond and owner indices, registration counts and the pricing
  state. The database must be consistent, not know the block, and the working states of the block
  must have been loaded from it.
\<close>

theorem nickname_block_undo:
  assumes "block_ok Hash160 db blockHash states u"
  shows "disconnect_nicknames Hash160 (connect_nicknames Hash160 db blockHash (collect_updates states u))
    blockHash (up_blockHeight u) = db"
  using assms by (rule disconnect_connect)

theorem nickname_block_undo_witness:
  "disconnect_nicknames (\<lambda>_. 3) (connect_nicknames (\<lambda>_. 3) empty_db 9 (collect_updates example_states example_updates))
     9 (up_blockHeight example_updates) = empty_db"
  using example_block_ok by (rule nickname_block_undo)

text \<open>
  After a block is connected, reading a name gives the new record for each changed name and
  the old one for all others, and the owner index has exactly one entry for each record with a
  compressed key.
\<close>

theorem nickname_block_state:
  assumes "block_ok Hash160 db blockHash states u"
  defines "db' \<equiv> connect_nicknames Hash160 db blockHash (collect_updates states u)"
  shows "Mapping.lookup (db_nickname db') n =
      (case map_of (dirty states) n of None \<Rightarrow> Mapping.lookup (db_nickname db) n | Some st \<Rightarrow> new_record st) \<and>
    owner_index_ok Hash160 db'"
  unfolding db'_def using connect_nick [OF assms(1)] connect_owner [OF assms(1)] by (simp add: owner_index_ok_def)

theorem nickname_block_state_witness:
  "Mapping.lookup (db_nickname (connect_nicknames (\<lambda>_. 3) empty_db 9 (collect_updates example_states example_updates))) ''alice'' =
     Some example_info"
  using nickname_block_state [OF example_block_ok, of "\<lambda>_. 3" "''alice''"]
  by (simp add: dirty_def example_states_def new_record_def)

text \<open>
  The number of recent registrations that prices follow is kept exactly: after each block the
  running sum equals the sum over the heights of the window.
\<close>

theorem registration_window_exact:
  assumes "block_ok Hash160 db blockHash states u" and "0 \<le> up_blockHeight u"
    and "window_ok db (up_blockHeight u - 1)"
  defines "db' \<equiv> connect_nicknames Hash160 db blockHash (collect_updates states u)"
  shows "rollingRegistrations (fst (ReadNicknamePricingState db')) = RebuildRollingRegistrations db' (up_blockHeight u)"
  unfolding db'_def using assms(1-3) by (rule connect_window)

theorem registration_window_exact_witness:
  "let db' = connect_nicknames (\<lambda>_. 3) empty_db 9 (collect_updates example_states example_updates) in
   rollingRegistrations (fst (ReadNicknamePricingState db')) = RebuildRollingRegistrations db' (up_blockHeight example_updates)"
proof -
  have "window_ok empty_db (up_blockHeight example_updates - 1)"
    by (simp add: window_ok_def example_updates_def empty_db_def ReadNicknamePricingState_def empty_pricing_state_def)
  moreover have "0 \<le> up_blockHeight example_updates" by (simp add: example_updates_def)
  ultimately show ?thesis using registration_window_exact [OF example_block_ok] by (simp add: Let_def)
qed

text \<open>
  Listing the names of a key, with a limit that is large enough, gives exactly the records with
  that key whose names do not come before the start name, by length first and then by letters;
  where the owner index was not built before, the listing builds it first.
\<close>

theorem owner_listing_exact:
  assumes "index_current Hash160 db" and "0 < limit" and "card (Mapping.keys (db_nickname db)) \<le> limit"
  shows "info \<in> set (fst (ListNicknamesByOwnerKeyID Hash160 db k startNickname limit)) \<longleftrightarrow>
    (\<exists>n. Mapping.lookup (db_nickname db) n = Some info \<and> TryGetOwnerKeyID Hash160 info = Some k \<and>
       (length (NormalizeKeyName startNickname), NormalizeKeyName startNickname) \<le> (length n, n))"
proof -
  let ?db = "EnsureOwnerIndexReady Hash160 db" and ?s = "NormalizeKeyName startNickname"
  have f: "finite (Mapping.keys (db_owner ?db))" "db_nickname ?db = db_nickname db"
    using assms(1) ensure_nick [of Hash160 db]
    by (simp_all add: index_current_def finite_owner_ensure lookup.rep_eq rep_inject)
  have "length (owner_scan ?db ?s k) \<le> limit"
    using owner_scan_length [OF f(1) ensure_owner [OF assms(1)], of ?s k] assms f(2) by (simp add: index_current_def)
  then show ?thesis
    using assms(2) owner_scan_iff [OF f(1) ensure_owner [OF assms(1)], of info ?s k]
    by (simp add: ListNicknamesByOwnerKeyID_def Let_def ensure_nick del: less_eq_prod_simp)
qed

theorem owner_listing_exact_witness:
  "example_info \<in> set (fst (ListNicknamesByOwnerKeyID (\<lambda>_. 3)
     (empty_db\<lparr>db_nickname := Mapping.update ''alice'' example_info Mapping.empty\<rparr>) 3 [] 1))"
proof -
  let ?db = "empty_db\<lparr>db_nickname := Mapping.update ''alice'' example_info Mapping.empty\<rparr>"
  have ok: "index_current (\<lambda>_. 3) ?db" by (simp add: index_current_def empty_db_def)
  have "card (Mapping.keys (db_nickname ?db)) \<le> 1" by simp
  moreover have "TryGetOwnerKeyID (\<lambda>_. 3) example_info = Some 3"
    by (simp add: TryGetOwnerKeyID_def example_info_def COMPRESSED_SIZE_def)
  moreover have "NormalizeKeyName [] = []" by code_simp
  ultimately show ?thesis
    using owner_listing_exact [OF ok, of 1 example_info 3 "[]"] by (simp add: lookup_update')
qed

definition paging_db :: NicknameStateDB where
  "paging_db = empty_db\<lparr>db_nickname :=
     Mapping.update ''abcd'' (example_info\<lparr>info_nickname := ''abcd''\<rparr>)
       (Mapping.update ''zzz'' (example_info\<lparr>info_nickname := ''zzz''\<rparr>) Mapping.empty)\<rparr>"

text \<open>
  Listing the names of a wallet in pages loses names: the store is searched from the start name
  by length first, while a page is ordered by letters. With the names \<^verbatim>\<open>abcd\<close> and \<^verbatim>\<open>zzz\<close> the first page of
  one name is \<^verbatim>\<open>abcd\<close>, and listing from there on never gives \<^verbatim>\<open>zzz\<close>.
\<close>

theorem wallet_listing_loses_names:
  "map info_nickname (fst (ListNicknamesForOwnerKeyIDs (\<lambda>_. 3) paging_db [3] [] 1)) = [''abcd''] \<and>
   map info_nickname (fst (ListNicknamesForOwnerKeyIDs (\<lambda>_. 3) paging_db [3] ''abcd'' 500)) = [''abcd'']"
  by code_simp

end
