(* ===== verification/Nickname_Consensus.thy ===== *)
theory Nickname_Consensus
  imports Nickname_Rules Nickname_Blocks
begin

text \<open>
  The nickname operations of a block: \<^verbatim>\<open>BuildNicknameBlockUpdates\<close> of \<^verbatim>\<open>src/src/validation.cpp\<close>. Its local
  variables and the three lambdas that capture them are a record and three functions on it; each case of the
  \<^verbatim>\<open>switch\<close> on the type of an operation is a function of its own. Heights are integers: the sums stay below
  the range of \<^verbatim>\<open>int\<close> for any chain that can exist.
\<close>

record BlockWork =
  bw_states :: "(string, NicknameWorkingState) mapping"
  nicknameBondOutpoints :: "(string, COutPoint) mapping"
  bondOutpointOwners :: "(COutPoint, string) mapping"
  bw_updates :: NicknameBlockUpdates

definition empty_updates :: NicknameBlockUpdates where
  "empty_updates = \<lparr>upserts = [], erases = [], bondIndexUpserts = [], bondIndexErases = [], undoEntries = [],
     up_blockHeight = 0, registeredCount = 0\<rparr>"

definition empty_state :: NicknameWorkingState where
  "empty_state = \<lparr>ws_loaded = False, ws_existedBefore = False, ws_existsNow = False, ws_dirty = False,
     ws_before = empty_info, ws_current = empty_info\<rparr>"

subsection \<open>The lambdas\<close>

definition put_state :: "string \<Rightarrow> NicknameWorkingState \<Rightarrow> BlockWork \<Rightarrow> BlockWork" where
  "put_state nickname st w = w\<lparr>bw_states := Mapping.update nickname st (bw_states w)\<rparr>"

definition get_state :: "BlockWork \<Rightarrow> string \<Rightarrow> NicknameWorkingState" where
  "get_state w nickname = (case Mapping.lookup (bw_states w) nickname of None \<Rightarrow> empty_state | Some st \<Rightarrow> st)"

definition indexBondOutpoint :: "string \<Rightarrow> NicknameWorkingState \<Rightarrow> BlockWork \<Rightarrow> BlockWork" where
  "indexBondOutpoint nickname st w =
     (let w = (case Mapping.lookup (nicknameBondOutpoints w) nickname of
            None \<Rightarrow> w
          | Some prev \<Rightarrow>
              w\<lparr>bondOutpointOwners := Mapping.delete prev (bondOutpointOwners w),
                nicknameBondOutpoints := Mapping.delete nickname (nicknameBondOutpoints w)\<rparr>)
      in if ws_existsNow st \<and> HasBondOutpoint (ws_current st) then
           let outpoint = GetBondOutpoint (ws_current st)
           in w\<lparr>nicknameBondOutpoints := Mapping.default nickname outpoint (nicknameBondOutpoints w),
                bondOutpointOwners := Mapping.default outpoint nickname (bondOutpointOwners w)\<rparr>
         else w)"

definition loadState :: "NicknameStateDB \<Rightarrow> string \<Rightarrow> BlockWork \<Rightarrow> BlockWork" where
  "loadState db nickname w =
     (let st = get_state w nickname in
      if ws_loaded st then w
      else let st = (case ReadNickname db nickname of
               None \<Rightarrow> st\<lparr>ws_loaded := True, ws_existsNow := False, ws_existedBefore := False\<rparr>
             | Some stored \<Rightarrow>
                 st\<lparr>ws_loaded := True, ws_existsNow := True, ws_existedBefore := True,
                    ws_before := stored, ws_current := stored\<rparr>)
        in indexBondOutpoint nickname st (put_state nickname st w))"

definition lookupBondNicknameByOutpoint ::
  "NicknameStateDB \<Rightarrow> COutPoint \<Rightarrow> BlockWork \<Rightarrow> string option \<times> BlockWork" where
  "lookupBondNicknameByOutpoint db outpoint w =
     (case Mapping.lookup (bondOutpointOwners w) outpoint of
        Some nickname \<Rightarrow> (Some nickname, w)
      | None \<Rightarrow>
          (case ReadNicknameByBondOutpoint db outpoint of
             None \<Rightarrow> (None, w)
           | Some indexedNickname \<Rightarrow> (Some indexedNickname, loadState db indexedNickname w)))"

fun spent_in_block ::
  "NicknameStateDB \<Rightarrow> CTxIn list \<Rightarrow> spent_bonds \<Rightarrow> BlockWork \<Rightarrow> (spent_bonds \<times> BlockWork) result" where
  "spent_in_block db [] spent w = Inr (spent, w)"
| "spent_in_block db (txin # ins) spent w =
     (case lookupBondNicknameByOutpoint db (prevout txin) w of
        (None, w) \<Rightarrow> spent_in_block db ins spent w
      | (Some spentNickname, w) \<Rightarrow>
          rbind (emplace_spent spentNickname (prevout txin) spent) (\<lambda>spent.
            spent_in_block db ins spent w))"

subsection \<open>The cases of the switch\<close>

text \<open>Writing a changed record back to the state of its name.\<close>

definition set_record :: "string \<Rightarrow> NicknameInfo \<Rightarrow> BlockWork \<Rightarrow> BlockWork" where
  "set_record nickname info w =
     put_state nickname ((get_state w nickname)\<lparr>ws_current := info, ws_dirty := True\<rparr>) w"

definition reindex :: "string \<Rightarrow> BlockWork \<Rightarrow> BlockWork" where
  "reindex nickname w = indexBondOutpoint nickname (get_state w nickname) w"

definition block_register ::
  "NicknameContext \<Rightarrow> int \<Rightarrow> int \<Rightarrow> CTransaction \<Rightarrow> CTxUndo option \<Rightarrow> NicknameOperation \<Rightarrow> spent_bonds \<Rightarrow>
   Status \<Rightarrow> BlockWork \<Rightarrow> BlockWork result" where
  "block_register cx blockHeight mult tx txundo operation spent status w =
     (let name = op_nickname operation; current = get_state w name in
      rbind (require (spent = []) ''register transaction cannot spend nickname bond outpoint'') (\<lambda>_.
      rbind (TxHasOwnerAuthorizationInput cx tx txundo (ownerPubKey operation)) (\<lambda>_.
      rbind (require (\<not> (ws_existsNow current \<and> status \<noteq> EXPIRED_AVAILABLE \<and> status \<noteq> RELEASED \<and>
                        status \<noteq> BOND_CLAIMABLE)) ''nickname is not available for registration'') (\<lambda>_.
      let w = (if ws_existsNow current \<and> HasBondOutpoint (ws_current current) \<and>
                  (status = RELEASED \<or> status = BOND_CLAIMABLE)
            then w\<lparr>bw_updates := (bw_updates w)\<lparr>bondIndexUpserts :=
                   bondIndexUpserts (bw_updates w) @ [(GetBondOutpoint (ws_current current), name)]\<rparr>\<rparr>
            else w);
          pricing = GetPricing (length name) mult in
      rbind (require (pubkey_usable cx (ownerPubKey operation)) ''register owner pubkey is invalid'') (\<lambda>_.
      rbind (FindUniqueBondOutput tx (GetScriptForRawPubKey (CPubKey (ownerPubKey operation)))
             (bondAmount pricing)) (\<lambda>bondVout.
      let next = \<lparr>info_nickname = name, info_ownerPubKey = ownerPubKey operation,
            info_payoutAddress = payoutAddress operation, registrationHeight = blockHeight,
            activeUntilHeight = blockHeight + ActiveBlocks (cx_options cx),
            graceUntilHeight = blockHeight + ActiveBlocks (cx_options cx) + GraceBlocks (cx_options cx),
            info_bondAmount = bondAmount pricing, bondTxid = tx_hash tx, bondVout = bondVout,
            lastUpdateTxid = tx_hash tx, released = False, bondClaimed = False\<rparr>;
          w = reindex name
            (put_state name (current\<lparr>ws_current := next, ws_existsNow := True, ws_dirty := True\<rparr>) w)
      in Inr (w\<lparr>bw_updates := (bw_updates w)\<lparr>registeredCount := registeredCount (bw_updates w) + 1\<rparr>\<rparr>)))))))"

definition block_update ::
  "NicknameContext \<Rightarrow> CTransaction \<Rightarrow> CTxUndo option \<Rightarrow> NicknameOperation \<Rightarrow> spent_bonds \<Rightarrow>
   Status \<Rightarrow> BlockWork \<Rightarrow> BlockWork result" where
  "block_update cx tx txundo operation spent status w =
     (let name = op_nickname operation; current = get_state w name in
      rbind (require (spent = []) ''update transaction cannot spend nickname bond outpoint'') (\<lambda>_.
      rbind (require (ws_existsNow current) ''nickname does not exist'') (\<lambda>_.
      rbind (require (IsMutableNicknameStatus status) ''nickname is not mutable in current status'') (\<lambda>_.
      rbind (TxHasOwnerAuthorizationInput cx tx txundo (info_ownerPubKey (ws_current current))) (\<lambda>_.
        Inr (set_record name ((ws_current current)\<lparr>info_payoutAddress := payoutAddress operation,
               lastUpdateTxid := tx_hash tx\<rparr>) w))))))"

definition block_transfer ::
  "NicknameContext \<Rightarrow> CTransaction \<Rightarrow> CTxUndo option \<Rightarrow> NicknameOperation \<Rightarrow> spent_bonds \<Rightarrow>
   Status \<Rightarrow> BlockWork \<Rightarrow> BlockWork result" where
  "block_transfer cx tx txundo operation spent status w =
     (let name = op_nickname operation; current = get_state w name; info = ws_current current in
      rbind (require (spends_one operation spent)
             ''transfer transaction must spend current nickname bond outpoint'') (\<lambda>_.
      rbind (require (ws_existsNow current) ''nickname does not exist'') (\<lambda>_.
      rbind (require (IsMutableNicknameStatus status) ''nickname is not mutable in current status'') (\<lambda>_.
      rbind (TxHasOwnerAuthorizationInput cx tx txundo (info_ownerPubKey info)) (\<lambda>_.
      rbind (require (HasBondOutpoint info) ''nickname does not have an active bond outpoint'') (\<lambda>_.
      rbind (require (map_of spent name = Some (GetBondOutpoint info))
             ''transfer transaction must spend the indexed nickname bond outpoint'') (\<lambda>_.
      rbind (require (pubkey_usable cx (newOwnerPubKey operation)) ''transfer new owner pubkey is invalid'') (\<lambda>_.
      rbind (FindUniqueBondOutput tx (GetScriptForRawPubKey (CPubKey (newOwnerPubKey operation)))
             (info_bondAmount info)) (\<lambda>newBondVout.
        Inr (reindex name (set_record name
          (info\<lparr>info_ownerPubKey := newOwnerPubKey operation, bondTxid := tx_hash tx, bondVout := newBondVout,
                bondClaimed := False, lastUpdateTxid := tx_hash tx\<rparr>) w)))))))))))"

definition block_renew ::
  "NicknameContext \<Rightarrow> int \<Rightarrow> int \<Rightarrow> CTransaction \<Rightarrow> CTxUndo option \<Rightarrow> NicknameOperation \<Rightarrow> spent_bonds \<Rightarrow>
   Status \<Rightarrow> BlockWork \<Rightarrow> BlockWork result" where
  "block_renew cx blockHeight mult tx txundo operation spent status w =
     (let name = op_nickname operation; current = get_state w name; info = ws_current current in
      rbind (require (spends_one operation spent)
             ''renew transaction must spend current nickname bond outpoint'') (\<lambda>_.
      rbind (require (ws_existsNow current) ''nickname does not exist'') (\<lambda>_.
      rbind (require (IsMutableNicknameStatus status) ''nickname is not renewable in current status'') (\<lambda>_.
      rbind (TxHasOwnerAuthorizationInput cx tx txundo (info_ownerPubKey info)) (\<lambda>_.
      rbind (require (HasBondOutpoint info) ''nickname does not have an active bond outpoint'') (\<lambda>_.
      rbind (require (map_of spent name = Some (GetBondOutpoint info))
             ''renew transaction must spend the indexed nickname bond outpoint'') (\<lambda>_.
      rbind (require (pubkey_usable cx (info_ownerPubKey info)) ''renew owner pubkey is invalid'') (\<lambda>_.
      let renewalBondIncrease = GetRenewalBondIncrease (length name) mult in
      rbind (require (\<not> (renewalBondIncrease < 0 \<or> info_bondAmount info > MAX_MONEY - renewalBondIncrease))
             ''renew bond amount overflow'') (\<lambda>_.
      let renewedBondAmount = info_bondAmount info + renewalBondIncrease in
      rbind (FindUniqueBondOutput tx (GetScriptForRawPubKey (CPubKey (info_ownerPubKey info)))
             renewedBondAmount) (\<lambda>renewedBondVout.
      let renewBaseHeight = max (activeUntilHeight info) blockHeight;
          activeUntil = renewBaseHeight + ActiveBlocks (cx_options cx)
      in Inr (reindex name (set_record name
           (info\<lparr>activeUntilHeight := activeUntil, graceUntilHeight := activeUntil + GraceBlocks (cx_options cx),
                 info_bondAmount := renewedBondAmount, bondTxid := tx_hash tx, bondVout := renewedBondVout,
                 bondClaimed := False, released := False, lastUpdateTxid := tx_hash tx\<rparr>) w))))))))))))"

definition block_release ::
  "NicknameContext \<Rightarrow> CTransaction \<Rightarrow> CTxUndo option \<Rightarrow> NicknameOperation \<Rightarrow> spent_bonds \<Rightarrow>
   Status \<Rightarrow> BlockWork \<Rightarrow> BlockWork result" where
  "block_release cx tx txundo operation spent status w =
     (let name = op_nickname operation; current = get_state w name in
      rbind (require (spent = []) ''release transaction cannot spend nickname bond outpoint'') (\<lambda>_.
      rbind (require (ws_existsNow current) ''nickname does not exist'') (\<lambda>_.
      rbind (require (IsMutableNicknameStatus status) ''nickname is not releasable in current status'') (\<lambda>_.
      rbind (TxHasOwnerAuthorizationInput cx tx txundo (info_ownerPubKey (ws_current current))) (\<lambda>_.
        Inr (set_record name ((ws_current current)\<lparr>released := True, bondClaimed := False,
               lastUpdateTxid := tx_hash tx\<rparr>) w))))))"

definition block_claim ::
  "NicknameContext \<Rightarrow> CTransaction \<Rightarrow> CTxUndo option \<Rightarrow> NicknameOperation \<Rightarrow> spent_bonds \<Rightarrow>
   Status \<Rightarrow> BlockWork \<Rightarrow> BlockWork result" where
  "block_claim cx tx txundo operation spent status w =
     (let name = op_nickname operation; current = get_state w name; info = ws_current current in
      rbind (require (spends_one operation spent)
             ''claim transaction must spend indexed nickname bond outpoint'') (\<lambda>_.
      rbind (require (ws_existsNow current) ''nickname does not exist'') (\<lambda>_.
      let claimedOutpoint = the (map_of spent name) in
      if HasBondOutpoint info \<and> claimedOutpoint = GetBondOutpoint info then
        rbind (require (status = BOND_CLAIMABLE) ''nickname bond is not claimable'') (\<lambda>_.
        rbind (TxHasOwnerAuthorizationInput cx tx txundo (info_ownerPubKey info)) (\<lambda>_.
          Inr (reindex name (set_record name
            (info\<lparr>bondClaimed := True, bondTxid := 0, bondVout := - 1, lastUpdateTxid := tx_hash tx\<rparr>) w))))
      else
        Inr (w\<lparr>bw_updates := (bw_updates w)\<lparr>bondIndexErases :=
               bondIndexErases (bw_updates w) @ [claimedOutpoint]\<rparr>\<rparr>))))"

subsection \<open>A transaction and a block\<close>

definition block_operation ::
  "NicknameContext \<Rightarrow> int \<Rightarrow> int \<Rightarrow> CTransaction \<Rightarrow> CTxUndo option \<Rightarrow> NicknameOperation \<Rightarrow> spent_bonds \<Rightarrow>
   Status \<Rightarrow> BlockWork \<Rightarrow> BlockWork result" where
  "block_operation cx blockHeight mult tx txundo operation spent status w =
     (case op_type operation of
        REGISTER \<Rightarrow> block_register cx blockHeight mult tx txundo operation spent status w
      | UPDATE \<Rightarrow> block_update cx tx txundo operation spent status w
      | TRANSFER \<Rightarrow> block_transfer cx tx txundo operation spent status w
      | RENEW \<Rightarrow> block_renew cx blockHeight mult tx txundo operation spent status w
      | RELEASE \<Rightarrow> block_release cx tx txundo operation spent status w
      | CLAIM_BOND \<Rightarrow> block_claim cx tx txundo operation spent status w
      | NONE \<Rightarrow> Inl ''invalid nickname operation type''
      | UNNAMED b \<Rightarrow> Inr w)"

definition block_tx ::
  "NicknameContext \<Rightarrow> NicknameStateDB \<Rightarrow> int \<Rightarrow> int \<Rightarrow> CTransaction \<Rightarrow> CTxUndo option \<Rightarrow> CAmount \<Rightarrow>
   BlockWork \<Rightarrow> BlockWork result" where
  "block_tx cx db blockHeight mult tx txundo txFee w =
     rbind (ExtractNicknameOperationFromTx cx tx) (\<lambda>found.
     rbind (spent_in_block db (vin tx) [] w) (\<lambda>(spent, w).
       case found of
         None \<Rightarrow>
           rbind (require (spent = [])
             ''nickname bond outpoint may only be spent by transfer, renew, or claim transaction'') (\<lambda>_. Inr w)
       | Some operation \<Rightarrow>
           rbind (require (\<not> IsCoinBase tx) ''coinbase transaction cannot contain nickname operations'') (\<lambda>_.
           rbind (require_fee operation mult txFee) (\<lambda>_.
           let w = loadState db (op_nickname operation) w;
               current = get_state w (op_nickname operation);
               status = (if ws_existsNow current then info_GetStatus (ws_current current) blockHeight
                         else EXPIRED_AVAILABLE) in
           rbind (require_own_bond operation spent) (\<lambda>_.
             block_operation cx blockHeight mult tx txundo operation spent status w)))))"

type_synonym block_entry = "CTransaction \<times> CTxUndo option \<times> CAmount"

fun block_txs ::
  "NicknameContext \<Rightarrow> NicknameStateDB \<Rightarrow> int \<Rightarrow> int \<Rightarrow> block_entry list \<Rightarrow> BlockWork \<Rightarrow> BlockWork result" where
  "block_txs cx db blockHeight mult [] w = Inr w"
| "block_txs cx db blockHeight mult ((tx, txundo, txFee) # txs) w =
     rbind (block_tx cx db blockHeight mult tx txundo txFee w) (block_txs cx db blockHeight mult txs)"

text \<open>The transactions with their undo data, which the first one has none of, and their fees.\<close>

definition block_entries :: "CTransaction list \<Rightarrow> CBlockUndo \<Rightarrow> CAmount list \<Rightarrow> block_entry list" where
  "block_entries vtx blockUndo txFees = zip vtx (zip (None # map Some (vtxundo blockUndo)) txFees)"

definition block_states :: "BlockWork \<Rightarrow> (string \<times> NicknameWorkingState) list" where
  "block_states w = map (\<lambda>n. (n, get_state w n)) (Mapping.ordered_keys (bw_states w))"

definition initial_work :: "int \<Rightarrow> BlockWork" where
  "initial_work blockHeight =
     \<lparr>bw_states = Mapping.empty, nicknameBondOutpoints = Mapping.empty, bondOutpointOwners = Mapping.empty,
      bw_updates = empty_updates\<lparr>up_blockHeight := blockHeight, registeredCount := 0\<rparr>\<rparr>"

definition BuildNicknameBlockUpdates ::
  "NicknameContext \<Rightarrow> NicknameStateDB \<Rightarrow> CTransaction list \<Rightarrow> CBlockUndo \<Rightarrow> CAmount list \<Rightarrow> int \<Rightarrow>
   NicknameBlockUpdates result" where
  "BuildNicknameBlockUpdates cx db vtx blockUndo txFees blockHeight =
     (let pricingMultiplierPermille = fst (ReadPricingMultiplierPermille db) in
      rbind (require (\<not> (length vtx > 0 \<and> length (vtxundo blockUndo) + 1 \<noteq> length vtx))
             ''nickname processing undo mismatch'') (\<lambda>_.
      rbind (require (length txFees = length vtx) ''nickname processing fee context mismatch'') (\<lambda>_.
      rbind (block_txs cx db blockHeight pricingMultiplierPermille (block_entries vtx blockUndo txFees)
               (initial_work blockHeight)) (\<lambda>w.
        Inr (collect_updates (block_states w) (bw_updates w))))))"

end
