(* ===== verification/Nickname_Ledger.thy ===== *)
theory Nickname_Ledger
  imports Nickname_Consensus
begin

text \<open>
  What the nickname operations of a block do, as steps on a ledger of names: the abstract contract, the
  invariants of the working state of \<^verbatim>\<open>BuildNicknameBlockUpdates\<close>, and the proof that every accepted
  transaction is a step of the contract.
\<close>

subsection \<open>The ledger of names\<close>

text \<open>
  The abstract contract: a ledger gives each name its record. An operation changes the record of its own name,
  by one of the rules below; \<open>p\<close> is the bond the transaction spends.
\<close>

type_synonym ledger = "string \<Rightarrow> NicknameInfo option"

definition may_register :: "int \<Rightarrow> NicknameInfo option \<Rightarrow> bool" where
  "may_register h r \<longleftrightarrow>
     (case r of None \<Rightarrow> True
      | Some i \<Rightarrow> info_GetStatus i h \<in> {EXPIRED_AVAILABLE, RELEASED, BOND_CLAIMABLE})"

definition locks_bond :: "CTransaction \<Rightarrow> byte list \<Rightarrow> CAmount \<Rightarrow> 32 word \<Rightarrow> bool" where
  "locks_bond tx key amount v \<longleftrightarrow>
     FindUniqueBondOutput tx (GetScriptForRawPubKey (CPubKey key)) amount = Inr v"

inductive name_step ::
  "NicknameContext \<Rightarrow> int \<Rightarrow> int \<Rightarrow> CTransaction \<Rightarrow> CTxUndo option \<Rightarrow> NicknameOperation \<Rightarrow> COutPoint option \<Rightarrow>
   NicknameInfo option \<Rightarrow> NicknameInfo option \<Rightarrow> bool"
  for cx h mult tx txundo x
where
  Register: "op_type x = REGISTER \<Longrightarrow> may_register h r \<Longrightarrow> authorized cx tx txundo (ownerPubKey x) \<Longrightarrow>
    amount = bondAmount (GetPricing (length (op_nickname x)) mult) \<Longrightarrow> locks_bond tx (ownerPubKey x) amount v \<Longrightarrow>
    activeUntil = h + ActiveBlocks (cx_options cx) \<Longrightarrow>
    name_step cx h mult tx txundo x None r (Some
      \<lparr>info_nickname = op_nickname x, info_ownerPubKey = ownerPubKey x, info_payoutAddress = payoutAddress x,
       registrationHeight = h, activeUntilHeight = activeUntil,
       graceUntilHeight = activeUntil + GraceBlocks (cx_options cx), info_bondAmount = amount,
       bondTxid = tx_hash tx, bondVout = v, lastUpdateTxid = tx_hash tx, released = False, bondClaimed = False\<rparr>)"
| Update: "op_type x = UPDATE \<Longrightarrow> IsMutableNicknameStatus (info_GetStatus i h) \<Longrightarrow>
    authorized cx tx txundo (info_ownerPubKey i) \<Longrightarrow>
    name_step cx h mult tx txundo x None (Some i)
      (Some (i\<lparr>info_payoutAddress := payoutAddress x, lastUpdateTxid := tx_hash tx\<rparr>))"
| Transfer: "op_type x = TRANSFER \<Longrightarrow> IsMutableNicknameStatus (info_GetStatus i h) \<Longrightarrow>
    authorized cx tx txundo (info_ownerPubKey i) \<Longrightarrow> holds_bond (Some i) p \<Longrightarrow>
    pubkey_usable cx (newOwnerPubKey x) \<Longrightarrow> locks_bond tx (newOwnerPubKey x) (info_bondAmount i) v \<Longrightarrow>
    name_step cx h mult tx txundo x (Some p) (Some i)
      (Some (i\<lparr>info_ownerPubKey := newOwnerPubKey x, bondTxid := tx_hash tx, bondVout := v,
               bondClaimed := False, lastUpdateTxid := tx_hash tx\<rparr>))"
| Renew: "op_type x = RENEW \<Longrightarrow> IsMutableNicknameStatus (info_GetStatus i h) \<Longrightarrow>
    authorized cx tx txundo (info_ownerPubKey i) \<Longrightarrow> holds_bond (Some i) p \<Longrightarrow>
    amount = info_bondAmount i + GetRenewalBondIncrease (length (op_nickname x)) mult \<Longrightarrow> amount \<le> MAX_MONEY \<Longrightarrow>
    locks_bond tx (info_ownerPubKey i) amount v \<Longrightarrow>
    activeUntil = max (activeUntilHeight i) h + ActiveBlocks (cx_options cx) \<Longrightarrow>
    name_step cx h mult tx txundo x (Some p) (Some i)
      (Some (i\<lparr>activeUntilHeight := activeUntil, graceUntilHeight := activeUntil + GraceBlocks (cx_options cx),
               info_bondAmount := amount, bondTxid := tx_hash tx, bondVout := v, bondClaimed := False,
               released := False, lastUpdateTxid := tx_hash tx\<rparr>))"
| Release: "op_type x = RELEASE \<Longrightarrow> IsMutableNicknameStatus (info_GetStatus i h) \<Longrightarrow>
    authorized cx tx txundo (info_ownerPubKey i) \<Longrightarrow>
    name_step cx h mult tx txundo x None (Some i)
      (Some (i\<lparr>released := True, bondClaimed := False, lastUpdateTxid := tx_hash tx\<rparr>))"
| Claim: "op_type x = CLAIM_BOND \<Longrightarrow> holds_bond (Some i) p \<Longrightarrow> info_GetStatus i h = BOND_CLAIMABLE \<Longrightarrow>
    authorized cx tx txundo (info_ownerPubKey i) \<Longrightarrow>
    name_step cx h mult tx txundo x (Some p) (Some i)
      (Some (i\<lparr>bondClaimed := True, bondTxid := 0, bondVout := - 1, lastUpdateTxid := tx_hash tx\<rparr>))"
| Claim_former: "op_type x = CLAIM_BOND \<Longrightarrow> \<not> holds_bond (Some i) p \<Longrightarrow>
    name_step cx h mult tx txundo x (Some p) (Some i) (Some i)"

subsection \<open>Invariants of the loop\<close>

text \<open>
  A claimed bond leaves no trace in its record, and the bond index names existing records only. With the
  invariants of the indices this is what a database satisfies between blocks.
\<close>

definition claims_ok :: "NicknameStateDB \<Rightarrow> bool" where
  "claims_ok db \<longleftrightarrow> (\<forall>n i. get_nick db n = Some i \<longrightarrow> bondClaimed i \<longrightarrow> bondTxid i = 0)"

definition bond_names_ok :: "NicknameStateDB \<Rightarrow> bool" where
  "bond_names_ok db \<longleftrightarrow> (\<forall>b n. get_bond db b = Some n \<longrightarrow> get_nick db n \<noteq> None)"

definition db_ok :: "key_hash \<Rightarrow> NicknameStateDB \<Rightarrow> bool" where
  "db_ok Hash160 db \<longleftrightarrow>
     records_ok db \<and> owner_index_ok Hash160 db \<and> pricing_ok db \<and> claims_ok db \<and> bond_names_ok db"

text \<open>The ledger in the middle of a block: names that were not looked at have their record of the database.\<close>

definition record_of :: "NicknameStateDB \<Rightarrow> BlockWork \<Rightarrow> ledger" where
  "record_of db w n = (case Mapping.lookup (bw_states w) n of None \<Rightarrow> get_nick db n | Some st \<Rightarrow> new_record st)"

definition new_txid :: "NicknameStateDB \<Rightarrow> uint256 \<Rightarrow> bool" where
  "new_txid db t \<longleftrightarrow> (\<forall>v. get_bond db (COutPoint t v) = None)"

text \<open>\<open>T\<close> is the set of the transaction hashes of the block so far.\<close>

definition state_inv :: "NicknameStateDB \<Rightarrow> string \<Rightarrow> NicknameWorkingState \<Rightarrow> bool" where
  "state_inv db n st \<longleftrightarrow>
     ws_loaded st \<and> NormalizeKeyName n = n \<and>
     get_nick db n = (if ws_existedBefore st then Some (ws_before st) else None) \<and>
     (ws_dirty st \<longrightarrow> ws_existsNow st) \<and> (\<not> ws_dirty st \<longrightarrow> new_record st = get_nick db n)"

definition ledger_inv :: "NicknameStateDB \<Rightarrow> uint256 set \<Rightarrow> ledger \<Rightarrow> bool" where
  "ledger_inv db T L \<longleftrightarrow>
     (\<forall>n i. L n = Some i \<longrightarrow> info_nickname i = n \<and> (bondClaimed i \<longrightarrow> bondTxid i = 0)) \<and>
     (\<forall>n b. holds_bond (L n) b \<longrightarrow> holds_bond (get_nick db n) b \<or> out_hash b \<in> T) \<and>
     (\<forall>n m b. holds_bond (L n) b \<longrightarrow> holds_bond (L m) b \<longrightarrow> n = m) \<and>
     (\<forall>n. get_nick db n \<noteq> None \<longrightarrow> L n \<noteq> None)"

definition caches_ok :: "NicknameStateDB \<Rightarrow> BlockWork \<Rightarrow> bool" where
  "caches_ok db w \<longleftrightarrow>
     (\<forall>n b. Mapping.lookup (nicknameBondOutpoints w) n = Some b \<longleftrightarrow>
        Mapping.lookup (bw_states w) n \<noteq> None \<and> holds_bond (record_of db w n) b) \<and>
     (\<forall>n b. Mapping.lookup (bondOutpointOwners w) b = Some n \<longleftrightarrow>
        Mapping.lookup (nicknameBondOutpoints w) n = Some b)"

definition core_ok :: "NicknameStateDB \<Rightarrow> uint256 set \<Rightarrow> BlockWork \<Rightarrow> bool" where
  "core_ok db T w \<longleftrightarrow>
     finite (Mapping.keys (bw_states w)) \<and>
     (\<forall>n st. Mapping.lookup (bw_states w) n = Some st \<longrightarrow> state_inv db n st) \<and>
     caches_ok db w \<and> ledger_inv db T (record_of db w)"

definition updates_ok :: "NicknameStateDB \<Rightarrow> uint256 set \<Rightarrow> int \<Rightarrow> ledger \<Rightarrow> NicknameBlockUpdates \<Rightarrow> bool" where
  "updates_ok db T h L u \<longleftrightarrow>
     no_changes u \<and> up_blockHeight u = h \<and>
     (\<forall>b \<in> set (touched_bonds u). (\<forall>n. \<not> holds_bond (L n) b) \<and> (out_hash b \<in> T \<or> get_bond db b \<noteq> None)) \<and>
     (\<forall>(b, n) \<in> set (bondIndexUpserts u). NormalizeKeyName n = n \<and> L n \<noteq> None)"

subsection \<open>Reading the working state\<close>

lemma lookup_default_map:
  "Mapping.lookup (Mapping.default k v m) k' =
   (if k' = k \<and> Mapping.lookup m k = None then Some v else Mapping.lookup m k')"
  by (auto simp: Mapping.default_def keys_dom_lookup lookup_update' domIff)

lemma lookup_delete_map: "Mapping.lookup (Mapping.delete k m) k' = (if k' = k then None else Mapping.lookup m k')"
  by simp

lemmas map_lookups = lookup_update' lookup_delete_map lookup_default_map

lemma put_state_simps [simp]:
  "Mapping.lookup (bw_states (put_state n st w)) m = (if m = n then Some st else Mapping.lookup (bw_states w) m)"
  "nicknameBondOutpoints (put_state n st w) = nicknameBondOutpoints w"
  "bondOutpointOwners (put_state n st w) = bondOutpointOwners w"
  "bw_updates (put_state n st w) = bw_updates w"
  by (auto simp: put_state_def lookup_update')

lemma put_state_finite [simp]:
  "finite (Mapping.keys (bw_states (put_state n st w))) \<longleftrightarrow> finite (Mapping.keys (bw_states w))"
  by (simp add: put_state_def)

lemma indexBond_simps [simp]:
  "bw_states (indexBondOutpoint n st w) = bw_states w" "bw_updates (indexBondOutpoint n st w) = bw_updates w"
  by (simp_all add: indexBondOutpoint_def Let_def split: option.splits)

lemma get_state_Some: "Mapping.lookup (bw_states w) n = Some st \<Longrightarrow> get_state w n = st"
  by (simp add: get_state_def)

lemma record_of_put: "record_of db (put_state n st w) = (record_of db w)(n := new_record st)"
  by (rule ext) (simp add: record_of_def)

lemma record_of_index [simp]: "record_of db (indexBondOutpoint n st w) = record_of db w"
  by (rule ext) (simp add: record_of_def)

lemma holds_new_record:
  "holds_bond (new_record st) b \<longleftrightarrow>
   ws_existsNow st \<and> HasBondOutpoint (ws_current st) \<and> GetBondOutpoint (ws_current st) = b"
  by (simp add: holds_bond_def new_record_def)

lemma holds_unique: "holds_bond x b \<Longrightarrow> holds_bond x b' \<Longrightarrow> b = b'"
  by (auto simp: holds_bond_def split: option.splits)

text \<open>The caches after the record of one name has changed to one whose bond no other name holds.\<close>

lemma indexBond_caches:
  assumes "caches_ok db w"
    and "\<And>m b. m \<noteq> n \<Longrightarrow> holds_bond (new_record st) b \<Longrightarrow> \<not> holds_bond (record_of db w m) b"
  shows "caches_ok db (indexBondOutpoint n st (put_state n st w))"
proof -
  let ?nb = "Mapping.lookup (nicknameBondOutpoints w)" and ?ow = "Mapping.lookup (bondOutpointOwners w)"
  let ?w = "indexBondOutpoint n st (put_state n st w)"
  have nb: "?nb m = Some b \<longleftrightarrow> Mapping.lookup (bw_states w) m \<noteq> None \<and> holds_bond (record_of db w m) b"
    and ow: "?ow b = Some m \<longleftrightarrow> ?nb m = Some b" for m b
    using assms(1) by (simp_all add: caches_ok_def)
  have free: "?ow b = None \<or> ?ow b = Some n" if "holds_bond (new_record st) b" for b
  proof (cases "?ow b")
    case (Some m)
    then have "holds_bond (record_of db w m) b" using nb [of m b] ow [of b m] by simp
    then have "m = n" using assms(2) [OF _ that] by blast
    then show ?thesis using Some by simp
  qed simp
  let ?b = "if ws_existsNow st \<and> HasBondOutpoint (ws_current st) then Some (GetBondOutpoint (ws_current st)) else None"
  have hb: "holds_bond (new_record st) b \<longleftrightarrow> ?b = Some b" for b by (auto simp: holds_new_record)
  have nb': "Mapping.lookup (nicknameBondOutpoints ?w) m = (if m = n then ?b else ?nb m)" for m
    by (cases "?nb n") (simp_all add: indexBondOutpoint_def Let_def map_lookups)
  have ow': "Mapping.lookup (bondOutpointOwners ?w) b = (if ?b = Some b then Some n else if ?ow b = Some n then None else ?ow b)" for b
  proof (cases "?nb n")
    case None
    then have "?ow b \<noteq> Some n" using ow [of b n] by simp
    then show ?thesis using None free [of b] unfolding hb
      by (simp add: indexBondOutpoint_def Let_def map_lookups)
  next
    case (Some p)
    then have "?ow b = Some n \<longleftrightarrow> b = p" using ow [of b n] by auto
    then show ?thesis using Some free [of b] unfolding hb
      by (auto simp: indexBondOutpoint_def Let_def map_lookups)
  qed
  have "Mapping.lookup (nicknameBondOutpoints ?w) m = Some b \<longleftrightarrow>
      Mapping.lookup (bw_states ?w) m \<noteq> None \<and> holds_bond (record_of db ?w m) b" for m b
    unfolding nb' using nb [of m b] hb [of b] by (simp add: record_of_put)
  moreover have "Mapping.lookup (bondOutpointOwners ?w) b = Some m \<longleftrightarrow>
      Mapping.lookup (nicknameBondOutpoints ?w) m = Some b" for m b
    unfolding nb' ow' using ow [of b m] free [of b] unfolding hb by (cases "m = n") auto
  ultimately show ?thesis unfolding caches_ok_def by blast
qed

subsection \<open>Loading names and looking bonds up\<close>

lemma db_bond_name:
  assumes "db_ok H db" "holds_bond (get_nick db n) b"
  shows "get_bond db b = Some n"
  using assms by (auto simp: db_ok_def records_ok_def holds_bond_def split: option.splits)

lemma db_name_normal: "db_ok H db \<Longrightarrow> get_bond db b = Some n \<Longrightarrow> NormalizeKeyName n = n"
  unfolding db_ok_def records_ok_def bond_names_ok_def by blast

text \<open>Hashes of the block are new to the database.\<close>

lemma new_bond_none: "\<forall>t \<in> T. new_txid db t \<Longrightarrow> out_hash b \<in> T \<Longrightarrow> get_bond db b = None"
  by (cases b) (auto simp: new_txid_def)

lemma loadState_cases:
  assumes "core_ok db T w" "NormalizeKeyName n = n"
  obtains "Mapping.lookup (bw_states w) n \<noteq> None" "loadState db n w = w"
  | st where "Mapping.lookup (bw_states w) n = None" "new_record st = get_nick db n" "state_inv db n st"
      "\<not> ws_dirty st" "loadState db n w = indexBondOutpoint n st (put_state n st w)"
proof (cases "Mapping.lookup (bw_states w) n")
  case None
  define st where "st = (case get_nick db n of
      None \<Rightarrow> empty_state\<lparr>ws_loaded := True, ws_existsNow := False, ws_existedBefore := False\<rparr>
    | Some stored \<Rightarrow> empty_state\<lparr>ws_loaded := True, ws_existsNow := True, ws_existedBefore := True,
        ws_before := stored, ws_current := stored\<rparr>)"
  have "loadState db n w = indexBondOutpoint n st (put_state n st w)"
    using None assms(2)
    by (simp add: loadState_def get_state_def ReadNickname_def st_def empty_state_def Let_def split: option.splits)
  moreover have "new_record st = get_nick db n" "state_inv db n st" "\<not> ws_dirty st"
    using assms(2) by (simp_all add: st_def new_record_def state_inv_def empty_state_def split: option.splits)
  ultimately show thesis using None that(2) by blast
next
  case (Some st)
  then have "ws_loaded st" using assms(1) by (auto simp: core_ok_def state_inv_def)
  then show thesis using Some that(1) by (simp add: loadState_def get_state_def)
qed

lemma loadState_ok:
  assumes "core_ok db T w" "NormalizeKeyName n = n"
  shows "core_ok db T (loadState db n w)" "record_of db (loadState db n w) = record_of db w"
    "bw_updates (loadState db n w) = bw_updates w"
    "\<exists>st. Mapping.lookup (bw_states (loadState db n w)) n = Some st"
proof -
  consider "Mapping.lookup (bw_states w) n \<noteq> None" "loadState db n w = w"
    | st where "Mapping.lookup (bw_states w) n = None" "new_record st = get_nick db n" "state_inv db n st"
      "\<not> ws_dirty st" "loadState db n w = indexBondOutpoint n st (put_state n st w)"
    using loadState_cases [OF assms] by metis
  then have "core_ok db T (loadState db n w) \<and> record_of db (loadState db n w) = record_of db w \<and>
    bw_updates (loadState db n w) = bw_updates w \<and> (\<exists>st. Mapping.lookup (bw_states (loadState db n w)) n = Some st)"
  proof cases
    case 1
    then show ?thesis using assms(1) by simp
  next
    case (2 st)
    have n: "record_of db w n = new_record st" using 2 by (simp add: record_of_def)
    then have r: "record_of db (put_state n st w) = record_of db w" unfolding record_of_put by (metis fun_upd_triv)
    have "\<not> holds_bond (record_of db w m) b" if "m \<noteq> n" "holds_bond (new_record st) b" for m b
      using assms(1) that n unfolding core_ok_def ledger_inv_def by metis
    then have "caches_ok db (loadState db n w)"
      unfolding 2(5) using assms(1) by (intro indexBond_caches) (simp_all add: core_ok_def)
    then show ?thesis using assms(1) 2 r by (simp add: core_ok_def)
  qed
  then show "core_ok db T (loadState db n w)" "record_of db (loadState db n w) = record_of db w"
    "bw_updates (loadState db n w) = bw_updates w"
    "\<exists>st. Mapping.lookup (bw_states (loadState db n w)) n = Some st" by simp_all
qed

text \<open>The name a bond belongs to: the one that holds it, or else the one the index has kept for it.\<close>

definition bonded :: "NicknameStateDB \<Rightarrow> ledger \<Rightarrow> COutPoint \<Rightarrow> string \<Rightarrow> bool" where
  "bonded db L b n \<longleftrightarrow> holds_bond (L n) b \<or> (\<forall>m. \<not> holds_bond (L m) b) \<and> get_bond db b = Some n"

lemma bonded_indexed:
  assumes "db_ok H db" "ledger_inv db T L" "\<forall>t \<in> T. new_txid db t" "get_bond db b = Some n"
  shows "bonded db L b n"
proof (cases "\<exists>m. holds_bond (L m) b")
  case True
  then obtain m where m: "holds_bond (L m) b" by blast
  then have "holds_bond (get_nick db m) b \<or> out_hash b \<in> T" using assms(2) by (simp add: ledger_inv_def)
  then have "get_bond db b = Some m"
    using db_bond_name [OF assms(1)] new_bond_none [OF assms(3)] assms(4) by fastforce
  then show ?thesis using m assms(4) by (simp add: bonded_def)
qed (use assms(4) in \<open>simp add: bonded_def\<close>)

lemma lookupBond_ok:
  assumes "db_ok H db" "core_ok db T w" "\<forall>t \<in> T. new_txid db t"
    and "lookupBondNicknameByOutpoint db b w = (r, w')"
  shows "core_ok db T w' \<and> record_of db w' = record_of db w \<and> bw_updates w' = bw_updates w"
    and "r = Some n \<longleftrightarrow> bonded db (record_of db w) b n"
proof -
  note led = assms(2) [unfolded core_ok_def, THEN conjunct2, THEN conjunct2, THEN conjunct2]
  have ow: "Mapping.lookup (bondOutpointOwners w) b = Some m \<longleftrightarrow>
      Mapping.lookup (bw_states w) m \<noteq> None \<and> holds_bond (record_of db w m) b" for m
    using assms(2) by (simp add: core_ok_def caches_ok_def)
  show "core_ok db T w' \<and> record_of db w' = record_of db w \<and> bw_updates w' = bw_updates w"
    using assms(2,4) loadState_ok [OF assms(2) db_name_normal [OF assms(1)]]
    by (auto simp: lookupBondNicknameByOutpoint_def ReadNicknameByBondOutpoint_def split: option.splits)
  show "r = Some n \<longleftrightarrow> bonded db (record_of db w) b n"
  proof (cases "Mapping.lookup (bondOutpointOwners w) b")
    case (Some m)
    then have "r = Some m" "holds_bond (record_of db w m) b"
      using assms(4) ow [of m] by (simp_all add: lookupBondNicknameByOutpoint_def)
    then show ?thesis using led unfolding ledger_inv_def bonded_def by blast
  next
    case None
    then have r: "r = get_bond db b"
      using assms(4) by (simp add: lookupBondNicknameByOutpoint_def ReadNicknameByBondOutpoint_def split: option.splits)
    have "get_bond db b = Some m" if "holds_bond (record_of db w m) b" for m
    proof -
      have "Mapping.lookup (bw_states w) m = None" using that ow [of m] None by simp
      then show ?thesis using that db_bond_name [OF assms(1)] by (simp add: record_of_def)
    qed
    then show ?thesis using bonded_indexed [OF assms(1) led assms(3)] r unfolding bonded_def by metis
  qed
qed

definition spent_ok ::
  "NicknameStateDB \<Rightarrow> ledger \<Rightarrow> CTxIn list \<Rightarrow> spent_bonds \<Rightarrow> spent_bonds \<Rightarrow> bool" where
  "spent_ok db L ins spent spent' \<longleftrightarrow>
     (\<forall>n p. map_of spent n = Some p \<longrightarrow> map_of spent' n = Some p) \<and>
     (\<forall>txin \<in> set ins. \<forall>n. bonded db L (prevout txin) n \<longrightarrow> map_of spent' n = Some (prevout txin)) \<and>
     (\<forall>n p. map_of spent' n = Some p \<longrightarrow> map_of spent n = Some p \<or> p \<in> prevout ` set ins \<and> bonded db L p n) \<and>
     (distinct (map fst spent) \<longrightarrow> distinct (map fst spent'))"

lemma spent_ok_skip:
  "spent_ok db L ins spent spent' \<Longrightarrow> (\<And>n. \<not> bonded db L (prevout txin) n) \<Longrightarrow> spent_ok db L (txin # ins) spent spent'"
  unfolding spent_ok_def by auto

lemma spent_ok_add:
  assumes "emplace_spent n (prevout txin) spent = Inr spent1" "spent_ok db L ins spent1 spent'"
    and "\<And>m. bonded db L (prevout txin) m \<longleftrightarrow> m = n"
  shows "spent_ok db L (txin # ins) spent spent'"
proof -
  note e = emplace_spent_Inr [OF assms(1)]
  have "map_of spent1 m = Some p" if "map_of spent m = Some p" for m p
    using that e assms(1) by (cases "m = n") (auto simp: emplace_spent_def split: if_splits)
  moreover have "map_of spent m = Some p \<or> p = prevout txin \<and> m = n" if "map_of spent1 m = Some p" for m p
    using that e by (cases "m = n") auto
  ultimately show ?thesis using assms(2,3) e unfolding spent_ok_def by (simp add: image_iff) metis
qed

lemma spent_in_block_ok:
  assumes "db_ok H db" "\<forall>t \<in> T. new_txid db t" "core_ok db T w" "spent_in_block db ins spent w = Inr (spent', w')"
  shows "core_ok db T w' \<and> record_of db w' = record_of db w \<and> bw_updates w' = bw_updates w \<and>
    spent_ok db (record_of db w) ins spent spent'"
  using assms(3,4)
proof (induction ins arbitrary: spent w)
  case Nil
  then show ?case by (simp add: spent_ok_def)
next
  case (Cons t ins)
  obtain r w1 where l: "lookupBondNicknameByOutpoint db (prevout t) w = (r, w1)" by fastforce
  note ok = lookupBond_ok [OF assms(1) Cons.prems(1) assms(2) l]
  show ?case
  proof (cases r)
    case None
    then have "spent_in_block db ins spent w1 = Inr (spent', w')" using Cons.prems(2) l by simp
    then have "spent_ok db (record_of db w) ins spent spent'" "core_ok db T w'" "record_of db w' = record_of db w"
        "bw_updates w' = bw_updates w"
      using Cons.IH [of w1] ok(1) by auto
    then show ?thesis using spent_ok_skip ok(2) None by (metis option.distinct(1))
  next
    case (Some n)
    then obtain spent1 where e: "emplace_spent n (prevout t) spent = Inr spent1"
        and "spent_in_block db ins spent1 w1 = Inr (spent', w')"
      using Cons.prems(2) l by (auto simp: rbind_Inr_iff)
    then have "spent_ok db (record_of db w) ins spent1 spent'" "core_ok db T w'" "record_of db w' = record_of db w"
        "bw_updates w' = bw_updates w"
      using Cons.IH [of w1] ok(1) by auto
    then show ?thesis using spent_ok_add [OF e] ok(2) Some by (metis option.inject)
  qed
qed

subsection \<open>Changing a record\<close>

lemma core_updates [simp]:
  "record_of db (w\<lparr>bw_updates := u\<rparr>) = record_of db w" "core_ok db T (w\<lparr>bw_updates := u\<rparr>) = core_ok db T w"
proof -
  show "record_of db (w\<lparr>bw_updates := u\<rparr>) = record_of db w" by (rule ext) (simp add: record_of_def)
  then show "core_ok db T (w\<lparr>bw_updates := u\<rparr>) = core_ok db T w" by (simp add: core_ok_def caches_ok_def)
qed

lemma core_mono: "core_ok db T w \<Longrightarrow> core_ok db (insert t T) w"
  by (auto simp: core_ok_def ledger_inv_def)

text \<open>A record the transaction with hash \<open>t\<close> may give to a name: a bond it did not have is an output of that transaction.\<close>

definition record_step :: "uint256 \<Rightarrow> string \<Rightarrow> NicknameInfo option \<Rightarrow> NicknameInfo \<Rightarrow> bool" where
  "record_step t n r i \<longleftrightarrow>
     info_nickname i = n \<and> (bondClaimed i \<longrightarrow> bondTxid i = 0) \<and>
     (\<forall>b. holds_bond (Some i) b \<longrightarrow> holds_bond r b \<or> out_hash b = t)"

definition txid_ok :: "NicknameStateDB \<Rightarrow> uint256 set \<Rightarrow> uint256 \<Rightarrow> bool" where
  "txid_ok db T t \<longleftrightarrow> t \<notin> T \<and> new_txid db t"

lemma old_bond_hash:
  assumes "db_ok H db" "ledger_inv db T L" "txid_ok db T t" "holds_bond (L n) b"
  shows "out_hash b \<noteq> t" "out_hash b \<in> T \<or> get_bond db b \<noteq> None"
proof -
  have "out_hash b \<in> T \<or> get_bond db b = Some n"
    using assms(2,4) db_bond_name [OF assms(1)] unfolding ledger_inv_def by blast
  then show "out_hash b \<noteq> t" "out_hash b \<in> T \<or> get_bond db b \<noteq> None"
    using assms(3) by (cases b; auto simp: txid_ok_def new_txid_def)+
qed

lemma ledger_step:
  assumes "db_ok H db" "ledger_inv db T L" "txid_ok db T t" "record_step t n (L n) i"
  shows "ledger_inv db (insert t T) (L(n := Some i))"
    and "m \<noteq> n \<Longrightarrow> holds_bond (Some i) b \<Longrightarrow> \<not> holds_bond (L m) b"
proof -
  have other: "\<not> holds_bond (L m) b" if "m \<noteq> n" "holds_bond (Some i) b" for m b
    using that assms(2,4) old_bond_hash(1) [OF assms(1-3)] unfolding ledger_inv_def record_step_def by metis
  then show "m \<noteq> n \<Longrightarrow> holds_bond (Some i) b \<Longrightarrow> \<not> holds_bond (L m) b" by blast
  show "ledger_inv db (insert t T) (L(n := Some i))"
  proof -
    let ?L = "L(n := Some i)"
    have "info_nickname j = k \<and> (bondClaimed j \<longrightarrow> bondTxid j = 0)" if "?L k = Some j" for k j
      using that assms(2,4) by (cases "k = n") (simp_all add: ledger_inv_def record_step_def)
    moreover have "holds_bond (get_nick db k) b \<or> out_hash b \<in> insert t T" if "holds_bond (?L k) b" for k b
    proof (cases "k = n")
      case True
      then have "holds_bond (L n) b \<or> out_hash b = t" using that assms(4) by (simp add: record_step_def)
      then show ?thesis using assms(2) True unfolding ledger_inv_def by blast
    next
      case False
      then have "holds_bond (L k) b" using that by simp
      then show ?thesis using assms(2) unfolding ledger_inv_def by blast
    qed
    moreover have "k = m" if "holds_bond (?L k) b" "holds_bond (?L m) b" for k m b
    proof (cases "k = n \<or> m = n")
      case True
      then show ?thesis using that other [of m b] other [of k b] by (cases "k = n"; cases "m = n") auto
    next
      case False
      then have "holds_bond (L k) b" "holds_bond (L m) b" using that by simp_all
      then show ?thesis using assms(2) unfolding ledger_inv_def by blast
    qed
    moreover have "?L k \<noteq> None" if "get_nick db k \<noteq> None" for k
      using that assms(2) by (cases "k = n") (simp_all add: ledger_inv_def)
    ultimately show ?thesis unfolding ledger_inv_def by blast
  qed
qed

lemma commit_ok:
  assumes "db_ok H db" "core_ok db T w" "txid_ok db T t" "Mapping.lookup (bw_states w) n = Some st"
    and "record_step t n (record_of db w n) i"
  defines "st' \<equiv> st\<lparr>ws_current := i, ws_existsNow := True, ws_dirty := True\<rparr>"
  shows "record_of db (put_state n st' w) = (record_of db w)(n := Some i)"
    and "core_ok db (insert t T) (reindex n (put_state n st' w))"
    and "(\<And>b. holds_bond (Some i) b \<longleftrightarrow> holds_bond (record_of db w n) b) \<Longrightarrow>
      core_ok db (insert t T) (put_state n st' w)"
proof -
  note led = assms(2) [unfolded core_ok_def, THEN conjunct2, THEN conjunct2, THEN conjunct2]
  have st': "new_record st' = Some i" by (simp add: st'_def new_record_def)
  then show r: "record_of db (put_state n st' w) = (record_of db w)(n := Some i)" by (simp add: record_of_put)
  have ri: "reindex n (put_state n st' w) = indexBondOutpoint n st' (put_state n st' w)"
    by (simp add: reindex_def get_state_def)
  have "state_inv db n st" using assms(2,4) by (simp add: core_ok_def)
  then have inv: "state_inv db n st'" by (simp add: state_inv_def st'_def)
  have "caches_ok db (indexBondOutpoint n st' (put_state n st' w))"
    using assms(2) ledger_step(2) [OF assms(1) led assms(3,5)] by (intro indexBond_caches) (auto simp: core_ok_def st')
  then show "core_ok db (insert t T) (reindex n (put_state n st' w))"
    using assms(2) inv ledger_step(1) [OF assms(1) led assms(3,5)] by (auto simp: core_ok_def ri r)
  assume same: "\<And>b. holds_bond (Some i) b \<longleftrightarrow> holds_bond (record_of db w n) b"
  have "caches_ok db (put_state n st' w)"
    using assms(2,4) same unfolding core_ok_def caches_ok_def r by (simp add: st')
  then show "core_ok db (insert t T) (put_state n st' w)"
    using assms(2) inv ledger_step(1) [OF assms(1) led assms(3,5)] by (auto simp: core_ok_def r)
qed

lemma set_touched: "set (touched_bonds u) = set (bondIndexErases u) \<union> fst ` set (bondIndexUpserts u)"
  by (simp add: touched_bonds_def)

lemma updates_step:
  assumes "db_ok H db" "ledger_inv db T L" "txid_ok db T t" "record_step t n (L n) i" "updates_ok db T h L u"
  shows "updates_ok db (insert t T) h (L(n := Some i)) u"
proof -
  have "\<not> holds_bond (Some i) b" if "b \<in> set (touched_bonds u)" for b
  proof
    assume "holds_bond (Some i) b"
    then have "out_hash b = t" using assms(4,5) that unfolding record_step_def updates_ok_def by blast
    moreover have "out_hash b \<in> T \<or> get_bond db b \<noteq> None" using assms(5) that unfolding updates_ok_def by blast
    ultimately show False using assms(3) by (cases b) (auto simp: txid_ok_def new_txid_def)
  qed
  then show ?thesis using assms(5) by (fastforce simp: updates_ok_def)
qed

lemma updates_push:
  assumes "updates_ok db T h L u" "\<And>m. \<not> holds_bond (L m) b" "out_hash b \<in> T \<or> get_bond db b \<noteq> None"
  shows "NormalizeKeyName n = n \<Longrightarrow> L n \<noteq> None \<Longrightarrow>
      updates_ok db T h L (u\<lparr>bondIndexUpserts := bondIndexUpserts u @ [(b, n)]\<rparr>)"
    and "updates_ok db T h L (u\<lparr>bondIndexErases := bondIndexErases u @ [b]\<rparr>)"
  using assms by (auto simp: updates_ok_def no_changes_def set_touched)

lemma updates_count [simp]: "updates_ok db T h L (u\<lparr>registeredCount := c\<rparr>) = updates_ok db T h L u"
  by (simp add: updates_ok_def no_changes_def set_touched)

lemma updates_mono: "updates_ok db T h L u \<Longrightarrow> updates_ok db (insert t T) h L u"
  by (auto simp: updates_ok_def)

subsection \<open>Operations are steps of the ledger\<close>

definition op_pre ::
  "key_hash \<Rightarrow> NicknameStateDB \<Rightarrow> uint256 set \<Rightarrow> int \<Rightarrow> BlockWork \<Rightarrow> CTransaction \<Rightarrow> NicknameOperation \<Rightarrow>
   spent_bonds \<Rightarrow> NicknameWorkingState \<Rightarrow> Status \<Rightarrow> bool" where
  "op_pre H db T h w tx x spent st status \<longleftrightarrow>
     db_ok H db \<and> core_ok db T w \<and> txid_ok db T (tx_hash tx) \<and>
     updates_ok db T h (record_of db w) (bw_updates w) \<and> operation_ok x \<and>
     Mapping.lookup (bw_states w) (op_nickname x) = Some st \<and>
     (\<forall>p. map_of spent (op_nickname x) = Some p \<longrightarrow> bonded db (record_of db w) p (op_nickname x)) \<and>
     status = (if ws_existsNow st then info_GetStatus (ws_current st) h else EXPIRED_AVAILABLE)"

definition tx_effect ::
  "NicknameContext \<Rightarrow> int \<Rightarrow> int \<Rightarrow> NicknameStateDB \<Rightarrow> uint256 set \<Rightarrow> CTransaction \<Rightarrow> CTxUndo option \<Rightarrow>
   NicknameOperation \<Rightarrow> COutPoint option \<Rightarrow> BlockWork \<Rightarrow> BlockWork \<Rightarrow> bool" where
  "tx_effect cx h mult db T tx txundo x p w w' \<longleftrightarrow>
     core_ok db (insert (tx_hash tx) T) w' \<and>
     updates_ok db (insert (tx_hash tx) T) h (record_of db w') (bw_updates w') \<and>
     (\<exists>r. record_of db w' = (record_of db w)(op_nickname x := r) \<and>
        name_step cx h mult tx txundo x p (record_of db w (op_nickname x)) r)"

lemmas bond_defs = holds_bond_def HasBondOutpoint_def GetBondOutpoint_def

lemma op_pre_record:
  assumes "op_pre H db T h w tx x spent st status"
  shows "record_of db w (op_nickname x) = new_record st" "get_state w (op_nickname x) = st"
    and "ws_existsNow st \<Longrightarrow> info_nickname (ws_current st) = op_nickname x"
    and "ws_existsNow st \<Longrightarrow> bondClaimed (ws_current st) \<Longrightarrow> bondTxid (ws_current st) = 0"
    and "ws_existsNow st \<Longrightarrow> st\<lparr>ws_current := i, ws_dirty := True\<rparr> = st\<lparr>ws_current := i, ws_existsNow := True, ws_dirty := True\<rparr>"
proof -
  have l: "Mapping.lookup (bw_states w) (op_nickname x) = Some st" using assms by (simp add: op_pre_def)
  then show r: "record_of db w (op_nickname x) = new_record st" "get_state w (op_nickname x) = st"
    by (simp_all add: record_of_def get_state_def)
  have "ledger_inv db T (record_of db w)" using assms by (simp add: op_pre_def core_ok_def)
  then have "info_nickname (ws_current st) = op_nickname x \<and> (bondClaimed (ws_current st) \<longrightarrow> bondTxid (ws_current st) = 0)"
    if "ws_existsNow st" using r(1) that unfolding ledger_inv_def new_record_def by fastforce
  then show "ws_existsNow st \<Longrightarrow> info_nickname (ws_current st) = op_nickname x"
    "ws_existsNow st \<Longrightarrow> bondClaimed (ws_current st) \<Longrightarrow> bondTxid (ws_current st) = 0" by simp_all
  show "ws_existsNow st \<Longrightarrow> st\<lparr>ws_current := i, ws_dirty := True\<rparr> = st\<lparr>ws_current := i, ws_existsNow := True, ws_dirty := True\<rparr>"
    by (cases st) simp
qed

text \<open>A changed record, with the bond index of the block updated or with the same bond as before.\<close>

lemma commit_effect:
  assumes pre: "op_pre H db T h w tx x spent st status"
    and step: "record_step (tx_hash tx) (op_nickname x) (new_record st) i"
    and name: "name_step cx h mult tx txundo x p (new_record st) (Some i)"
  defines "w1 \<equiv> put_state (op_nickname x) (st\<lparr>ws_current := i, ws_existsNow := True, ws_dirty := True\<rparr>) w"
  shows "tx_effect cx h mult db T tx txundo x p w (reindex (op_nickname x) w1)"
    and "(\<And>b. holds_bond (Some i) b \<longleftrightarrow> holds_bond (new_record st) b) \<Longrightarrow> tx_effect cx h mult db T tx txundo x p w w1"
proof -
  have ok: "db_ok H db" "core_ok db T w" "txid_ok db T (tx_hash tx)" "Mapping.lookup (bw_states w) (op_nickname x) = Some st"
      "updates_ok db T h (record_of db w) (bw_updates w)"
    using pre by (simp_all add: op_pre_def)
  note r = op_pre_record(1) [OF pre]
  note c = commit_ok [OF ok(1-4), of i, folded w1_def, unfolded r, OF step]
  have led: "ledger_inv db T (record_of db w)" using ok(2) by (simp add: core_ok_def)
  have u: "updates_ok db (insert (tx_hash tx) T) h ((record_of db w)(op_nickname x := Some i)) (bw_updates w)"
    using updates_step [OF ok(1) led ok(3) _ ok(5)] step r by simp
  have ri: "record_of db (reindex (op_nickname x) w1) = record_of db w1" "bw_updates (reindex (op_nickname x) w1) = bw_updates w1"
    "bw_updates w1 = bw_updates w"
    by (simp_all add: reindex_def w1_def)
  show "tx_effect cx h mult db T tx txundo x p w (reindex (op_nickname x) w1)"
    using c(1,2) u name r unfolding tx_effect_def ri by auto
  show "tx_effect cx h mult db T tx txundo x p w w1" if "\<And>b. holds_bond (Some i) b \<longleftrightarrow> holds_bond (new_record st) b"
    using c(1) c(3) [OF that] u name r unfolding tx_effect_def ri by auto
qed

lemma block_update_ok:
  assumes pre: "op_pre H db T h w tx x spent st status" and "op_type x = UPDATE"
    and "block_update cx tx txundo x spent status w = Inr w'"
  shows "tx_effect cx h mult db T tx txundo x (map_of spent (op_nickname x)) w w'"
proof -
  note p = op_pre_record [OF pre]
  let ?i = "(ws_current st)\<lparr>info_payoutAddress := payoutAddress x, lastUpdateTxid := tx_hash tx\<rparr>"
  have c: "spent = []" "ws_existsNow st" "IsMutableNicknameStatus status" "authorized cx tx txundo (info_ownerPubKey (ws_current st))"
      "w' = set_record (op_nickname x) ?i w"
    using assms(3) by (auto simp: block_update_def p Let_def rbind_require_iff rbind_Inr_iff TxHasOwner_iff)
  then have r: "new_record st = Some (ws_current st)" by (simp add: new_record_def)
  have "status = info_GetStatus (ws_current st) h" using pre c(2) by (simp add: op_pre_def)
  then have "name_step cx h mult tx txundo x None (new_record st) (Some ?i)"
    using c assms(2) unfolding r by (intro name_step.Update) simp_all
  then have "tx_effect cx h mult db T tx txundo x None w
      (put_state (op_nickname x) (st\<lparr>ws_current := ?i, ws_existsNow := True, ws_dirty := True\<rparr>) w)"
    by (rule commit_effect(2) [OF pre, rotated]) (use p(3,4) c(2) in \<open>auto simp: record_step_def r bond_defs\<close>)
  then show ?thesis using c(1,2) by (simp add: c(5) set_record_def p(2,5))
qed

lemma block_release_ok:
  assumes pre: "op_pre H db T h w tx x spent st status" and "op_type x = RELEASE"
    and "block_release cx tx txundo x spent status w = Inr w'"
  shows "tx_effect cx h mult db T tx txundo x (map_of spent (op_nickname x)) w w'"
proof -
  note p = op_pre_record [OF pre]
  let ?i = "(ws_current st)\<lparr>released := True, bondClaimed := False, lastUpdateTxid := tx_hash tx\<rparr>"
  have c: "spent = []" "ws_existsNow st" "IsMutableNicknameStatus status" "authorized cx tx txundo (info_ownerPubKey (ws_current st))"
      "w' = set_record (op_nickname x) ?i w"
    using assms(3) by (auto simp: block_release_def p Let_def rbind_require_iff rbind_Inr_iff TxHasOwner_iff)
  then have r: "new_record st = Some (ws_current st)" by (simp add: new_record_def)
  have "status = info_GetStatus (ws_current st) h" using pre c(2) by (simp add: op_pre_def)
  then have "name_step cx h mult tx txundo x None (new_record st) (Some ?i)"
    using c assms(2) unfolding r by (intro name_step.Release) simp_all
  then have "tx_effect cx h mult db T tx txundo x None w
      (put_state (op_nickname x) (st\<lparr>ws_current := ?i, ws_existsNow := True, ws_dirty := True\<rparr>) w)"
    by (rule commit_effect(2) [OF pre, rotated]) (use p(3,4) c(2) in \<open>auto simp: record_step_def r bond_defs\<close>)
  then show ?thesis using c(1,2) by (simp add: c(5) set_record_def p(2,5))
qed

lemma block_transfer_ok:
  assumes pre: "op_pre H db T h w tx x spent st status" and "op_type x = TRANSFER"
    and "block_transfer cx tx txundo x spent status w = Inr w'"
  shows "tx_effect cx h mult db T tx txundo x (map_of spent (op_nickname x)) w w'"
proof -
  note p = op_pre_record [OF pre]
  let ?i = "\<lambda>v. (ws_current st)\<lparr>info_ownerPubKey := newOwnerPubKey x, bondTxid := tx_hash tx, bondVout := v,
                bondClaimed := False, lastUpdateTxid := tx_hash tx\<rparr>"
  obtain v where c: "ws_existsNow st" "IsMutableNicknameStatus status" "authorized cx tx txundo (info_ownerPubKey (ws_current st))"
      "HasBondOutpoint (ws_current st)" "map_of spent (op_nickname x) = Some (GetBondOutpoint (ws_current st))"
      "pubkey_usable cx (newOwnerPubKey x)" "locks_bond tx (newOwnerPubKey x) (info_bondAmount (ws_current st)) v"
      "w' = reindex (op_nickname x) (set_record (op_nickname x) (?i v) w)"
    using assms(3) by (auto simp: block_transfer_def p Let_def rbind_require_iff rbind_Inr_iff TxHasOwner_iff locks_bond_def)
  then have r: "new_record st = Some (ws_current st)" by (simp add: new_record_def)
  have "status = info_GetStatus (ws_current st) h" using pre c(1) by (simp add: op_pre_def)
  then have "name_step cx h mult tx txundo x (map_of spent (op_nickname x)) (new_record st) (Some (?i v))"
    using c assms(2) unfolding r c(5) by (intro name_step.Transfer) (simp_all add: holds_bond_def)
  then have "tx_effect cx h mult db T tx txundo x (map_of spent (op_nickname x)) w
      (reindex (op_nickname x) (put_state (op_nickname x) (st\<lparr>ws_current := ?i v, ws_existsNow := True, ws_dirty := True\<rparr>) w))"
    by (rule commit_effect(1) [OF pre, rotated]) (use p(3) c(1) in \<open>auto simp: record_step_def r bond_defs\<close>)
  then show ?thesis using c(1) by (simp add: c(8) set_record_def p(2,5))
qed

lemma block_renew_ok:
  assumes pre: "op_pre H db T h w tx x spent st status" and "op_type x = RENEW"
    and "block_renew cx h mult tx txundo x spent status w = Inr w'"
  shows "tx_effect cx h mult db T tx txundo x (map_of spent (op_nickname x)) w w'"
proof -
  note p = op_pre_record [OF pre]
  let ?a = "info_bondAmount (ws_current st) + GetRenewalBondIncrease (length (op_nickname x)) mult"
  let ?u = "max (activeUntilHeight (ws_current st)) h + ActiveBlocks (cx_options cx)"
  let ?i = "\<lambda>v. (ws_current st)\<lparr>activeUntilHeight := ?u, graceUntilHeight := ?u + GraceBlocks (cx_options cx),
                 info_bondAmount := ?a, bondTxid := tx_hash tx, bondVout := v,
                 bondClaimed := False, released := False, lastUpdateTxid := tx_hash tx\<rparr>"
  obtain v where c: "ws_existsNow st" "IsMutableNicknameStatus status" "authorized cx tx txundo (info_ownerPubKey (ws_current st))"
      "HasBondOutpoint (ws_current st)" "map_of spent (op_nickname x) = Some (GetBondOutpoint (ws_current st))"
      "?a \<le> MAX_MONEY" "locks_bond tx (info_ownerPubKey (ws_current st)) ?a v"
      "w' = reindex (op_nickname x) (set_record (op_nickname x) (?i v) w)"
    using assms(3) by (auto simp: block_renew_def p Let_def rbind_require_iff rbind_Inr_iff TxHasOwner_iff locks_bond_def)
  then have r: "new_record st = Some (ws_current st)" by (simp add: new_record_def)
  have "status = info_GetStatus (ws_current st) h" using pre c(1) by (simp add: op_pre_def)
  then have "name_step cx h mult tx txundo x (map_of spent (op_nickname x)) (new_record st) (Some (?i v))"
    using c assms(2) unfolding r c(5) by (intro name_step.Renew) (simp_all add: holds_bond_def)
  then have "tx_effect cx h mult db T tx txundo x (map_of spent (op_nickname x)) w
      (reindex (op_nickname x) (put_state (op_nickname x) (st\<lparr>ws_current := ?i v, ws_existsNow := True, ws_dirty := True\<rparr>) w))"
    by (rule commit_effect(1) [OF pre, rotated]) (use p(3) c(1) in \<open>auto simp: record_step_def r bond_defs\<close>)
  then show ?thesis using c(1) by (simp add: c(8) set_record_def p(2,5))
qed

lemma block_claim_ok:
  assumes pre: "op_pre H db T h w tx x spent st status" and "op_type x = CLAIM_BOND"
    and "block_claim cx tx txundo x spent status w = Inr w'"
  shows "tx_effect cx h mult db T tx txundo x (map_of spent (op_nickname x)) w w'"
proof -
  note q = op_pre_record [OF pre]
  have "ws_existsNow st" "spends_one x spent"
    using assms(3) by (auto simp: block_claim_def q Let_def rbind_require_iff)
  then obtain p where c: "ws_existsNow st" "map_of spent (op_nickname x) = Some p" by (auto simp: spends_one_def)
  then have r: "new_record st = Some (ws_current st)" by (simp add: new_record_def)
  show ?thesis
  proof (cases "holds_bond (Some (ws_current st)) p")
    case True
    let ?i = "(ws_current st)\<lparr>bondClaimed := True, bondTxid := 0, bondVout := - 1, lastUpdateTxid := tx_hash tx\<rparr>"
    have d: "status = BOND_CLAIMABLE" "authorized cx tx txundo (info_ownerPubKey (ws_current st))"
        "w' = reindex (op_nickname x) (set_record (op_nickname x) ?i w)"
      using assms(3) True c
      by (auto simp: block_claim_def q Let_def rbind_require_iff rbind_Inr_iff TxHasOwner_iff holds_bond_def)
    have "status = info_GetStatus (ws_current st) h" using pre c(1) by (simp add: op_pre_def)
    then have "name_step cx h mult tx txundo x (map_of spent (op_nickname x)) (new_record st) (Some ?i)"
      using d assms(2) True unfolding r c(2) by (intro name_step.Claim) simp_all
    then have "tx_effect cx h mult db T tx txundo x (map_of spent (op_nickname x)) w
        (reindex (op_nickname x) (put_state (op_nickname x) (st\<lparr>ws_current := ?i, ws_existsNow := True, ws_dirty := True\<rparr>) w))"
      by (rule commit_effect(1) [OF pre, rotated]) (use q(3) c(1) in \<open>auto simp: record_step_def r bond_defs\<close>)
    then show ?thesis using c(1) by (simp add: d(3) set_record_def q(2,5))
  next
    case False
    then have w': "w' = w\<lparr>bw_updates := (bw_updates w)\<lparr>bondIndexErases := bondIndexErases (bw_updates w) @ [p]\<rparr>\<rparr>"
      using assms(3) c by (auto simp: block_claim_def q Let_def rbind_require_iff holds_bond_def)
    have b: "\<And>m. \<not> holds_bond (record_of db w m) p" "get_bond db p \<noteq> None"
      using pre c(2) False q(1) r by (auto simp: op_pre_def bonded_def)
    have "name_step cx h mult tx txundo x (map_of spent (op_nickname x)) (record_of db w (op_nickname x)) (record_of db w (op_nickname x))"
      using assms(2) False unfolding c(2) q(1) r by (intro name_step.Claim_former)
    moreover have "updates_ok db (insert (tx_hash tx) T) h (record_of db w) (bw_updates w')"
      using updates_push(2) [OF updates_mono b(1)] b(2) pre by (simp add: w' op_pre_def)
    moreover have "core_ok db (insert (tx_hash tx) T) w'" using pre core_mono by (simp add: w' op_pre_def)
    ultimately show ?thesis unfolding tx_effect_def
      by (intro conjI exI [of _ "record_of db w (op_nickname x)"]) (simp_all add: w')
  qed
qed

lemma updates_commute:
  "put_state n st (w\<lparr>bw_updates := u\<rparr>) = (put_state n st w)\<lparr>bw_updates := u\<rparr>"
  "reindex n (w\<lparr>bw_updates := u\<rparr>) = (reindex n w)\<lparr>bw_updates := u\<rparr>"
  by (simp_all add: put_state_def reindex_def get_state_def indexBondOutpoint_def Let_def split: option.splits)

lemma reindex_updates [simp]: "bw_updates (reindex n w) = bw_updates w"
  by (simp add: reindex_def)

lemma block_register_ok:
  assumes pre: "op_pre H db T h w tx x spent st status" and "op_type x = REGISTER"
    and "block_register cx h mult tx txundo x spent status w = Inr w'"
  shows "tx_effect cx h mult db T tx txundo x (map_of spent (op_nickname x)) w w'"
proof -
  note q = op_pre_record [OF pre]
  let ?n = "op_nickname x"
  let ?a = "bondAmount (GetPricing (length ?n) mult)"
  let ?i = "\<lambda>v. \<lparr>info_nickname = ?n, info_ownerPubKey = ownerPubKey x, info_payoutAddress = payoutAddress x,
       registrationHeight = h, activeUntilHeight = h + ActiveBlocks (cx_options cx),
       graceUntilHeight = h + ActiveBlocks (cx_options cx) + GraceBlocks (cx_options cx), info_bondAmount = ?a,
       bondTxid = tx_hash tx, bondVout = v, lastUpdateTxid = tx_hash tx, released = False, bondClaimed = False\<rparr>"
  let ?w1 = "\<lambda>v. reindex ?n (put_state ?n (st\<lparr>ws_current := ?i v, ws_existsNow := True, ws_dirty := True\<rparr>) w)"
  have status: "status = (if ws_existsNow st then info_GetStatus (ws_current st) h else EXPIRED_AVAILABLE)"
    using pre by (simp add: op_pre_def)
  let ?push = "ws_existsNow st \<and> HasBondOutpoint (ws_current st) \<and> (status = RELEASED \<or> status = BOND_CLAIMABLE)"
  let ?u = "if ?push then (bw_updates w)\<lparr>bondIndexUpserts := bondIndexUpserts (bw_updates w) @
      [(GetBondOutpoint (ws_current st), ?n)]\<rparr> else bw_updates w"
  obtain v where c: "spent = []" "authorized cx tx txundo (ownerPubKey x)" "may_register h (new_record st)"
      "locks_bond tx (ownerPubKey x) ?a v"
      "w' = (?w1 v)\<lparr>bw_updates := ?u\<lparr>registeredCount := registeredCount ?u + 1\<rparr>\<rparr>"
    using assms(3) status
    by (auto simp: block_register_def q(2) Let_def rbind_require_iff rbind_Inr_iff TxHasOwner_iff locks_bond_def
        may_register_def new_record_def updates_commute split: if_splits)
  have "name_step cx h mult tx txundo x None (new_record st) (Some (?i v))"
    using c assms(2) by (intro name_step.Register) simp_all
  then have e: "tx_effect cx h mult db T tx txundo x None w (?w1 v)"
    by (rule commit_effect(1) [OF pre, rotated]) (auto simp: record_step_def bond_defs)
  then have rec: "record_of db (?w1 v) = (record_of db w)(?n := Some (?i v))"
    by (simp add: reindex_def record_of_put new_record_def)
  have u: "updates_ok db (insert (tx_hash tx) T) h (record_of db (?w1 v)) (bw_updates w)"
    using e by (simp add: tx_effect_def)
  have "updates_ok db (insert (tx_hash tx) T) h (record_of db (?w1 v)) ?u"
  proof (cases ?push)
    case False
    then show ?thesis using u by (simp only: if_False)
  next
    case True
    let ?b = "GetBondOutpoint (ws_current st)"
    have held: "holds_bond (record_of db w ?n) ?b" using True q(1) by (simp add: holds_new_record)
    have ok: "db_ok H db" "ledger_inv db T (record_of db w)" "txid_ok db T (tx_hash tx)" "NormalizeKeyName ?n = ?n"
      using pre by (simp_all add: op_pre_def core_ok_def operation_ok_def NormalizeKeyName_def)
    note old = old_bond_hash [OF ok(1-3) held]
    have "\<not> holds_bond (((record_of db w)(?n := Some (?i v))) m) ?b" for m
    proof (cases "m = ?n")
      case True
      have "holds_bond (Some (?i v)) b \<Longrightarrow> out_hash b = tx_hash tx" for b by (auto simp: bond_defs)
      then show ?thesis using old(1) True by auto
    next
      case False
      then show ?thesis using held ok(2) unfolding ledger_inv_def by auto
    qed
    then show ?thesis
      using True old(2) updates_push(1) [OF u, of ?b ?n] ok(4) unfolding rec by simp
  qed
  then show ?thesis using e c(1) by (simp add: c(5) tx_effect_def)
qed

subsection \<open>Transactions and blocks are runs of the ledger\<close>

text \<open>
  A transaction of a block: without an operation it may not spend a bond, of whatever name; with one it pays the
  fee, spends at most the bond of its own name and makes one step of that name.
\<close>

definition spends_only :: "NicknameStateDB \<Rightarrow> ledger \<Rightarrow> CTransaction \<Rightarrow> string \<Rightarrow> COutPoint option \<Rightarrow> bool" where
  "spends_only db L tx n p \<longleftrightarrow>
     (\<forall>txin \<in> set (vin tx). \<forall>m. bonded db L (prevout txin) m \<longrightarrow> m = n \<and> p = Some (prevout txin)) \<and>
     (\<forall>q. p = Some q \<longrightarrow> q \<in> prevout ` set (vin tx) \<and> bonded db L q n)"

inductive tx_step ::
  "NicknameContext \<Rightarrow> NicknameStateDB \<Rightarrow> int \<Rightarrow> int \<Rightarrow> block_entry \<Rightarrow> ledger \<Rightarrow> ledger \<Rightarrow> bool"
  for cx db h mult
where
  Plain: "ExtractNicknameOperationFromTx cx tx = Inr None \<Longrightarrow>
    (\<forall>txin \<in> set (vin tx). \<forall>n. \<not> bonded db L (prevout txin) n) \<Longrightarrow>
    tx_step cx db h mult (tx, txundo, fee) L L"
| Operation: "ExtractNicknameOperationFromTx cx tx = Inr (Some x) \<Longrightarrow> \<not> IsCoinBase tx \<Longrightarrow>
    GetRequiredNicknameFee x mult = Some required \<Longrightarrow> required \<le> fee \<Longrightarrow>
    spends_only db L tx (op_nickname x) p \<Longrightarrow>
    name_step cx h mult tx txundo x p (L (op_nickname x)) r \<Longrightarrow>
    tx_step cx db h mult (tx, txundo, fee) L (L(op_nickname x := r))"

inductive block_run ::
  "NicknameContext \<Rightarrow> NicknameStateDB \<Rightarrow> int \<Rightarrow> int \<Rightarrow> block_entry list \<Rightarrow> ledger \<Rightarrow> ledger \<Rightarrow> bool"
  for cx db h mult
where
  Empty: "block_run cx db h mult [] L L"
| Next: "tx_step cx db h mult e L L' \<Longrightarrow> block_run cx db h mult es L' L'' \<Longrightarrow> block_run cx db h mult (e # es) L L''"

inductive_cases name_stepE: "name_step cx h mult tx txundo x p r r'"
inductive_cases tx_stepE: "tx_step cx db h mult (tx, txundo, fee) L L'"
inductive_simps block_run_Nil [simp]: "block_run cx db h mult [] L L'"
inductive_simps block_run_Cons: "block_run cx db h mult (e # es) L L'"

lemma require_fee_iff:
  "require_fee x mult fee = Inr u \<longleftrightarrow> (\<exists>required. GetRequiredNicknameFee x mult = Some required \<and> required \<le> fee)"
  by (auto simp: require_fee_def not_less split: option.splits)

lemma spends_onlyI:
  assumes "spent_ok db L (vin tx) [] spent" "require_own_bond x spent = Inr u"
  shows "spends_only db L tx (op_nickname x) (map_of spent (op_nickname x))"
proof -
  have len: "length spent \<le> 1" "spent \<noteq> [] \<Longrightarrow> map_of spent (op_nickname x) \<noteq> None"
    using assms(2) by (auto simp: require_own_bond_def rbind_require_iff)
  have "m = op_nickname x" if "map_of spent m = Some q" for m q
    using that len by (cases spent) (auto split: if_splits)
  then show ?thesis using assms(1) unfolding spends_only_def spent_ok_def by fastforce
qed

lemma block_operation_ok:
  assumes pre: "op_pre H db T h w tx x spent st status"
    and "block_operation cx h mult tx txundo x spent status w = Inr w'"
  shows "tx_effect cx h mult db T tx txundo x (map_of spent (op_nickname x)) w w'"
proof -
  have "op_type x \<in> {REGISTER, UPDATE, TRANSFER, RENEW, RELEASE, CLAIM_BOND}"
    using pre by (simp add: op_pre_def operation_ok_def)
  then show ?thesis
    using assms(2) block_register_ok [OF pre] block_update_ok [OF pre] block_transfer_ok [OF pre]
      block_renew_ok [OF pre] block_release_ok [OF pre] block_claim_ok [OF pre]
    by (auto simp: block_operation_def)
qed

definition work_ok :: "key_hash \<Rightarrow> NicknameStateDB \<Rightarrow> uint256 set \<Rightarrow> int \<Rightarrow> BlockWork \<Rightarrow> bool" where
  "work_ok H db T h w \<longleftrightarrow>
     db_ok H db \<and> (\<forall>t \<in> T. new_txid db t) \<and> core_ok db T w \<and>
     updates_ok db T h (record_of db w) (bw_updates w)"

lemma block_tx_ok:
  assumes ok: "work_ok H db T h w" and t: "txid_ok db T (tx_hash tx)"
    and "block_tx cx db h mult tx txundo fee w = Inr w'"
  shows "work_ok H db (insert (tx_hash tx) T) h w' \<and>
    tx_step cx db h mult (tx, txundo, fee) (record_of db w) (record_of db w')"
proof -
  have o: "db_ok H db" "\<forall>t \<in> T. new_txid db t" "core_ok db T w" "updates_ok db T h (record_of db w) (bw_updates w)"
    using ok by (simp_all add: work_ok_def)
  obtain found spent w1 where f: "ExtractNicknameOperationFromTx cx tx = Inr found"
    and s: "spent_in_block db (vin tx) [] w = Inr (spent, w1)"
    using assms(3) by (auto simp: block_tx_def rbind_Inr_iff)
  have c: "core_ok db T w1" "record_of db w1 = record_of db w" "bw_updates w1 = bw_updates w"
    "spent_ok db (record_of db w) (vin tx) [] spent"
    using spent_in_block_ok [OF o(1-3) s] by simp_all
  have n: "new_txid db (tx_hash tx)" using t by (simp add: txid_ok_def)
  show ?thesis
  proof (cases found)
    case None
    then have "w' = w1" "spent = []" using assms(3) f s by (auto simp: block_tx_def rbind_require_iff)
    moreover from this have "\<forall>txin \<in> set (vin tx). \<forall>m. \<not> bonded db (record_of db w) (prevout txin) m"
      using c(4) by (auto simp: spent_ok_def)
    then have "tx_step cx db h mult (tx, txundo, fee) (record_of db w) (record_of db w)"
      using f None by (intro tx_step.Plain) simp_all
    ultimately show ?thesis using o c n core_mono updates_mono by (simp add: work_ok_def)
  next
    case (Some x)
    let ?n = "op_nickname x"
    have x: "operation_ok x" using f Some by (auto intro: ExtractFromTx_ok)
    then have norm: "NormalizeKeyName ?n = ?n" by (simp add: operation_ok_def NormalizeKeyName_def)
    define w2 where "w2 = loadState db ?n w1"
    obtain st where l: "Mapping.lookup (bw_states w2) ?n = Some st"
      and c2: "core_ok db T w2" "record_of db w2 = record_of db w" "bw_updates w2 = bw_updates w"
      using loadState_ok [OF c(1) norm] c(2,3) unfolding w2_def by auto
    let ?status = "if ws_existsNow st then info_GetStatus (ws_current st) h else EXPIRED_AVAILABLE"
    have d: "\<not> IsCoinBase tx" "require_fee x mult fee = Inr ()" "require_own_bond x spent = Inr ()"
        "block_operation cx h mult tx txundo x spent ?status w2 = Inr w'"
      using assms(3) f s Some get_state_Some [OF l]
      by (auto simp: block_tx_def rbind_require_iff rbind_Inr_iff Let_def w2_def [symmetric])
    note only = spends_onlyI [OF c(4) d(3)]
    have "op_pre H db T h w2 tx x spent st ?status"
      using o c2 t x l only by (simp add: op_pre_def spends_only_def)
    then have e: "tx_effect cx h mult db T tx txundo x (map_of spent ?n) w2 w'" using d(4) by (rule block_operation_ok)
    then obtain r where "record_of db w' = (record_of db w)(?n := r)"
        "name_step cx h mult tx txundo x (map_of spent ?n) (record_of db w ?n) r"
      by (auto simp: tx_effect_def c2(2))
    moreover obtain required where "GetRequiredNicknameFee x mult = Some required" "required \<le> fee"
      using d(2) require_fee_iff by blast
    ultimately have "tx_step cx db h mult (tx, txundo, fee) (record_of db w) (record_of db w')"
      using tx_step.Operation [OF f [unfolded Some] d(1) _ _ only] by simp
    then show ?thesis using e o n by (simp add: work_ok_def tx_effect_def)
  qed
qed

lemma block_txs_ok:
  assumes "work_ok H db T h w" "distinct (map (tx_hash \<circ> fst) es)" "\<forall>e \<in> set es. txid_ok db T (tx_hash (fst e))"
    and "block_txs cx db h mult es w = Inr w'"
  shows "work_ok H db (T \<union> (tx_hash \<circ> fst) ` set es) h w' \<and>
    block_run cx db h mult es (record_of db w) (record_of db w')"
  using assms
proof (induction es arbitrary: T w)
  case (Cons e es)
  obtain tx txundo fee where e: "e = (tx, txundo, fee)" by (cases e) auto
  obtain w1 where w1: "block_tx cx db h mult tx txundo fee w = Inr w1" "block_txs cx db h mult es w1 = Inr w'"
    using Cons.prems(4) by (auto simp: e rbind_Inr_iff)
  have s: "work_ok H db (insert (tx_hash tx) T) h w1" "tx_step cx db h mult e (record_of db w) (record_of db w1)"
    using block_tx_ok [OF Cons.prems(1) _ w1(1)] Cons.prems(3) by (simp_all add: e)
  have "\<forall>e \<in> set es. txid_ok db (insert (tx_hash tx) T) (tx_hash (fst e))"
    using Cons.prems(2,3) by (force simp: e txid_ok_def)
  then have "work_ok H db (insert (tx_hash tx) T \<union> (tx_hash \<circ> fst) ` set es) h w'"
      "block_run cx db h mult es (record_of db w1) (record_of db w')"
    using Cons.IH [OF s(1) _ _ w1(2)] Cons.prems(2) by simp_all
  then show ?case using s(2) by (auto simp: e block_run_Cons)
qed simp

subsection \<open>Every step of the ledger is accepted\<close>

lemma spent_in_block_total:
  assumes "db_ok H db" "\<forall>t \<in> T. new_txid db t" "core_ok db T w"
    and "\<And>txin m. txin \<in> set ins \<Longrightarrow> bonded db (record_of db w) (prevout txin) m \<Longrightarrow> m = n \<and> prevout txin = q"
    and "spent = [] \<or> spent = [(n, q)]"
  shows "\<exists>spent' w'. spent_in_block db ins spent w = Inr (spent', w') \<and> (spent' = [] \<or> spent' = [(n, q)])"
  using assms(3-5)
proof (induction ins arbitrary: spent w)
  case Nil
  then show ?case by simp
next
  case (Cons t ins)
  obtain r w1 where l: "lookupBondNicknameByOutpoint db (prevout t) w = (r, w1)" by fastforce
  note ok = lookupBond_ok [OF assms(1) Cons.prems(1) assms(2) l]
  have ins: "m = n \<and> prevout txin = q" if "txin \<in> set ins" "bonded db (record_of db w1) (prevout txin) m" for txin m
    using that ok(1) Cons.prems(2) [of txin m] by simp
  show ?case
  proof (cases r)
    case None
    then show ?thesis using Cons.IH [of w1 spent] ok(1) ins Cons.prems(3) l by simp
  next
    case (Some m)
    then have "m = n" "prevout t = q" using ok(2) Cons.prems(2) by auto
    then have "emplace_spent m (prevout t) spent = Inr [(n, q)]" using Cons.prems(3) by (auto simp: emplace_spent_def)
    then show ?thesis using Cons.IH [of w1 "[(n, q)]"] ok(1) ins l Some by simp
  qed
qed

lemma spent_exact:
  assumes "db_ok H db" "\<forall>t \<in> T. new_txid db t" "core_ok db T w" "spends_only db (record_of db w) tx n p"
  shows "\<exists>w'. spent_in_block db (vin tx) [] w = Inr (case p of None \<Rightarrow> [] | Some q \<Rightarrow> [(n, q)], w')"
proof -
  let ?q = "the p"
  obtain spent w' where s: "spent_in_block db (vin tx) [] w = Inr (spent, w')" "spent = [] \<or> spent = [(n, ?q)]"
    using spent_in_block_total [OF assms(1-3), of "vin tx" n ?q "[]"] assms(4) unfolding spends_only_def by fastforce
  have ok: "spent_ok db (record_of db w) (vin tx) [] spent" using spent_in_block_ok [OF assms(1-3) s(1)] by simp
  have "spent = (case p of None \<Rightarrow> [] | Some q \<Rightarrow> [(n, q)])"
  proof (cases p)
    case None
    then have nb: "\<not> bonded db (record_of db w) q m" if "q \<in> prevout ` set (vin tx)" for q m
      using assms(4) that unfolding spends_only_def by blast
    have "map_of spent n \<noteq> Some q" for q using ok nb unfolding spent_ok_def by fastforce
    then have "map_of spent n = None" by (metis not_Some_eq)
    then show ?thesis using s(2) None by auto
  next
    case (Some q)
    then have "q \<in> prevout ` set (vin tx)" "bonded db (record_of db w) q n"
      using assms(4) unfolding spends_only_def by blast+
    then have "map_of spent n = Some q" using ok unfolding spent_ok_def by blast
    then show ?thesis using s(2) Some by auto
  qed
  then show ?thesis using s(1) by blast
qed

lemma spent_plain:
  assumes "db_ok H db" "\<forall>t \<in> T. new_txid db t" "core_ok db T w"
    and "\<forall>txin \<in> set (vin (tx :: CTransaction)). \<forall>n. \<not> bonded db (record_of db w) (prevout txin) n"
  shows "\<exists>w'. spent_in_block db (vin tx) [] w = Inr ([], w')"
  using spent_exact [OF assms(1-3), of tx "[]" None] assms(4) by (simp add: spends_only_def)

lemma authorized_usable: "authorized cx tx txundo key \<Longrightarrow> pubkey_usable cx key"
  by (auto simp: authorized_def owner_spends_def)

lemma block_operation_total:
  assumes pre: "op_pre H db T h w tx x (case p of None \<Rightarrow> [] | Some q \<Rightarrow> [(op_nickname x, q)]) st status"
    and "name_step cx h mult tx txundo x p (new_record st) r"
  shows "\<exists>w'. block_operation cx h mult tx txundo x (case p of None \<Rightarrow> [] | Some q \<Rightarrow> [(op_nickname x, q)]) status w = Inr w'"
proof -
  note q = op_pre_record(2) [OF pre]
  have s: "status = (if ws_existsNow st then info_GetStatus (ws_current st) h else EXPIRED_AVAILABLE)"
    using pre by (simp add: op_pre_def)
  have inc: "0 < GetRenewalBondIncrease l mult" for l by (simp add: GetRenewalBondIncrease_def GetRenewalFee_range)
  have auth: "TxHasOwnerAuthorizationInput cx tx txundo key = Inr ()" if "authorized cx tx txundo key" for key
    using that TxHasOwner_iff by blast
  from assms(2) show ?thesis
  proof (cases rule: name_step.cases)
    case (Register amount v activeUntil)
    then show ?thesis using s
      by (auto simp: block_operation_def block_register_def q Let_def auth authorized_usable locks_bond_def
          may_register_def new_record_def split: if_splits)
  next
    case (Update i)
    then show ?thesis using s
      by (auto simp: block_operation_def block_update_def q Let_def auth new_record_def split: if_splits)
  next
    case (Transfer i q v)
    then show ?thesis using s q
      by (auto simp: block_operation_def block_transfer_def Let_def auth new_record_def spends_one_def locks_bond_def
          holds_bond_def split: if_splits)
  next
    case (Renew i q amount v activeUntil)
    then show ?thesis using s q inc [of "length (op_nickname x)"]
      by (auto simp: block_operation_def block_renew_def Let_def auth authorized_usable new_record_def spends_one_def
          locks_bond_def holds_bond_def split: if_splits)
  next
    case (Release i)
    then show ?thesis using s
      by (auto simp: block_operation_def block_release_def q Let_def auth new_record_def split: if_splits)
  next
    case (Claim i q)
    then show ?thesis using s op_pre_record(2) [OF pre]
      by (auto simp: block_operation_def block_claim_def Let_def auth new_record_def spends_one_def
          holds_bond_def split: if_splits)
  next
    case (Claim_former i q)
    then show ?thesis using s op_pre_record(2) [OF pre]
      by (auto simp: block_operation_def block_claim_def Let_def new_record_def spends_one_def
          holds_bond_def split: if_splits)
  qed
qed

lemma name_step_det:
  "name_step cx h mult tx txundo x p r r1 \<Longrightarrow> name_step cx h mult tx txundo x p r r2 \<Longrightarrow> r1 = r2"
  by (erule name_step.cases; erule name_step.cases) (auto simp: locks_bond_def)

lemma spends_only_det:
  assumes "spends_only db L tx n p" "spends_only db L tx n p'"
  shows "p = p'"
proof -
  have "p2 = p1" if "spends_only db L tx n p1" "spends_only db L tx n p2" "p1 = Some q" for p1 p2 q
    using that unfolding spends_only_def by blast
  then show ?thesis using assms by (cases p; cases p') metis+
qed

lemma tx_step_det:
  assumes "tx_step cx db h mult e L L1" "tx_step cx db h mult e L L2"
  shows "L1 = L2"
proof -
  obtain tx txundo fee where e: "e = (tx, txundo, fee)" by (cases e) auto
  have "tx_step cx db h mult (tx, txundo, fee) L L1" using assms(1) by (simp add: e)
  then show ?thesis
  proof (rule tx_stepE)
    assume "L1 = L" "ExtractNicknameOperationFromTx cx tx = Inr None"
    then show ?thesis using assms(2) unfolding e by (auto elim!: tx_stepE)
  next
    fix x required p r
    assume a: "L1 = L(op_nickname x := r)" "ExtractNicknameOperationFromTx cx tx = Inr (Some x)"
      "spends_only db L tx (op_nickname x) p" "name_step cx h mult tx txundo x p (L (op_nickname x)) r"
    have "tx_step cx db h mult (tx, txundo, fee) L L2" using assms(2) by (simp add: e)
    then obtain p' r' where "L2 = L(op_nickname x := r')" "spends_only db L tx (op_nickname x) p'"
        "name_step cx h mult tx txundo x p' (L (op_nickname x)) r'"
      using a(2) by (auto elim!: tx_stepE)
    then show ?thesis using a spends_only_det name_step_det by metis
  qed
qed

lemma block_tx_total:
  assumes ok: "work_ok H db T h w" and t: "txid_ok db T (tx_hash tx)"
    and step: "tx_step cx db h mult (tx, txundo, fee) (record_of db w) L"
  shows "\<exists>w'. block_tx cx db h mult tx txundo fee w = Inr w' \<and> record_of db w' = L"
proof -
  have o: "db_ok H db" "\<forall>t \<in> T. new_txid db t" "core_ok db T w" "updates_ok db T h (record_of db w) (bw_updates w)"
    using ok by (simp_all add: work_ok_def)
  have "\<exists>w'. block_tx cx db h mult tx txundo fee w = Inr w'"
  proof (rule tx_stepE [OF step])
    assume a: "ExtractNicknameOperationFromTx cx tx = Inr None"
      "\<forall>txin \<in> set (vin tx). \<forall>n. \<not> bonded db (record_of db w) (prevout txin) n"
    then show ?thesis using spent_plain [OF o(1-3) a(2)] by (auto simp: block_tx_def)
  next
    fix x required p r
    assume a: "ExtractNicknameOperationFromTx cx tx = Inr (Some x)" "\<not> IsCoinBase tx"
      "GetRequiredNicknameFee x mult = Some required" "required \<le> fee"
      "spends_only db (record_of db w) tx (op_nickname x) p"
      "name_step cx h mult tx txundo x p (record_of db w (op_nickname x)) r"
    let ?n = "op_nickname x" and ?spent = "case p of None \<Rightarrow> [] | Some q \<Rightarrow> [(op_nickname x, q)]"
    have x: "operation_ok x" using ExtractFromTx_ok [OF a(1)] .
    then have norm: "NormalizeKeyName ?n = ?n" by (simp add: operation_ok_def NormalizeKeyName_def)
    obtain w1 where s: "spent_in_block db (vin tx) [] w = Inr (?spent, w1)" using spent_exact [OF o(1-3) a(5)] by blast
    then have c: "core_ok db T w1" "record_of db w1 = record_of db w" "bw_updates w1 = bw_updates w"
      using spent_in_block_ok [OF o(1-3) s] by simp_all
    define w2 where "w2 = loadState db ?n w1"
    obtain st where l: "Mapping.lookup (bw_states w2) ?n = Some st"
      and c2: "core_ok db T w2" "record_of db w2 = record_of db w" "bw_updates w2 = bw_updates w"
      using loadState_ok [OF c(1) norm] c(2,3) unfolding w2_def by auto
    let ?status = "if ws_existsNow st then info_GetStatus (ws_current st) h else EXPIRED_AVAILABLE"
    have pre: "op_pre H db T h w2 tx x ?spent st ?status"
      using o c2 t x l a(5) by (auto simp: op_pre_def spends_only_def split: option.splits)
    have "name_step cx h mult tx txundo x p (new_record st) r" using a(6) op_pre_record(1) [OF pre] c2(2) by simp
    then obtain w' where "block_operation cx h mult tx txundo x ?spent ?status w2 = Inr w'"
      using block_operation_total [OF pre] by blast
    moreover have "require_own_bond x ?spent = Inr ()" by (simp add: require_own_bond_def split: option.splits)
    moreover have "require_fee x mult fee = Inr ()" using a(3,4) require_fee_iff by blast
    ultimately show ?thesis using a(1,2) s get_state_Some [OF l]
      by (auto simp: block_tx_def Let_def w2_def [symmetric])
  qed
  then show ?thesis using block_tx_ok [OF ok t] tx_step_det [OF _ step] by blast
qed

lemma block_txs_total:
  assumes "work_ok H db T h w" "distinct (map (tx_hash \<circ> fst) es)" "\<forall>e \<in> set es. txid_ok db T (tx_hash (fst e))"
    and "block_run cx db h mult es (record_of db w) L"
  shows "\<exists>w'. block_txs cx db h mult es w = Inr w' \<and> record_of db w' = L"
  using assms
proof (induction es arbitrary: T w)
  case (Cons e es)
  obtain tx txundo fee where e: "e = (tx, txundo, fee)" by (cases e) auto
  obtain L1 where r: "tx_step cx db h mult (tx, txundo, fee) (record_of db w) L1" "block_run cx db h mult es L1 L"
    using Cons.prems(4) by (auto simp: e block_run_Cons)
  have t: "txid_ok db T (tx_hash tx)" using Cons.prems(3) by (simp add: e)
  obtain w1 where w1: "block_tx cx db h mult tx txundo fee w = Inr w1" "record_of db w1 = L1"
    using block_tx_total [OF Cons.prems(1) t r(1)] by blast
  have s: "work_ok H db (insert (tx_hash tx) T) h w1" using block_tx_ok [OF Cons.prems(1) t w1(1)] by simp
  have "\<forall>e \<in> set es. txid_ok db (insert (tx_hash tx) T) (tx_hash (fst e))"
    using Cons.prems(2,3) by (force simp: e txid_ok_def)
  then show ?case using Cons.IH [OF s] Cons.prems(2) r(2) w1 by (simp add: e)
qed simp

end
