(* ===== verification/Nickname_Chain.thy ===== *)
theory Nickname_Chain
  imports Nickname_Ledger
begin

text \<open>
  A node that connects and disconnects blocks: the nickname part of \<^verbatim>\<open>ConnectBlock\<close> and \<^verbatim>\<open>DisconnectBlock\<close> in
  \<^verbatim>\<open>src/src/validation.cpp\<close>, composed with \<^verbatim>\<open>BuildNicknameBlockUpdates\<close>. The genesis block is not processed, so the
  first block has height one. What the rest of block validation guarantees of a block is a condition on the
  block: transaction hashes do not repeat along a chain and an input spends an output of an earlier transaction.
\<close>

record NicknameBlock =
  bk_hash :: uint256
  bk_height :: int
  bk_vtx :: "CTransaction list"
  bk_undo :: CBlockUndo
  bk_fees :: "CAmount list"

definition ConnectBlock :: "NicknameContext \<Rightarrow> NicknameStateDB \<Rightarrow> NicknameBlock \<Rightarrow> NicknameStateDB result" where
  "ConnectBlock cx db b =
     rbind (BuildNicknameBlockUpdates cx db (bk_vtx b) (bk_undo b) (bk_fees b) (bk_height b)) (\<lambda>u.
       Inr (connect_nicknames (cx_Hash160 cx) db (bk_hash b) u))"

definition DisconnectBlock :: "NicknameContext \<Rightarrow> NicknameStateDB \<Rightarrow> NicknameBlock \<Rightarrow> NicknameStateDB" where
  "DisconnectBlock cx db b = disconnect_nicknames (cx_Hash160 cx) db (bk_hash b) (bk_height b)"

definition bk_entries :: "NicknameBlock \<Rightarrow> block_entry list" where
  "bk_entries b = block_entries (bk_vtx b) (bk_undo b) (bk_fees b)"

text \<open>A block that is new to the database: nothing is stored for it, and its transactions are not in the bond index.\<close>

definition block_new :: "NicknameStateDB \<Rightarrow> NicknameBlock \<Rightarrow> bool" where
  "block_new db b \<longleftrightarrow>
     block_fresh db (bk_hash b) (bk_height b) \<and> distinct (map tx_hash (bk_vtx b)) \<and>
     (\<forall>tx \<in> set (bk_vtx b). new_txid db (tx_hash tx))"

subsection \<open>The updates of an accepted block\<close>

lemma holds_Some: "holds_bond x b \<Longrightarrow> \<exists>i. x = Some i"
  by (cases x) (auto simp: holds_bond_def)

lemma initial_work_ok:
  assumes "db_ok H db"
  shows "work_ok H db {} h (initial_work h)" "record_of db (initial_work h) = get_nick db"
proof -
  show r: "record_of db (initial_work h) = get_nick db"
    by (rule ext) (simp add: record_of_def initial_work_def)
  have "n = m" if "holds_bond (get_nick db n) b" "holds_bond (get_nick db m) b" for n m b
    using db_bond_name [OF assms that(1)] db_bond_name [OF assms that(2)] by simp
  moreover have "info_nickname i = n \<and> (bondClaimed i \<longrightarrow> bondTxid i = 0)" if "get_nick db n = Some i" for n i
    using assms that unfolding db_ok_def records_ok_def claims_ok_def by blast
  ultimately have "ledger_inv db {} (get_nick db)" unfolding ledger_inv_def by blast
  then show "work_ok H db {} h (initial_work h)"
    using assms unfolding work_ok_def core_ok_def r
    by (simp add: caches_ok_def initial_work_def updates_ok_def no_changes_def empty_updates_def set_touched)
qed

lemma zip_fst: "length ys = length xs \<Longrightarrow> map fst (zip xs ys) = xs"
  by (simp add: map_fst_zip)

lemma BuildE:
  assumes ok: "db_ok H db" and ids: "distinct (map tx_hash vtx)" "\<forall>tx \<in> set vtx. new_txid db (tx_hash tx)"
    and "BuildNicknameBlockUpdates cx db vtx undo fees h = Inr u"
  obtains w where "u = collect_updates (block_states w) (bw_updates w)" "work_ok H db (tx_hash ` set vtx) h w"
    "map fst (block_entries vtx undo fees) = vtx"
    "block_run cx db h (fst (ReadPricingMultiplierPermille db)) (block_entries vtx undo fees) (get_nick db) (record_of db w)"
proof -
  let ?m = "fst (ReadPricingMultiplierPermille db)" and ?es = "block_entries vtx undo fees"
  obtain w where w: "block_txs cx db h ?m ?es (initial_work h) = Inr w" "u = collect_updates (block_states w) (bw_updates w)"
    and len: "vtx \<noteq> [] \<Longrightarrow> length (vtxundo undo) + 1 = length vtx" "length fees = length vtx"
    using assms(4) by (auto simp: BuildNicknameBlockUpdates_def Let_def rbind_require_iff rbind_Inr_iff)
  have es: "map fst ?es = vtx"
  proof (cases "vtx = []")
    case False
    then show ?thesis using len by (simp add: block_entries_def zip_fst)
  qed (simp add: block_entries_def)
  have hs: "map (tx_hash \<circ> fst) ?es = map tx_hash vtx" using es by (metis map_map)
  have "fst e \<in> set vtx" if "e \<in> set ?es" for e using that es by (metis image_eqI list.set_map)
  then have "\<forall>e \<in> set ?es. txid_ok db {} (tx_hash (fst e))" using ids(2) by (simp add: txid_ok_def)
  then have "work_ok H db ({} \<union> (tx_hash \<circ> fst) ` set ?es) h w \<and>
      block_run cx db h ?m ?es (record_of db (initial_work h)) (record_of db w)"
    using block_txs_ok [OF initial_work_ok(1) [OF ok] _ _ w(1)] ids(1) hs by simp
  moreover have "(tx_hash \<circ> fst) ` set ?es = tx_hash ` set vtx" using hs by (metis list.set_map)
  ultimately show thesis using that [OF w(2) _ es] initial_work_ok(2) [OF ok] by simp
qed

lemma block_states_lookup:
  assumes "finite (Mapping.keys (bw_states w))"
  shows "(n, st) \<in> set (block_states w) \<longleftrightarrow> Mapping.lookup (bw_states w) n = Some st"
    and "distinct (map fst (block_states w))"
proof -
  have "(n, st) \<in> set (block_states w) \<longleftrightarrow> n \<in> Mapping.keys (bw_states w) \<and> st = get_state w n"
    using assms by (auto simp: block_states_def ordered_keys_set)
  then show "(n, st) \<in> set (block_states w) \<longleftrightarrow> Mapping.lookup (bw_states w) n = Some st"
    by (auto simp: keys_dom_lookup get_state_def)
  show "distinct (map fst (block_states w))" by (simp add: block_states_def comp_def Mapping.ordered_keys_def)
qed

lemma work_dirty:
  assumes "work_ok H db T h w" "(n, st) \<in> set (dirty (block_states w))"
  shows "record_of db w n = new_record st" "state_inv db n st" "ws_dirty st"
proof -
  have l: "Mapping.lookup (bw_states w) n = Some st" "ws_dirty st"
    using assms block_states_lookup(1) [of w n st] by (auto simp: work_ok_def core_ok_def dirty_def)
  then show "record_of db w n = new_record st" "ws_dirty st" by (simp_all add: record_of_def)
  show "state_inv db n st" using assms(1) l by (simp add: work_ok_def core_ok_def)
qed

lemma work_block_ok:
  assumes ok: "work_ok H db T h w" and "block_fresh db hash h"
  shows "block_ok H db hash (block_states w) (bw_updates w)"
proof -
  have led: "ledger_inv db T (record_of db w)" and T: "\<forall>t \<in> T. new_txid db t"
    and fin: "finite (Mapping.keys (bw_states w))" and db: "db_ok H db"
    using ok by (simp_all add: work_ok_def core_ok_def)
  have "state_ok db (n, st)" if d: "(n, st) \<in> set (dirty (block_states w))" for n st
  proof -
    note k = work_dirty [OF ok d]
    have r: "record_of db w n = Some (ws_current st)" using k by (simp add: new_record_def state_inv_def)
    have "get_bond db b = None \<or> holds_bond (get_nick db n) b" if "holds_bond (Some (ws_current st)) b" for b
      using led that r new_bond_none [OF T] unfolding ledger_inv_def by metis
    moreover have "info_nickname (ws_current st) = n" using led r by (simp add: ledger_inv_def)
    ultimately show ?thesis using k(2) by (auto simp: state_ok_def state_inv_def holds_bond_def split: option.splits if_splits)
  qed
  then show ?thesis
    using assms(2) ok db block_states_lookup(2) [OF fin]
    by (auto simp: block_ok_def work_ok_def updates_ok_def db_ok_def)
qed

lemma connect_records:
  assumes ok: "work_ok H db T h w" and "block_fresh db hash h"
  shows "get_nick (connect_nicknames H db hash (collect_updates (block_states w) (bw_updates w))) = record_of db w"
proof (rule ext)
  fix n
  note b = work_block_ok [OF assms]
  have fin: "finite (Mapping.keys (bw_states w))" using ok by (simp add: work_ok_def core_ok_def)
  have d: "distinct (map fst (dirty (block_states w)))" using distinct_dirty [OF block_states_lookup(2) [OF fin]] .
  show "get_nick (connect_nicknames H db hash (collect_updates (block_states w) (bw_updates w))) n = record_of db w n"
  proof (cases "map_of (dirty (block_states w)) n")
    case (Some st)
    then show ?thesis using connect_nick [OF b, of n] work_dirty(1) [OF ok map_of_SomeD [OF Some]] by simp
  next
    case None
    then have no: "(n, st) \<notin> set (dirty (block_states w))" for st using d by (auto simp: map_of_eq_None_iff image_iff)
    have "record_of db w n = get_nick db n"
    proof (cases "Mapping.lookup (bw_states w) n")
      case (Some st)
      then have "\<not> ws_dirty st" using no [of st] block_states_lookup(1) [OF fin, of n st] by (auto simp: dirty_def)
      moreover have "state_inv db n st" using ok Some by (simp add: work_ok_def core_ok_def)
      ultimately show ?thesis using Some by (simp add: record_of_def state_inv_def)
    qed (simp add: record_of_def)
    then show ?thesis using None connect_nick [OF b, of n] by simp
  qed
qed

subsection \<open>The database after a block\<close>

definition after_block :: "key_hash \<Rightarrow> NicknameStateDB \<Rightarrow> uint256 \<Rightarrow> BlockWork \<Rightarrow> NicknameStateDB" where
  "after_block H db hash w = connect_nicknames H db hash (collect_updates (block_states w) (bw_updates w))"

lemma after_block_bond:
  assumes "block_ok H db hash (block_states w) (bw_updates w)"
  shows "get_bond (after_block H db hash w) b =
    (case last_write op_bond (bond_ops (bw_updates w)) b of
       None \<Rightarrow> (case last_write op_bond (block_puts H db (ordered (dirty (block_states w)))) b of
         None \<Rightarrow> get_bond db b | Some v \<Rightarrow> v)
     | Some v \<Rightarrow> v)"
  using assms unfolding after_block_def
  by (simp add: block_ok_def connect_batch bond.get_batch last_write_simps last_write_tail split: option.splits)

lemma bond_ops_op:
  assumes "last_write op_bond (bond_ops u) b = Some (Some n)"
  shows "\<exists>m. (b, m) \<in> set (bondIndexUpserts u) \<and> n = NormalizeKeyName m"
  using last_write_SomeD [OF assms] by (auto simp: bond_ops_def)

lemma puts_bond_write:
  assumes "last_write op_bond (block_puts H db xs) b = Some (Some n)"
  shows "\<exists>st. (n, st) \<in> set xs \<and> holds_bond (new_record st) b"
proof -
  obtain x where x: "x \<in> set (block_puts H db xs)" "op_bond x = Some (b, Some n)"
    using last_write_SomeD [OF assms] by blast
  then obtain m st where m: "(m, st) \<in> set xs" "x \<in> set (put_ops H db m (new_record st))"
    unfolding block_puts_def by auto
  show ?thesis using put_bond_op [OF m(2) x(2)] m(1) by auto
qed

text \<open>Whatever is in the bond index after a block was there before or was made by the block, for a name that exists.\<close>

lemma after_block_index:
  assumes ok: "work_ok H db T h w" and "block_fresh db hash h" "get_bond (after_block H db hash w) b = Some n"
  shows "record_of db w n \<noteq> None \<and> (out_hash b \<in> T \<or> get_bond db b \<noteq> None)"
proof -
  have led: "ledger_inv db T (record_of db w)" and db: "db_ok H db"
    and up: "updates_ok db T h (record_of db w) (bw_updates w)"
    using ok by (simp_all add: work_ok_def core_ok_def)
  note g = after_block_bond [OF work_block_ok [OF ok assms(2)], of b, unfolded assms(3)]
  show ?thesis
  proof (cases "last_write op_bond (bond_ops (bw_updates w)) b")
    case (Some v)
    then have "v = Some n" using g by simp
    then obtain m where m: "(b, m) \<in> set (bondIndexUpserts (bw_updates w))" "n = NormalizeKeyName m"
      using bond_ops_op Some by blast
    then have "b \<in> set (touched_bonds (bw_updates w))" by (force simp: set_touched)
    then show ?thesis using up m by (auto simp: updates_ok_def)
  next
    case b: None
    show ?thesis
    proof (cases "last_write op_bond (block_puts H db (ordered (dirty (block_states w)))) b")
      case (Some v)
      then have "v = Some n" using g b by simp
      then obtain st where "(n, st) \<in> set (dirty (block_states w))" "holds_bond (new_record st) b"
        using puts_bond_write Some by fastforce
      then have "holds_bond (record_of db w n) b" using work_dirty(1) [OF ok] by simp
      moreover from this have "holds_bond (get_nick db n) b \<or> out_hash b \<in> T" using led unfolding ledger_inv_def by blast
      ultimately show ?thesis using db_bond_name [OF db, of n b] holds_Some by blast
    next
      case None
      then have "get_bond db b = Some n" using g b by simp
      then show ?thesis using db led unfolding db_ok_def bond_names_ok_def ledger_inv_def by blast
    qed
  qed
qed

text \<open>A name that holds a bond after the block is the one the index has for it.\<close>

lemma put_own_bond:
  "holds_bond (Some i) b \<Longrightarrow> last_write op_bond (put_ops H db n (Some i)) b = Some (Some n)"
  by (auto simp: put_ops_def WriteNicknameIndexEntries_def holds_bond_def last_write_append last_write_single
      last_write_Cons2 last_write_Cons [of op_bond "WriteN n i" "ops" for ops] split: option.splits)

lemma after_block_holder:
  assumes ok: "work_ok H db T h w" and fresh: "block_fresh db hash h" and holds: "holds_bond (record_of db w n) b"
  shows "get_bond (after_block H db hash w) b = Some n"
proof -
  let ?ds = "dirty (block_states w)"
  have led: "ledger_inv db T (record_of db w)" and db: "db_ok H db" and T: "\<forall>t \<in> T. new_txid db t"
    and fin: "finite (Mapping.keys (bw_states w))" and up: "updates_ok db T h (record_of db w) (bw_updates w)"
    using ok by (simp_all add: work_ok_def core_ok_def)
  note bok = work_block_ok [OF ok fresh]
  have nt: "b \<notin> set (touched_bonds (bw_updates w))" using up holds unfolding updates_ok_def by blast
  have other: "m = n" if "holds_bond (get_nick db m) b" for m
    using led holds db_bond_name [OF db] db_bond_name [OF db that] new_bond_none [OF T] unfolding ledger_inv_def by fastforce
  have other': "m = n" if "(m, st) \<in> set ?ds" "holds_bond (new_record st) b" for m st
    using led holds that work_dirty(1) [OF ok that(1)] unfolding ledger_inv_def by metis
  show ?thesis
  proof (cases "map_of ?ds n")
    case None
    then have no: "(n, st) \<notin> set ?ds" for st using weak_map_of_SomeI by fastforce
    have "get_nick (after_block H db hash w) n = get_nick db n"
      using connect_nick [OF bok, of n] None by (simp add: after_block_def)
    then have "holds_bond (get_nick db n) b" using holds connect_records [OF ok fresh] by (simp add: after_block_def)
    moreover have "get_bond (after_block H db hash w) b = get_bond db b"
      unfolding after_block_def using other other' no by (intro connect_bond [OF bok nt]) blast
    ultimately show ?thesis using db_bond_name [OF db] by simp
  next
    case (Some st)
    then have d: "(n, st) \<in> set ?ds" by (rule map_of_SomeD)
    have dist: "distinct (map fst ?ds)" using distinct_dirty [OF block_states_lookup(2) [OF fin]] .
    have "new_record st = record_of db w n" using work_dirty(1) [OF ok d] by simp
    moreover obtain i where "record_of db w n = Some i" using holds_Some [OF holds] by blast
    ultimately have i: "new_record st = Some i" "holds_bond (Some i) b" using holds by simp_all
    have "last_write op_bond (case y of (m, st') \<Rightarrow> put_ops H db m (new_record st')) b = None"
      if "y \<in> set (ordered ?ds)" "y \<noteq> (n, st)" for y
    proof -
      obtain m st' where y: "y = (m, st')" by fastforce
      then have m: "m \<noteq> n" using that d dist by (metis eq_key_imp_eq_value ordered_set)
      have "(m, st') \<in> set ?ds" using that y by simp
      then show ?thesis unfolding last_write_iff y using m other [of m] other' [of m st'] put_bond_op [of _ H db m "new_record st'" b] by auto
    qed
    then have "last_write op_bond (block_puts H db (ordered ?ds)) b = last_write op_bond (put_ops H db n (new_record st)) b"
      unfolding block_puts_def using d ordered_distinct [OF dist]
      by (subst last_write_concat_unique [of "(n, st)"]) (simp_all add: distinct_map)
    then show ?thesis unfolding after_block_bond [OF bok] using i bond_ops_none(3) [OF nt] put_own_bond [OF i(2)] by simp
  qed
qed

lemma after_block_ok:
  assumes ok: "work_ok H db T h w" and fresh: "block_fresh db hash h"
  shows "db_ok H (after_block H db hash w)"
proof -
  let ?db = "after_block H db hash w"
  note bok = work_block_ok [OF ok fresh]
  have led: "ledger_inv db T (record_of db w)" and st: "\<And>n st. Mapping.lookup (bw_states w) n = Some st \<Longrightarrow> state_inv db n st"
    and db: "db_ok H db" using ok by (simp_all add: work_ok_def core_ok_def)
  have r: "get_nick ?db = record_of db w" using connect_records [OF ok fresh] by (simp add: after_block_def)
  have norm: "NormalizeKeyName n = n" if "record_of db w n = Some i" for n i
  proof (cases "Mapping.lookup (bw_states w) n")
    case None
    then show ?thesis using that db unfolding db_ok_def records_ok_def record_of_def by auto
  qed (use st in \<open>simp add: state_inv_def\<close>)
  have "records_ok ?db" unfolding records_ok_def r
    using led norm after_block_holder [OF ok fresh] by (auto simp: ledger_inv_def holds_bond_def)
  moreover have "claims_ok ?db" unfolding claims_ok_def r using led by (auto simp: ledger_inv_def)
  moreover have "bond_names_ok ?db" unfolding bond_names_ok_def r using after_block_index [OF ok fresh] by blast
  moreover have "owner_index_ok H ?db" using connect_owner [OF bok] by (simp add: owner_index_ok_def after_block_def)
  moreover have "pricing_ok ?db"
    by (simp add: pricing_ok_def after_block_def connect_nicknames_def batch_pricing ComputeNextPricingState_def Let_def clamp_idem)
  ultimately show ?thesis by (simp add: db_ok_def)
qed

subsection \<open>Chains of blocks\<close>

definition chain_txids :: "NicknameBlock list \<Rightarrow> uint256 set" where
  "chain_txids bs = (\<Union>b \<in> set bs. tx_hash ` set (bk_vtx b))"

definition spends :: "CTransaction \<Rightarrow> COutPoint set" where
  "spends tx = prevout ` set (vin tx)"

text \<open>
  What a block that extends the chain \<open>bs\<close>, newest block first, satisfies by the other rules of block validation: its
  height is the next one, its hash and those of its transactions are new, and no transaction of the chain
  up to it spends an output of a later transaction or of itself.
\<close>

definition new_block :: "NicknameBlock list \<Rightarrow> NicknameBlock \<Rightarrow> bool" where
  "new_block bs b \<longleftrightarrow>
     bk_height b = int (length bs) + 1 \<and> bk_hash b \<notin> bk_hash ` set bs \<and>
     distinct (map tx_hash (bk_vtx b)) \<and> tx_hash ` set (bk_vtx b) \<inter> chain_txids bs = {} \<and>
     (\<forall>c \<in> set bs. \<forall>tx \<in> set (bk_vtx c). \<forall>p \<in> spends tx. out_hash p \<notin> tx_hash ` set (bk_vtx b)) \<and>
     (\<forall>i < length (bk_vtx b). \<forall>p \<in> spends (bk_vtx b ! i). out_hash p \<notin> tx_hash ` set (drop i (bk_vtx b)))"

text \<open>
  The runs of a node: blocks are connected to the tip and disconnected from it in any order, and a listing of names
  may make the owner index ready in between.
\<close>

inductive node :: "NicknameContext \<Rightarrow> NicknameBlock list \<Rightarrow> NicknameStateDB \<Rightarrow> bool"
  for cx
where
  Start: "node cx [] empty_db"
| Connect: "node cx bs db \<Longrightarrow> new_block bs b \<Longrightarrow> ConnectBlock cx db b = Inr db' \<Longrightarrow> node cx (b # bs) db'"
| Disconnect: "node cx (b # bs) db \<Longrightarrow> node cx bs (DisconnectBlock cx db b)"
| Query: "node cx bs db \<Longrightarrow> node cx bs (EnsureOwnerIndexReady (cx_Hash160 cx) db)"

text \<open>The database that connecting the blocks of a chain to an empty one gives.\<close>

primrec replay :: "NicknameContext \<Rightarrow> NicknameBlock list \<Rightarrow> NicknameStateDB result" where
  "replay cx [] = Inr empty_db"
| "replay cx (b # bs) = rbind (replay cx bs) (\<lambda>db. ConnectBlock cx db b)"

primrec valid_chain :: "NicknameBlock list \<Rightarrow> bool" where
  "valid_chain [] \<longleftrightarrow> True"
| "valid_chain (b # bs) \<longleftrightarrow> new_block bs b \<and> valid_chain bs"

definition stored_ok :: "NicknameBlock list \<Rightarrow> NicknameStateDB \<Rightarrow> bool" where
  "stored_ok bs db \<longleftrightarrow>
     (\<forall>h. h \<notin> bk_hash ` set bs \<longrightarrow> Mapping.lookup (db_undo db) h = None \<and>
        Mapping.lookup (db_bond_undo db) h = None \<and> Mapping.lookup (db_pricing_undo db) h = None) \<and>
     (\<forall>ht > int (length bs). Mapping.lookup (db_reg_count db) ht = None) \<and>
     (\<forall>p. out_hash p \<notin> chain_txids bs \<longrightarrow> get_bond db p = None) \<and> db_ready db = None \<and>
     finite (Mapping.keys (db_nickname db)) \<and> finite (Mapping.keys (db_owner db))"

lemma new_block_new:
  assumes "stored_ok bs db" "new_block bs b"
  shows "block_new db b"
proof -
  have "out_hash (COutPoint (tx_hash tx) v) \<notin> chain_txids bs" if "tx \<in> set (bk_vtx b)" for tx v
    using assms(2) that unfolding new_block_def by auto
  then show ?thesis using assms by (auto simp: block_new_def block_fresh_def stored_ok_def new_block_def new_txid_def)
qed

lemma ConnectE:
  assumes "db_ok (cx_Hash160 cx) db" "block_new db b" "ConnectBlock cx db b = Inr db'"
  obtains w where "db' = after_block (cx_Hash160 cx) db (bk_hash b) w"
    "work_ok (cx_Hash160 cx) db (tx_hash ` set (bk_vtx b)) (bk_height b) w" "map fst (bk_entries b) = bk_vtx b"
    "block_run cx db (bk_height b) (fst (ReadPricingMultiplierPermille db)) (bk_entries b) (get_nick db) (get_nick db')"
    "get_nick db' = record_of db w"
proof -
  obtain u where u: "BuildNicknameBlockUpdates cx db (bk_vtx b) (bk_undo b) (bk_fees b) (bk_height b) = Inr u"
      "db' = connect_nicknames (cx_Hash160 cx) db (bk_hash b) u"
    using assms(3) by (auto simp: ConnectBlock_def rbind_Inr_iff)
  have n: "distinct (map tx_hash (bk_vtx b))" "\<forall>tx \<in> set (bk_vtx b). new_txid db (tx_hash tx)"
    "block_fresh db (bk_hash b) (bk_height b)"
    using assms(2) by (simp_all add: block_new_def)
  obtain w where w: "u = collect_updates (block_states w) (bw_updates w)"
      "work_ok (cx_Hash160 cx) db (tx_hash ` set (bk_vtx b)) (bk_height b) w" "map fst (bk_entries b) = bk_vtx b"
      "block_run cx db (bk_height b) (fst (ReadPricingMultiplierPermille db)) (bk_entries b) (get_nick db) (record_of db w)"
    using BuildE [OF assms(1) n(1,2) u(1)] unfolding bk_entries_def by metis
  have "get_nick db' = record_of db w" using connect_records [OF w(2) n(3)] u(2) w(1) by simp
  then show thesis using that [of w] w u(2) by (simp add: after_block_def)
qed

lemma disconnect_after:
  assumes "db_ok (cx_Hash160 cx) db" "block_new db b" "ConnectBlock cx db b = Inr db'"
  shows "DisconnectBlock cx db' b = db"
proof -
  obtain w where w: "db' = after_block (cx_Hash160 cx) db (bk_hash b) w"
      "work_ok (cx_Hash160 cx) db (tx_hash ` set (bk_vtx b)) (bk_height b) w"
    using ConnectE [OF assms] .
  have "block_fresh db (bk_hash b) (bk_height b)" using assms(2) by (simp add: block_new_def)
  then have "block_ok (cx_Hash160 cx) db (bk_hash b) (block_states w) (bw_updates w)" by (rule work_block_ok [OF w(2)])
  moreover have "up_blockHeight (bw_updates w) = bk_height b" using w(2) by (simp add: work_ok_def updates_ok_def)
  ultimately show ?thesis using disconnect_connect unfolding DisconnectBlock_def w(1) after_block_def by metis
qed

lemma finite_nick_batch: "finite (Mapping.keys (db_nickname db)) \<Longrightarrow> finite (Mapping.keys (db_nickname (WriteBatch db ops)))"
proof (induction ops arbitrary: db)
  case (Cons x ops)
  have "finite (Mapping.keys (db_nickname (apply_op x db)))" using Cons.prems by (cases x) simp_all
  then show ?case using Cons.IH by (simp add: WriteBatch_def)
qed (simp add: WriteBatch_def)

lemma stored_connect:
  assumes "db_ok (cx_Hash160 cx) db" "stored_ok bs db" "new_block bs b" "ConnectBlock cx db b = Inr db'"
  shows "stored_ok (b # bs) db'"
proof -
  note new = new_block_new [OF assms(2,3)]
  obtain w where w: "db' = after_block (cx_Hash160 cx) db (bk_hash b) w"
      "work_ok (cx_Hash160 cx) db (tx_hash ` set (bk_vtx b)) (bk_height b) w"
    using ConnectE [OF assms(1) new assms(4)] .
  have fresh: "block_fresh db (bk_hash b) (bk_height b)" using new by (simp add: block_new_def)
  have ht: "up_blockHeight (bw_updates w) = int (length bs) + 1"
    using w(2) assms(3) by (simp add: work_ok_def updates_ok_def new_block_def)
  note admin = connect_admin [OF work_block_ok [OF w(2) fresh], folded after_block_def, folded w(1)]
  have idx: "get_bond db' p = None" if "out_hash p \<notin> chain_txids (b # bs)" for p
  proof (rule ccontr)
    assume "get_bond db' p \<noteq> None"
    then have "out_hash p \<in> tx_hash ` set (bk_vtx b) \<or> get_bond db p \<noteq> None"
      using after_block_index [OF w(2) fresh, of p] w(1) by blast
    then show False using that assms(2) by (auto simp: stored_ok_def chain_txids_def)
  qed
  have "finite (Mapping.keys (db_nickname db'))" "finite (Mapping.keys (db_owner db'))"
    using assms(2) finite_nick_batch finite_owner_batch
    by (simp_all add: w(1) after_block_def connect_nicknames_def WriteNicknameBatch_def stored_ok_def)
  then show ?thesis using assms(2) admin ht idx by (simp add: stored_ok_def)
qed

lemma empty_db_ok: "db_ok H empty_db" "stored_ok [] empty_db" "window_ok empty_db 0"
  by (simp_all add: db_ok_def records_ok_def owner_index_ok_def pricing_ok_def claims_ok_def bond_names_ok_def
      empty_db_def owner_entry_def stored_ok_def window_ok_def ReadNicknamePricingState_def empty_pricing_state_def)

lemma connect_rolling:
  assumes "db_ok (cx_Hash160 cx) db" "stored_ok bs db" "new_block bs b" "ConnectBlock cx db b = Inr db'"
    and "window_ok db (int (length bs))"
  shows "db_ok (cx_Hash160 cx) db'"
    and "rollingRegistrations (fst (ReadNicknamePricingState db')) = RebuildRollingRegistrations db' (int (length (b # bs)))"
proof -
  note new = new_block_new [OF assms(2,3)]
  obtain w where w: "db' = after_block (cx_Hash160 cx) db (bk_hash b) w"
      "work_ok (cx_Hash160 cx) db (tx_hash ` set (bk_vtx b)) (bk_height b) w"
    using ConnectE [OF assms(1) new assms(4)] .
  have fresh: "block_fresh db (bk_hash b) (bk_height b)" using new by (simp add: block_new_def)
  have "up_blockHeight (bw_updates w) = int (length bs) + 1"
    using w(2) assms(3) by (simp add: work_ok_def updates_ok_def new_block_def)
  then show "rollingRegistrations (fst (ReadNicknamePricingState db')) = RebuildRollingRegistrations db' (int (length (b # bs)))"
    using connect_window [OF work_block_ok [OF w(2) fresh]] assms(5) by (simp add: w(1) after_block_def add.commute)
  show "db_ok (cx_Hash160 cx) db'" using after_block_ok [OF w(2) fresh] w(1) by simp
qed

lemma replay_ok:
  assumes "valid_chain bs" "replay cx bs = Inr db"
  shows "db_ok (cx_Hash160 cx) db \<and> stored_ok bs db \<and> window_ok db (int (length bs)) \<and>
    (bs \<noteq> [] \<longrightarrow> rollingRegistrations (fst (ReadNicknamePricingState db)) = RebuildRollingRegistrations db (int (length bs)))"
  using assms
proof (induction bs arbitrary: db)
  case Nil
  then show ?case using empty_db_ok by simp
next
  case (Cons b bs)
  then obtain db0 where c: "replay cx bs = Inr db0" "ConnectBlock cx db0 b = Inr db" "new_block bs b" "valid_chain bs"
    by (auto simp: rbind_Inr_iff)
  then have ok: "db_ok (cx_Hash160 cx) db0" "stored_ok bs db0" "window_ok db0 (int (length bs))" using Cons.IH by auto
  then show ?case
    using connect_rolling [OF ok(1,2) c(3,2) ok(3)] stored_connect [OF ok(1,2) c(3,2)] by (simp add: window_ok_def Let_def)
qed

subsection \<open>Listings between blocks\<close>

text \<open>No step on blocks reads or writes the mark of the owner index, and a listing changes nothing else.\<close>

lemma ready_reads [simp]:
  "ReadNickname (db\<lparr>db_ready := x\<rparr>) = ReadNickname db"
  "ReadNicknameByBondOutpoint (db\<lparr>db_ready := x\<rparr>) = ReadNicknameByBondOutpoint db"
  "ReadNicknamePricingState (db\<lparr>db_ready := x\<rparr>) = ReadNicknamePricingState db"
  "ReadPricingMultiplierPermille (db\<lparr>db_ready := x\<rparr>) = ReadPricingMultiplierPermille db"
  "ReadRegistrationCountAtHeight (db\<lparr>db_ready := x\<rparr>) = ReadRegistrationCountAtHeight db"
  by (rule ext | simp add: ReadNickname_def ReadNicknameByBondOutpoint_def ReadNicknamePricingState_def
      ReadPricingMultiplierPermille_def ReadRegistrationCountAtHeight_def)+

lemma ready_ops [simp]:
  "upsert_ops H (db\<lparr>db_ready := x\<rparr>) = upsert_ops H db" "erase_ops H (db\<lparr>db_ready := x\<rparr>) = erase_ops H db"
  "undo_erase_ops H (db\<lparr>db_ready := x\<rparr>) = undo_erase_ops H db"
  "rememberBondIndexUndo (db\<lparr>db_ready := x\<rparr>) = rememberBondIndexUndo db"
  "pricing_undo_entry (db\<lparr>db_ready := x\<rparr>) = pricing_undo_entry db"
  "ComputeNextPricingState (db\<lparr>db_ready := x\<rparr>) = ComputeNextPricingState db"
  by (intro ext | simp add: upsert_ops_def erase_ops_def undo_erase_ops_def rememberBondIndexUndo_def
      pricing_undo_entry_def ComputeNextPricingState_def RebuildRollingRegistrations_def)+

lemma ready_batch:
  "(\<And>op. op \<in> set ops \<Longrightarrow> op_ready op = None) \<Longrightarrow> WriteBatch (db\<lparr>db_ready := x\<rparr>) ops = (WriteBatch db ops)\<lparr>db_ready := x\<rparr>"
proof (induction ops arbitrary: db)
  case (Cons op ops)
  have "op_ready op = None" using Cons.prems by simp
  then have "apply_op op (db\<lparr>db_ready := x\<rparr>) = (apply_op op db)\<lparr>db_ready := x\<rparr>" by (cases op) simp_all
  then show ?case using Cons.IH [of "apply_op op db"] Cons.prems by (simp add: WriteBatch_def)
qed (simp add: WriteBatch_def)

lemma ready_connect: "connect_nicknames H (db\<lparr>db_ready := x\<rparr>) h u = (connect_nicknames H db h u)\<lparr>db_ready := x\<rparr>"
  unfolding connect_nicknames_def WriteNicknameBatch_def ready_ops ready_reads
  by (rule ready_batch)
    (auto simp: upsert_ops_def erase_ops_def index_ops Let_def split: option.splits if_splits)

lemma ready_disconnect:
  "disconnect_nicknames H (db\<lparr>db_ready := x\<rparr>) h ht = (disconnect_nicknames H db h ht)\<lparr>db_ready := x\<rparr>"
proof -
  have "ApplyNicknameUndo H (db\<lparr>db_ready := x\<rparr>) h ht es = (ApplyNicknameUndo H db h ht es)\<lparr>db_ready := x\<rparr>" for es
    unfolding ApplyNicknameUndo_def ReadNicknameBondIndexUndo_def ready_ops
    by (simp, rule ready_batch)
      (auto simp: undo_erase_ops_def undo_restore_ops_def undo_bond_ops_def index_ops Let_def split: option.splits if_splits)
  then show ?thesis by (simp add: disconnect_nicknames_def ReadNicknameUndo_def split: option.splits)
qed

lemma ready_load [simp]:
  "loadState (db\<lparr>db_ready := x\<rparr>) = loadState db"
  "lookupBondNicknameByOutpoint (db\<lparr>db_ready := x\<rparr>) = lookupBondNicknameByOutpoint db"
  by (intro ext, simp only: loadState_def ready_reads)
    (intro ext, simp only: lookupBondNicknameByOutpoint_def loadState_def ready_reads)

lemma ready_spent [simp]: "spent_in_block (db\<lparr>db_ready := x\<rparr>) ins spent w = spent_in_block db ins spent w"
  by (induction ins arbitrary: spent w) (simp_all cong: rbind_cong split: prod.split option.split)

lemma ready_txs [simp]: "block_txs cx (db\<lparr>db_ready := x\<rparr>) h mult es w = block_txs cx db h mult es w"
proof -
  have "block_tx cx (db\<lparr>db_ready := x\<rparr>) h mult = block_tx cx db h mult"
    by (intro ext) (simp only: block_tx_def ready_load ready_spent)
  then show ?thesis by (induction es arbitrary: w) (auto intro!: rbind_cong)
qed

lemma ready_ConnectBlock: "ConnectBlock cx (db\<lparr>db_ready := x\<rparr>) b = rbind (ConnectBlock cx db b) (\<lambda>db'. Inr (db'\<lparr>db_ready := x\<rparr>))"
  by (cases "BuildNicknameBlockUpdates cx db (bk_vtx b) (bk_undo b) (bk_fees b) (bk_height b)")
    (simp_all add: ConnectBlock_def BuildNicknameBlockUpdates_def ready_connect)

lemma ready_Ensure:
  assumes "owner_index_ok H db" "finite (Mapping.keys (db_nickname db))" "finite (Mapping.keys (db_owner db))"
  shows "EnsureOwnerIndexReady H db = db\<lparr>db_ready := Some True\<rparr>"
proof (cases "db_ready db = Some True")
  case True
  then show ?thesis by (simp add: EnsureOwnerIndexReady_def)
next
  case False
  let ?ops = "map EraseO (Mapping.ordered_keys (db_owner db)) @ index_writes H db @ [WriteReady True]"
  have e: "EnsureOwnerIndexReady H db = WriteBatch db ?ops"
    using False by (simp add: EnsureOwnerIndexReady_def index_writes_def)
  have op: "(\<exists>k. op = EraseO k \<or> op = WriteO k True) \<or> op = WriteReady True" if "op \<in> set ?ops" for op
    using that index_writes_op [of op H db] by auto
  have none: "last_write op_nick ?ops a = None" "last_write op_bond ?ops b = None" "last_write op_undo ?ops c = None"
    "last_write op_bond_undo ?ops c = None" "last_write op_pricing_undo ?ops c = None" "last_write op_reg ?ops d = None"
    "last_write op_pricing ?ops z = None" for a b c d z
    unfolding last_write_iff using op by fastforce+
  have "owner_index_ok H (EnsureOwnerIndexReady H db)"
    using assms False by (intro ensure_owner) (simp add: index_current_def)
  then have "get_owner (WriteBatch db ?ops) = get_owner db"
    using assms(1) ensure_nick [of H db] unfolding e [symmetric] owner_index_ok_def by (auto simp: fun_eq_iff)
  then show ?thesis unfolding e
    by (intro db_eqI)
      (simp_all add: fun_eq_iff nick.get_batch bond.get_batch undo.get_batch bundo.get_batch pundo.get_batch
        reg.get_batch pricing.get_batch [of _ _ "()"] ready.get_batch [of _ _ "()"] none del: append_assoc,
       simp add: last_write_append last_write_single)
qed

subsection \<open>Runs of a node\<close>

lemma node_replay:
  assumes "node cx bs db"
  shows "valid_chain bs \<and> replay cx bs = Inr (db\<lparr>db_ready := None\<rparr>)"
  using assms
proof (induction rule: node.induct)
  case Start
  then show ?case by (simp add: empty_db_def)
next
  case (Connect bs db b db')
  then have "ConnectBlock cx (db\<lparr>db_ready := None\<rparr>) b = Inr (db'\<lparr>db_ready := None\<rparr>)"
    by (simp add: ready_ConnectBlock)
  then show ?case using Connect by simp
next
  case (Disconnect b bs db)
  let ?db = "db\<lparr>db_ready := None\<rparr>"
  obtain db0 where r: "replay cx bs = Inr db0" "ConnectBlock cx db0 b = Inr ?db" "new_block bs b" "valid_chain bs"
    using Disconnect.IH by (auto simp: rbind_Inr_iff)
  then have ok: "db_ok (cx_Hash160 cx) db0" "stored_ok bs db0" using replay_ok by auto
  have "DisconnectBlock cx ?db b = db0" using disconnect_after [OF ok(1) new_block_new [OF ok(2) r(3)] r(2)] .
  then have "(DisconnectBlock cx db b)\<lparr>db_ready := None\<rparr> = db0"
    unfolding DisconnectBlock_def using ready_disconnect [where db = db and x = None] by simp
  then show ?case using r by simp
next
  case (Query bs db)
  let ?db = "db\<lparr>db_ready := None\<rparr>"
  have "db_ok (cx_Hash160 cx) ?db" "stored_ok bs ?db" using replay_ok Query.IH by blast+
  then have "EnsureOwnerIndexReady (cx_Hash160 cx) db = db\<lparr>db_ready := Some True\<rparr>"
    by (intro ready_Ensure) (simp_all add: db_ok_def stored_ok_def owner_index_ok_def)
  then show ?case using Query.IH by simp
qed

lemma node_ok:
  assumes "node cx bs db"
  shows "db_ok (cx_Hash160 cx) db" "stored_ok bs (db\<lparr>db_ready := None\<rparr>)" "valid_chain bs"
proof -
  have r: "replay cx bs = Inr (db\<lparr>db_ready := None\<rparr>)" "valid_chain bs" using node_replay [OF assms] by simp_all
  have "db_ok (cx_Hash160 cx) (db\<lparr>db_ready := None\<rparr>)" using replay_ok [OF r(2,1)] by simp
  then show "db_ok (cx_Hash160 cx) db"
    by (simp add: db_ok_def records_ok_def owner_index_ok_def pricing_ok_def claims_ok_def bond_names_ok_def)
  show "stored_ok bs (db\<lparr>db_ready := None\<rparr>)" "valid_chain bs" using replay_ok [OF r(2,1)] r(2) by simp_all
qed

lemma node_new:
  assumes "node cx bs db" "new_block bs b"
  shows "block_new db b"
  using new_block_new [OF node_ok(2) [OF assms(1)] assms(2)]
  by (simp add: block_new_def block_fresh_def new_txid_def)

subsection \<open>What a run of a block keeps\<close>

lemma name_step_record:
  assumes "name_step cx h mult tx txundo x p (L (op_nickname x)) r" "ledger_inv db T L"
  obtains i where "r = Some i" "record_step (tx_hash tx) (op_nickname x) (L (op_nickname x)) i"
proof -
  have i: "info_nickname i = op_nickname x" "bondClaimed i \<longrightarrow> bondTxid i = 0" if "L (op_nickname x) = Some i" for i
    using assms(2) that by (simp_all add: ledger_inv_def)
  from assms(1) show thesis
    by (cases rule: name_step.cases)
      (rule that, simp, (use i in \<open>force simp: record_step_def bond_defs\<close>))+
qed

lemma tx_step_inv:
  assumes "tx_step cx db h mult (tx, txundo, fee) L L'" "db_ok H db" "ledger_inv db T L" "txid_ok db T (tx_hash tx)"
  shows "ledger_inv db (insert (tx_hash tx) T) L'"
proof (rule tx_stepE [OF assms(1)])
  assume "L' = L"
  then show ?thesis using assms(3) by (auto simp: ledger_inv_def)
next
  fix x required p r
  assume L': "L' = L(op_nickname x := r)" and "name_step cx h mult tx txundo x p (L (op_nickname x)) r"
  then obtain i where "r = Some i" "record_step (tx_hash tx) (op_nickname x) (L (op_nickname x)) i"
    using name_step_record [OF _ assms(3)] by metis
  then show ?thesis using ledger_step(1) [OF assms(2-4)] L' by simp
qed

text \<open>An invariant of ledgers that every step keeps holds after the block; each step is taken by a transaction of the block.\<close>

lemma block_run_induct:
  assumes "block_run cx db h mult es L L'" "db_ok H db" "ledger_inv db T L"
    and "distinct (map (tx_hash \<circ> fst) es)" "\<forall>e \<in> set es. txid_ok db T (tx_hash (fst e))"
    and "\<forall>t \<in> T. new_txid db t" "P [] L"
    and step: "\<And>past tx txundo fee rest L L' T. es = past @ (tx, txundo, fee) # rest \<Longrightarrow> ledger_inv db T L \<Longrightarrow>
      \<forall>t \<in> T. new_txid db t \<Longrightarrow> txid_ok db T (tx_hash tx) \<Longrightarrow> tx_step cx db h mult (tx, txundo, fee) L L' \<Longrightarrow> P past L \<Longrightarrow> P (past @ [(tx, txundo, fee)]) L'"
  shows "P es L'"
proof -
  have "P (pre @ es') L'"
    if "block_run cx db h mult es' L L'" "ledger_inv db T L" "\<forall>e \<in> set es'. txid_ok db T (tx_hash (fst e))"
      "\<forall>t \<in> T. new_txid db t" "es = pre @ es'" "P pre L" for es' pre L T
    using that
  proof (induction es' arbitrary: pre L T)
    case Nil
    then show ?case by simp
  next
    case (Cons e es')
    obtain tx txundo fee where e: "e = (tx, txundo, fee)" by (cases e) auto
    obtain L1 where r: "tx_step cx db h mult (tx, txundo, fee) L L1" "block_run cx db h mult es' L1 L'"
      using Cons.prems(1) by (auto simp: block_run_Cons e)
    have t: "txid_ok db T (tx_hash tx)" using Cons.prems(3) by (simp add: e)
    have "distinct (map (tx_hash \<circ> fst) (e # es'))" using assms(4) Cons.prems(5) by simp
    then have "\<forall>e \<in> set es'. txid_ok db (insert (tx_hash tx) T) (tx_hash (fst e))"
      using Cons.prems(3) by (force simp: e txid_ok_def)
    moreover have "ledger_inv db (insert (tx_hash tx) T) L1" using tx_step_inv [OF r(1) assms(2) Cons.prems(2) t] .
    moreover have "\<forall>t \<in> insert (tx_hash tx) T. new_txid db t" using Cons.prems(4) t by (simp add: txid_ok_def)
    moreover have "P (pre @ [e]) L1"
      using step [OF _ Cons.prems(2,4) t r(1) Cons.prems(6), of es'] Cons.prems(5) by (simp add: e)
    ultimately have "P ((pre @ [e]) @ es') L'" using Cons.IH [OF r(2), of _ "pre @ [e]"] Cons.prems(5) by simp
    then show ?case by simp
  qed
  from this [of es L T "[]"] show ?thesis using assms(1,3,5,6,7) by simp
qed

text \<open>The same for a block that is connected: the database before it has the ledger the run starts with.\<close>

lemma connect_run:
  assumes "db_ok (cx_Hash160 cx) db" "block_new db b" "ConnectBlock cx db b = Inr db'" "P [] (get_nick db)"
    and step: "\<And>past tx txundo fee rest L L' T. bk_entries b = past @ (tx, txundo, fee) # rest \<Longrightarrow>
      map fst (bk_entries b) = bk_vtx b \<Longrightarrow> ledger_inv db T L \<Longrightarrow> \<forall>t \<in> T. new_txid db t \<Longrightarrow> txid_ok db T (tx_hash tx) \<Longrightarrow>
      tx_step cx db (bk_height b) (fst (ReadPricingMultiplierPermille db)) (tx, txundo, fee) L L' \<Longrightarrow> P past L \<Longrightarrow>
      P (past @ [(tx, txundo, fee)]) L'"
  shows "map fst (bk_entries b) = bk_vtx b \<and> P (bk_entries b) (get_nick db')"
proof -
  obtain w where es: "map fst (bk_entries b) = bk_vtx b"
    and r: "block_run cx db (bk_height b) (fst (ReadPricingMultiplierPermille db)) (bk_entries b) (get_nick db) (get_nick db')"
    using ConnectE [OF assms(1-3)] by metis
  have "P (bk_entries b) (get_nick db')"
  proof (rule block_run_induct [OF r assms(1)])
    show "ledger_inv db {} (get_nick db)" using initial_work_ok [OF assms(1)] by (simp add: work_ok_def core_ok_def)
    have "map (tx_hash \<circ> fst) (bk_entries b) = map tx_hash (bk_vtx b)" using es by (metis map_map)
    then show "distinct (map (tx_hash \<circ> fst) (bk_entries b))" using assms(2) by (simp add: block_new_def)
    show "\<forall>e \<in> set (bk_entries b). txid_ok db {} (tx_hash (fst e))"
    proof
      fix e assume "e \<in> set (bk_entries b)"
      then have "fst e \<in> set (bk_vtx b)" using es by (metis image_eqI list.set_map)
      then show "txid_ok db {} (tx_hash (fst e))" using assms(2) by (simp add: block_new_def txid_ok_def)
    qed
  qed (use assms(4) step [OF _ es] in blast)+
  then show ?thesis using es by simp
qed

text \<open>Spending a bond makes the transaction one of the three operations of the name it belongs to.\<close>

lemma spends_bond:
  assumes "tx_step cx db h mult (tx, txundo, fee) L L'" "p \<in> spends tx" "bonded db L p n"
  obtains x r where "ExtractNicknameOperationFromTx cx tx = Inr (Some x)" "op_nickname x = n" "L' = L(n := r)"
    "name_step cx h mult tx txundo x (Some p) (L n) r"
proof -
  obtain txin where t: "txin \<in> set (vin tx)" "p = prevout txin" using assms(2) by (auto simp: spends_def)
  show thesis
  proof (rule tx_stepE [OF assms(1)])
    assume "\<forall>txin \<in> set (vin tx). \<forall>n. \<not> bonded db L (prevout txin) n"
    then show thesis using t assms(3) by blast
  next
    fix x required q r
    assume a: "L' = L(op_nickname x := r)" "ExtractNicknameOperationFromTx cx tx = Inr (Some x)"
      "spends_only db L tx (op_nickname x) q" "name_step cx h mult tx txundo x q (L (op_nickname x)) r"
    then have "op_nickname x = n" "q = Some p" using t assms(3) unfolding spends_only_def by blast+
    then show thesis using a that by simp
  qed
qed

lemma name_step_spends:
  "name_step cx h mult tx txundo x (Some p) r r' \<Longrightarrow> op_type x \<in> {TRANSFER, RENEW, CLAIM_BOND}"
  by (auto elim: name_step.cases)

definition guards :: "NicknameContext \<Rightarrow> CTransaction \<Rightarrow> string \<Rightarrow> bool" where
  "guards cx tx n \<longleftrightarrow>
     (\<exists>x. ExtractNicknameOperationFromTx cx tx = Inr (Some x) \<and> op_nickname x = n \<and>
        op_type x \<in> {TRANSFER, RENEW, CLAIM_BOND})"

lemma connect_guarded:
  assumes "db_ok (cx_Hash160 cx) db" "block_new db b" "ConnectBlock cx db b = Inr db'"
    and "tx \<in> set (bk_vtx b)" "p \<in> spends tx" "get_bond db p = Some n"
  shows "guards cx tx n"
proof -
  let ?P = "\<lambda>(past :: block_entry list) (L :: ledger). \<forall>tx \<in> fst ` set past. p \<in> spends tx \<longrightarrow> guards cx tx n"
  have "map fst (bk_entries b) = bk_vtx b \<and> ?P (bk_entries b) (get_nick db')"
  proof (rule connect_run [OF assms(1-3), where P = ?P], simp)
    fix past :: "block_entry list" and tx txundo fee rest L L' T
    assume a: "ledger_inv db T L" "\<forall>t \<in> T. new_txid db t" "?P past L"
      and s: "tx_step cx db (bk_height b) (fst (ReadPricingMultiplierPermille db)) (tx, txundo, fee) L L'"
    have bd: "bonded db L p n" using bonded_indexed [OF assms(1) a(1,2) assms(6)] .
    have "guards cx tx n" if sp: "p \<in> spends tx"
      using spends_bond [OF s sp bd] name_step_spends unfolding guards_def by metis
    then show "?P (past @ [(tx, txundo, fee)]) L'" using a(3) by auto
  qed
  then show ?thesis using assms(4,5) by (metis list.set_map)
qed

text \<open>A record in its active or grace period changes only by a transaction of its owner.\<close>

lemma name_step_protected:
  assumes "name_step cx h mult tx txundo x p (Some i) r" "IsMutableNicknameStatus (info_GetStatus i h)"
  shows "r = Some i \<or> authorized cx tx txundo (info_ownerPubKey i)"
  using assms by (cases rule: name_step.cases) (auto simp: may_register_def IsMutableNicknameStatus_def)

definition owner_acts :: "NicknameContext \<Rightarrow> byte list \<Rightarrow> string \<Rightarrow> block_entry \<Rightarrow> bool" where
  "owner_acts cx key n e \<longleftrightarrow>
     (case e of (tx, txundo, fee) \<Rightarrow> authorized cx tx txundo key \<and>
        (\<exists>x. ExtractNicknameOperationFromTx cx tx = Inr (Some x) \<and> op_nickname x = n))"

lemma connect_protected:
  assumes "db_ok (cx_Hash160 cx) db" "block_new db b" "ConnectBlock cx db b = Inr db'"
    and "get_nick db n = Some i" "IsMutableNicknameStatus (info_GetStatus i (bk_height b))"
  shows "get_nick db' n = Some i \<or> (\<exists>e \<in> set (bk_entries b). owner_acts cx (info_ownerPubKey i) n e)"
proof -
  let ?P = "\<lambda>past (L :: ledger). L n = Some i \<or> (\<exists>e \<in> set past. owner_acts cx (info_ownerPubKey i) n e)"
  have "map fst (bk_entries b) = bk_vtx b \<and> ?P (bk_entries b) (get_nick db')"
  proof (rule connect_run [OF assms(1-3), where P = ?P], simp add: assms(4))
    fix past tx txundo fee rest L L' T
    assume a: "?P past L"
      and s: "tx_step cx db (bk_height b) (fst (ReadPricingMultiplierPermille db)) (tx, txundo, fee) L L'"
    show "?P (past @ [(tx, txundo, fee)]) L'"
    proof (cases "L n = Some i")
      case False
      then show ?thesis using a by auto
    next
      case True
      have "L' n = Some i \<or> owner_acts cx (info_ownerPubKey i) n (tx, txundo, fee)"
      proof (rule tx_stepE [OF s])
        fix x required p r
        assume "L' = L(op_nickname x := r)" "ExtractNicknameOperationFromTx cx tx = Inr (Some x)"
          "name_step cx (bk_height b) (fst (ReadPricingMultiplierPermille db)) tx txundo x p (L (op_nickname x)) r"
        then show ?thesis using True name_step_protected [OF _ assms(5)]
          by (cases "op_nickname x = n") (auto simp: owner_acts_def)
      qed (simp add: True)
      then show ?thesis by auto
    qed
  qed
  then show ?thesis by simp
qed

subsection \<open>Bonds are locked\<close>

text \<open>The output that backs a record: the recorded amount, to the key of the owner.\<close>

definition bond_paid :: "CTransaction \<Rightarrow> NicknameInfo \<Rightarrow> bool" where
  "bond_paid tx i \<longleftrightarrow>
     bondTxid i = tx_hash tx \<and>
     (\<exists>k < length (vout tx). bondVout i = word_of_nat k \<and> nValue (vout tx ! k) = info_bondAmount i \<and>
        scriptPubKey (vout tx ! k) = GetScriptForRawPubKey (CPubKey (info_ownerPubKey i)))"

definition bond_locked :: "CTransaction set \<Rightarrow> NicknameInfo \<Rightarrow> bool" where
  "bond_locked X i \<longleftrightarrow>
     (HasBondOutpoint i \<longrightarrow> (\<exists>tx \<in> X. bond_paid tx i) \<and> (\<forall>tx \<in> X. GetBondOutpoint i \<notin> spends tx))"

lemma locks_bond_paid:
  assumes "locks_bond tx key amount v" "bondTxid i = tx_hash tx" "bondVout i = v" "info_bondAmount i = amount"
    "info_ownerPubKey i = key"
  shows "bond_paid tx i"
  using assms unfolding bond_paid_def locks_bond_def by (auto elim!: FindUniqueBondOutput_Inr)

lemma locked_new:
  assumes "bond_paid tx i" "\<And>tx' q. tx' \<in> insert tx X \<Longrightarrow> q \<in> spends tx' \<Longrightarrow> out_hash q \<noteq> tx_hash tx"
  shows "bond_locked (insert tx X) i"
proof -
  have "out_hash (GetBondOutpoint i) = tx_hash tx" if "HasBondOutpoint i" using that assms(1) by (simp add: GetBondOutpoint_def bond_paid_def)
  then show ?thesis using assms unfolding bond_locked_def by blast
qed

lemma locked_keep:
  assumes "bond_locked X i" "HasBondOutpoint j \<Longrightarrow> holds_bond (Some i) (GetBondOutpoint j)"
    and "bondTxid j = bondTxid i" "bondVout j = bondVout i" "info_bondAmount j = info_bondAmount i"
      "info_ownerPubKey j = info_ownerPubKey i"
    and "\<And>p. holds_bond (Some i) p \<Longrightarrow> p \<notin> spends tx"
  shows "bond_locked (insert tx X) j"
  using assms unfolding bond_locked_def holds_bond_def bond_paid_def by auto

lemma name_step_locked:
  assumes "name_step cx h mult tx txundo x p r r'" "r' = Some j" "\<And>i. r = Some i \<Longrightarrow> bond_locked X i"
    and "\<And>i. r = Some i \<Longrightarrow> bondClaimed i \<Longrightarrow> bondTxid i = 0"
    and new: "\<And>tx' q. tx' \<in> insert tx X \<Longrightarrow> q \<in> spends tx' \<Longrightarrow> out_hash q \<noteq> tx_hash tx"
    and old: "\<And>i q. r = Some i \<Longrightarrow> holds_bond (Some i) q \<Longrightarrow> q \<in> spends tx \<Longrightarrow> p = Some q"
  shows "bond_locked (insert tx X) j"
  using assms(1)
proof (cases rule: name_step.cases)
  case (Register amount v activeUntil)
  then have "bond_paid tx j" using assms(2) by (intro locks_bond_paid [of _ "ownerPubKey x" amount v]) auto
  then show ?thesis using new by (rule locked_new)
next
  case (Update i)
  then show ?thesis using assms(2) assms(3) [of i] old [of i] by (intro locked_keep [of X i]) (auto simp: bond_defs)
next
  case (Transfer i q v)
  then have "bond_paid tx j" using assms(2) by (intro locks_bond_paid [of _ "newOwnerPubKey x" "info_bondAmount i" v]) auto
  then show ?thesis using new by (rule locked_new)
next
  case (Renew i q amount v activeUntil)
  then have "bond_paid tx j" using assms(2) by (intro locks_bond_paid [of _ "info_ownerPubKey i" amount v]) auto
  then show ?thesis using new by (rule locked_new)
next
  case (Release i)
  then show ?thesis using assms(2) assms(3) [of i] assms(4) [of i] old [of i] by (intro locked_keep [of X i]) (auto simp: bond_defs)
next
  case (Claim i q)
  then show ?thesis using assms(2) by (auto simp: bond_locked_def HasBondOutpoint_def)
next
  case (Claim_former i q)
  then show ?thesis using assms(2) assms(3) [of i] old [of i] by (intro locked_keep [of X i]) (auto simp: holds_bond_def)
qed

lemma tx_step_locked:
  assumes step: "tx_step cx db h mult (tx, txundo, fee) L L'" and led: "ledger_inv db T L"
    and L: "\<And>n i. L n = Some i \<Longrightarrow> bond_locked X i"
    and new: "\<And>tx' q. tx' \<in> insert tx X \<Longrightarrow> q \<in> spends tx' \<Longrightarrow> out_hash q \<noteq> tx_hash tx"
    and "L' n = Some j"
  shows "bond_locked (insert tx X) j"
proof -
  have keep: "bond_locked (insert tx X) j" if "L n = Some j" "\<And>q. holds_bond (Some j) q \<Longrightarrow> q \<notin> spends tx"
    using locked_keep [OF L [OF that(1)], of j tx] that(2) by (simp add: holds_bond_def)
  show ?thesis
  proof (rule tx_stepE [OF step])
    assume a: "L' = L" "\<forall>txin \<in> set (vin tx). \<forall>n. \<not> bonded db L (prevout txin) n"
    have "\<not> holds_bond (L n) q" if "q \<in> spends tx" for q using a(2) that by (auto simp: spends_def bonded_def)
    then show ?thesis using assms(5) a(1) by (intro keep) auto
  next
    fix x required p r
    assume a: "L' = L(op_nickname x := r)" "ExtractNicknameOperationFromTx cx tx = Inr (Some x)"
      "spends_only db L tx (op_nickname x) p" "name_step cx h mult tx txundo x p (L (op_nickname x)) r"
    have old: "m = op_nickname x \<and> p = Some q" if "holds_bond (L m) q" "q \<in> spends tx" for m q
      using a(3) that unfolding spends_only_def spends_def bonded_def by blast
    show ?thesis
    proof (cases "n = op_nickname x")
      case True
      then have r: "r = Some j" using a(1) assms(5) by simp
      show ?thesis
      proof (rule name_step_locked [OF a(4) r])
        show "bond_locked X i" if "L (op_nickname x) = Some i" for i using that by (rule L)
        show "bondTxid i = 0" if "L (op_nickname x) = Some i" "bondClaimed i" for i
          using led that by (simp add: ledger_inv_def)
        show "p = Some q" if "L (op_nickname x) = Some i" "holds_bond (Some i) q" "q \<in> spends tx" for i q
          using old [of "op_nickname x" q] that by simp
      qed (rule new)
    next
      case False
      then have "L n = Some j" using a(1) assms(5) by simp
      moreover have "\<not> holds_bond (L n) q" if "q \<in> spends tx" for q using old [of n q] that False by blast
      ultimately show ?thesis by (intro keep) auto
    qed
  qed
qed

definition chain_txs :: "NicknameBlock list \<Rightarrow> CTransaction set" where
  "chain_txs bs = (\<Union>b \<in> set bs. set (bk_vtx b))"

lemma block_order:
  assumes "new_block bs b" "map fst (bk_entries b) = bk_vtx b" "bk_entries b = past @ (tx, txundo, fee) # rest"
    and "tx' \<in> insert tx (chain_txs bs \<union> fst ` set past)" "q \<in> spends tx'"
  shows "out_hash q \<noteq> tx_hash tx"
proof -
  have v: "bk_vtx b = map fst past @ tx # map fst rest" using assms(2,3) by simp
  then have t: "tx \<in> set (bk_vtx b)" by simp
  consider "tx' \<in> chain_txs bs" | i where "i \<le> length past" "tx' = bk_vtx b ! i"
  proof (cases "tx' \<in> set (map fst past)")
    case True
    then obtain i where "i < length past" "tx' = bk_vtx b ! i" by (auto simp: in_set_conv_nth v nth_append)
    then show thesis using that(2) [of i] by simp
  next
    case False
    then have "tx' \<in> chain_txs bs \<or> tx' = bk_vtx b ! length past" using assms(4) by (auto simp: v nth_append)
    then show thesis using that by auto
  qed
  then show ?thesis
  proof cases
    case 1
    then show ?thesis using assms(1,5) t unfolding new_block_def chain_txs_def by fastforce
  next
    case (2 i)
    then have "i < length (bk_vtx b)" "tx \<in> set (drop i (bk_vtx b))" by (simp_all add: v)
    then show ?thesis using assms(1,5) 2(2) unfolding new_block_def by fastforce
  qed
qed

lemma replay_locked:
  assumes "valid_chain bs" "replay cx bs = Inr db" "get_nick db n = Some i"
  shows "bond_locked (chain_txs bs) i"
  using assms
proof (induction bs arbitrary: db n i)
  case Nil
  then show ?case by (auto simp: empty_db_def)
next
  case (Cons b bs)
  then obtain db0 where c: "replay cx bs = Inr db0" "ConnectBlock cx db0 b = Inr db" "new_block bs b" "valid_chain bs"
    by (auto simp: rbind_Inr_iff)
  then have ok: "db_ok (cx_Hash160 cx) db0" "stored_ok bs db0" using replay_ok by auto
  let ?P = "\<lambda>(past :: block_entry list) (L :: ledger). \<forall>n i. L n = Some i \<longrightarrow> bond_locked (chain_txs bs \<union> fst ` set past) i"
  have "map fst (bk_entries b) = bk_vtx b \<and> ?P (bk_entries b) (get_nick db)"
  proof (rule connect_run [OF ok(1) new_block_new [OF ok(2) c(3)] c(2), where P = ?P])
    show "?P [] (get_nick db0)" using Cons.IH [OF c(4,1)] by simp
  next
    fix past :: "block_entry list" and tx txundo fee rest L L' T
    assume a: "bk_entries b = past @ (tx, txundo, fee) # rest" "map fst (bk_entries b) = bk_vtx b" "ledger_inv db0 T L" "?P past L"
      and s: "tx_step cx db0 (bk_height b) (fst (ReadPricingMultiplierPermille db0)) (tx, txundo, fee) L L'"
    have "bond_locked (insert tx (chain_txs bs \<union> fst ` set past)) j" if "L' m = Some j" for m j
    proof (rule tx_step_locked [OF s a(3)])
      show "bond_locked (chain_txs bs \<union> fst ` set past) i" if "L n = Some i" for n i using a(4) that by blast
      show "out_hash q \<noteq> tx_hash tx" if "tx' \<in> insert tx (chain_txs bs \<union> fst ` set past)" "q \<in> spends tx'" for tx' q
        using that by (rule block_order [OF c(3) a(2,1)])
    qed (rule that)
    then show "?P (past @ [(tx, txundo, fee)]) L'" by simp
  qed
  moreover have "chain_txs (b # bs) = chain_txs bs \<union> set (bk_vtx b)" by (auto simp: chain_txs_def)
  ultimately show ?case using Cons.prems(3) by (metis list.set_map)
qed

end
