(* ===== verification/Nickname_Node.thy ===== *)
theory Nickname_Node
  imports Nickname_Chain
begin

text \<open>
  What holds of every node that follows the nickname rules: the properties of \<^verbatim>\<open>BuildNicknameBlockUpdates\<close>,
  \<^verbatim>\<open>ConnectBlock\<close> and \<^verbatim>\<open>DisconnectBlock\<close> over whole chains, with a chain of two blocks as their example.
\<close>

text \<open>The context a block comes with: undo data for all transactions but the first, and a fee for each.\<close>

definition context_ok :: "NicknameBlock \<Rightarrow> bool" where
  "context_ok b \<longleftrightarrow>
     (bk_vtx b \<noteq> [] \<longrightarrow> length (vtxundo (bk_undo b)) + 1 = length (bk_vtx b)) \<and> length (bk_fees b) = length (bk_vtx b)"

lemma Connect_total:
  assumes "db_ok (cx_Hash160 cx) db" "block_new db b" "context_ok b"
    and "block_run cx db (bk_height b) (fst (ReadPricingMultiplierPermille db)) (bk_entries b) (get_nick db) L"
  shows "\<exists>db'. ConnectBlock cx db b = Inr db' \<and> get_nick db' = L"
proof -
  let ?m = "fst (ReadPricingMultiplierPermille db)"
  note i = initial_work_ok [OF assms(1), of "bk_height b"]
  have es: "map fst (bk_entries b) = bk_vtx b"
    using assms(3) by (cases "bk_vtx b = []") (simp_all add: context_ok_def bk_entries_def block_entries_def zip_fst)
  have hs: "map (tx_hash \<circ> fst) (bk_entries b) = map tx_hash (bk_vtx b)" using es by (metis map_map)
  have "fst e \<in> set (bk_vtx b)" if "e \<in> set (bk_entries b)" for e using that es by (metis image_eqI list.set_map)
  then have t: "\<forall>e \<in> set (bk_entries b). txid_ok db {} (tx_hash (fst e))"
    using assms(2) by (simp add: txid_ok_def block_new_def)
  have d: "distinct (map (tx_hash \<circ> fst) (bk_entries b))" using hs assms(2) by (simp add: block_new_def)
  obtain w where w: "block_txs cx db (bk_height b) ?m (bk_entries b) (initial_work (bk_height b)) = Inr w" "record_of db w = L"
    using block_txs_total [OF i(1) d t, of cx ?m L] assms(4) i(2) by auto
  have "work_ok (cx_Hash160 cx) db ({} \<union> (tx_hash \<circ> fst) ` set (bk_entries b)) (bk_height b) w"
    using block_txs_ok [OF i(1) d t w(1)] by blast
  then have "get_nick (connect_nicknames (cx_Hash160 cx) db (bk_hash b) (collect_updates (block_states w) (bw_updates w))) = L"
    using connect_records assms(2) w(2) by (fastforce simp: block_new_def)
  moreover have "BuildNicknameBlockUpdates cx db (bk_vtx b) (bk_undo b) (bk_fees b) (bk_height b) =
      Inr (collect_updates (block_states w) (bw_updates w))"
    using w(1) assms(3)
    by (auto simp: BuildNicknameBlockUpdates_def Let_def context_ok_def bk_entries_def [symmetric])
  ultimately show ?thesis by (simp add: ConnectBlock_def)
qed

subsection \<open>An example\<close>

text \<open>Alice registers a name in the first block and transfers it to Bob in the second.\<close>

definition example_context :: NicknameContext where
  "example_context = \<lparr>cx_Hash = (\<lambda>_. 0), cx_prefixes = main_prefixes, cx_Hash160 = (\<lambda>_. 0), cx_SHA256 = (\<lambda>_. 0),
     cx_pubkey_parse = (\<lambda>_. True), cx_options = \<lparr>opt_activeblocks = None, opt_graceblocks = None\<rparr>\<rparr>"

definition alice_key :: "byte list" where "alice_key = replicate 33 2"
definition bob_key :: "byte list" where "bob_key = 3 # replicate 32 2"

definition example_transfer :: NicknameOperation where
  "example_transfer = \<lparr>op_type = TRANSFER, op_nickname = ''alice_7'', ownerPubKey = [], payoutAddress = [],
     newOwnerPubKey = bob_key\<rparr>"

definition example_tx :: "uint256 \<Rightarrow> COutPoint \<Rightarrow> CTxOut list \<Rightarrow> CTransaction" where
  "example_tx h p outs = \<lparr>tx_nVersion = 1,
     vin = [\<lparr>prevout = p, scriptSig = [], nSequence = 0, scriptWitness = []\<rparr>],
     vout = outs, nLockTime = 0, tx_hash = h\<rparr>"

definition op_tx :: "uint256 \<Rightarrow> COutPoint \<Rightarrow> NicknameOperation \<Rightarrow> byte list \<Rightarrow> CTransaction" where
  "op_tx h p x key = example_tx h p
     [\<lparr>nValue = 0, scriptPubKey = push_data (push_opcode [] OP_RETURN) (op_payload (\<lambda>_. 0) main_prefixes x)\<rparr>,
      \<lparr>nValue = bondAmount (GetPricing 7 1000), scriptPubKey = GetScriptForRawPubKey key\<rparr>]"

definition example_bk :: "uint256 \<Rightarrow> int \<Rightarrow> CTransaction \<Rightarrow> NicknameBlock" where
  "example_bk h ht tx = \<lparr>bk_hash = h, bk_height = ht, bk_vtx = [example_tx h null_outpoint [], tx],
     bk_undo = \<lparr>vtxundo = [\<lparr>vprevout = [\<lparr>txout = \<lparr>nValue = 1, scriptPubKey = GetScriptForRawPubKey alice_key\<rparr>,
        undo_fCoinBase = False, undo_nHeight = 0, undo_nVersion = 1\<rparr>]\<rparr>]\<rparr>,
     bk_fees = [0, 100 * COIN]\<rparr>"

definition first_block :: NicknameBlock where
  "first_block = example_bk 21 1 (op_tx 7 (COutPoint 5 0) example_register alice_key)"

definition second_block :: NicknameBlock where
  "second_block = example_bk 22 2 (op_tx 8 (COutPoint 7 1) example_transfer bob_key)"

lemma example_transfer_sendable: "sendable (\<lambda>_. 0) main_prefixes example_transfer"
proof -
  have "valid_nickname ''alice_7''" by code_simp
  then show ?thesis
    by (simp add: sendable_def example_transfer_def pays_def bob_key_def COMPRESSED_SIZE_def)
qed

lemma example_keys: "CPubKey alice_key = alice_key" "CPubKey bob_key = bob_key" "length alice_key = COMPRESSED_SIZE"
    "length bob_key = COMPRESSED_SIZE" "pubkey_usable example_context alice_key" "pubkey_usable example_context bob_key"
    "ownerPubKey (received (\<lambda>_. 0) main_prefixes example_register) = alice_key"
proof -
  show k: "CPubKey alice_key = alice_key" "CPubKey bob_key = bob_key" "length alice_key = COMPRESSED_SIZE"
    "length bob_key = COMPRESSED_SIZE"
    by (simp_all add: alice_key_def bob_key_def CPubKey_compressed COMPRESSED_SIZE_def numeral_eq_Suc)
  then show "pubkey_usable example_context alice_key" "pubkey_usable example_context bob_key"
    by (simp_all add: pubkey_usable_def PubKey_IsFullyValid_def PubKey_IsValid_def PubKey_IsCompressed_def
        example_context_def COMPRESSED_SIZE_def)
  show "ownerPubKey (received (\<lambda>_. 0) main_prefixes example_register) = alice_key"
    by (simp add: received_def example_register_def alice_key_def)
qed

lemma op_tx_extract:
  assumes "sendable (\<lambda>_. 0) main_prefixes x" "length key = COMPRESSED_SIZE"
  shows "ExtractNicknameOperationFromTx example_context (op_tx h p x key) = Inr (Some (received (\<lambda>_. 0) main_prefixes x))"
  using Parse_built [of example_context x] Parse_P2PK [OF assms(2)] assms(1)
  by (simp add: ExtractNicknameOperationFromTx_def op_tx_def example_tx_def example_context_def)

lemma op_tx_locks:
  "CPubKey key' = key \<Longrightarrow> locks_bond (op_tx h p x key) key' (bondAmount (GetPricing 7 1000)) 1"
  using GetPricing_range(3) [of 7 1000]
  by (simp add: locks_bond_def FindUniqueBondOutput_eq bond_matches_def op_tx_def example_tx_def upt_rec)

lemma example_bk_entries:
  "bk_entries (example_bk h ht tx) =
     [(example_tx h null_outpoint [], None, 0), (tx, Some (vtxundo (bk_undo (example_bk h ht tx)) ! 0), 100 * COIN)]"
  "context_ok (example_bk h ht tx)"
  by (simp_all add: bk_entries_def block_entries_def example_bk_def context_ok_def)

lemma example_authorized:
  "authorized example_context (op_tx t p x key) (Some (vtxundo (bk_undo (example_bk h ht tx)) ! 0)) alice_key"
  using example_keys
  by (simp add: authorized_def owner_spends_def undo_scripts_def owner_scripts_def Let_def example_bk_def op_tx_def example_tx_def)

lemma coinbase_step:
  "\<not> (\<exists>n. bonded db L null_outpoint n) \<Longrightarrow>
   tx_step example_context db h mult (example_tx t null_outpoint [], u, fee) L L"
  by (rule tx_step.Plain) (simp_all add: ExtractNicknameOperationFromTx_def example_tx_def)

text \<open>A block with one operation, of which the step is given.\<close>

lemma example_connect:
  assumes "db_ok (cx_Hash160 example_context) db" "block_new db (example_bk h ht (op_tx t p x key))"
    and "fst (ReadPricingMultiplierPermille db) = 1000" "p \<noteq> null_outpoint"
    and "sendable (\<lambda>_. 0) main_prefixes x" "length key = COMPRESSED_SIZE" "y = received (\<lambda>_. 0) main_prefixes x"
    and "\<not> (\<exists>n. bonded db (get_nick db) null_outpoint n)" "spends_only db (get_nick db) (op_tx t p x key) (op_nickname y) q"
    and "name_step example_context ht 1000 (op_tx t p x key) (Some (vtxundo (bk_undo (example_bk h ht (op_tx t p x key))) ! 0))
      y q (get_nick db (op_nickname y)) r"
  shows "\<exists>db'. ConnectBlock example_context db (example_bk h ht (op_tx t p x key)) = Inr db' \<and>
    get_nick db' = (get_nick db)(op_nickname y := r)"
proof (rule Connect_total [OF assms(1,2) example_bk_entries(2)])
  have e: "ExtractNicknameOperationFromTx example_context (op_tx t p x key) = Inr (Some y)"
    using op_tx_extract [OF assms(5,6)] assms(7) by simp
  have "operation_ok y" using ExtractFromTx_ok [OF e] .
  then obtain required where f: "GetRequiredNicknameFee y 1000 = Some required" "required \<le> 100 * COIN"
    using GetPricing_range(2) [of "length (op_nickname y)" 1000]
    by (auto simp: operation_ok_def GetRequiredNicknameFee_def COIN_def)
  have n: "\<not> IsCoinBase (op_tx t p x key)"
    using assms(4) by (cases p) (auto simp: IsCoinBase_def op_tx_def example_tx_def OutPoint_IsNull_def null_outpoint_def)
  have "bk_height (example_bk h ht (op_tx t p x key)) = ht" by (simp add: example_bk_def)
  then show "block_run example_context db (bk_height (example_bk h ht (op_tx t p x key))) (fst (ReadPricingMultiplierPermille db))
      (bk_entries (example_bk h ht (op_tx t p x key))) (get_nick db) ((get_nick db)(op_nickname y := r))"
    unfolding example_bk_entries block_run_Cons block_run_Nil assms(3)
    using coinbase_step [OF assms(8)] tx_step.Operation [OF e n f assms(9,10)] by metis
qed

definition alice_record :: NicknameInfo where
  "alice_record =
     \<lparr>info_nickname = ''alice_7'', info_ownerPubKey = alice_key,
      info_payoutAddress = payoutAddress (received (\<lambda>_. 0) main_prefixes example_register), registrationHeight = 1,
      activeUntilHeight = 1 + ActiveBlocks (cx_options example_context),
      graceUntilHeight = 1 + ActiveBlocks (cx_options example_context) + GraceBlocks (cx_options example_context),
      info_bondAmount = bondAmount (GetPricing 7 1000), bondTxid = 7, bondVout = 1, lastUpdateTxid = 7,
      released = False, bondClaimed = False\<rparr>"

lemma alice_bond: "HasBondOutpoint alice_record" "GetBondOutpoint alice_record = COutPoint 7 1"
    "holds_bond (Some alice_record) b \<longleftrightarrow> b = COutPoint 7 1"
    "info_GetStatus alice_record 2 = ACTIVE"
proof -
  show h: "HasBondOutpoint alice_record" "GetBondOutpoint alice_record = COutPoint 7 1"
    by (simp_all add: HasBondOutpoint_def GetBondOutpoint_def alice_record_def)
  then show "holds_bond (Some alice_record) b \<longleftrightarrow> b = COutPoint 7 1" by (auto simp: holds_bond_def)
  show "info_GetStatus alice_record 2 = ACTIVE"
    by (simp add: info_GetStatus_def GetStatus_def alice_record_def ActiveBlocks_def ACTIVE_BLOCKS_def example_context_def)
qed

lemma example_new: "new_block [] first_block" "new_block [first_block] second_block"
  by (simp_all add: new_block_def first_block_def second_block_def example_bk_def op_tx_def example_tx_def spends_def
      chain_txids_def null_outpoint_def less_Suc_eq)

lemma example_names:
  "op_nickname (received (\<lambda>_. 0) main_prefixes example_register) = ''alice_7''"
  "op_nickname (received (\<lambda>_. 0) main_prefixes example_transfer) = ''alice_7''"
  "op_type (received (\<lambda>_. 0) main_prefixes example_register) = REGISTER"
  "op_type (received (\<lambda>_. 0) main_prefixes example_transfer) = TRANSFER"
  "newOwnerPubKey (received (\<lambda>_. 0) main_prefixes example_transfer) = bob_key"
proof -
  have "valid_nickname ''alice_7''" by code_simp
  then show "op_nickname (received (\<lambda>_. 0) main_prefixes example_register) = ''alice_7''"
    "op_nickname (received (\<lambda>_. 0) main_prefixes example_transfer) = ''alice_7''"
    by (simp_all add: received_def example_register_def example_transfer_def)
qed (simp_all add: received_def example_register_def example_transfer_def)

lemma example_len: "length (op_nickname (received (\<lambda>_. 0) main_prefixes example_register)) = 7"
  by (simp add: example_names)

lemma op_tx_hash: "tx_hash (op_tx h p x key) = h"
  by (simp add: op_tx_def example_tx_def)

lemma example_multiplier: "fst (ReadPricingMultiplierPermille empty_db) = 1000"
  by (simp add: ReadPricingMultiplierPermille_def ReadNicknamePricingState_def empty_db_def empty_pricing_state_def
      DEFAULT_PRICING_MULTIPLIER_PERMILLE_def)

lemma first_connect:
  "\<exists>db1. ConnectBlock example_context empty_db first_block = Inr db1 \<and> get_nick db1 = (\<lambda>_. None)(''alice_7'' := Some alice_record)"
proof -
  let ?y = "received (\<lambda>_. 0) main_prefixes example_register"
  let ?tx = "op_tx 7 (COutPoint 5 0) example_register alice_key"
  have none: "get_nick empty_db = (\<lambda>_. None)" "get_bond empty_db b = None" for b by (auto simp: empty_db_def)
  have nb: "\<not> bonded empty_db (get_nick empty_db) b n" for b n by (simp add: bonded_def none holds_bond_def)
  have "name_step example_context 1 1000 ?tx (Some (vtxundo (bk_undo (example_bk 21 1 ?tx)) ! 0)) ?y None
      (get_nick empty_db (op_nickname ?y)) (Some alice_record)"
  proof -
    have rec: "alice_record = \<lparr>info_nickname = op_nickname ?y, info_ownerPubKey = ownerPubKey ?y,
       info_payoutAddress = payoutAddress ?y, registrationHeight = 1,
       activeUntilHeight = 1 + ActiveBlocks (cx_options example_context),
       graceUntilHeight = 1 + ActiveBlocks (cx_options example_context) + GraceBlocks (cx_options example_context),
       info_bondAmount = bondAmount (GetPricing 7 1000), bondTxid = tx_hash ?tx, bondVout = 1,
       lastUpdateTxid = tx_hash ?tx, released = False, bondClaimed = False\<rparr>"
      by (simp add: alice_record_def example_names example_keys(7) op_tx_hash)
    show ?thesis unfolding rec using example_len example_names(1,3) example_keys(1,7) example_authorized op_tx_locks
      by (intro name_step.Register) (simp_all only: none may_register_def option.case refl)
  qed
  moreover have "spends_only empty_db (get_nick empty_db) ?tx (op_nickname ?y) None" using nb by (simp add: spends_only_def)
  moreover have "block_new empty_db first_block" using new_block_new [OF empty_db_ok(2) example_new(1)] .
  ultimately show ?thesis
    using example_connect [OF empty_db_ok(1) _ example_multiplier _ example_register_sendable example_keys(3) refl,
        of 21 1 7 "COutPoint 5 0" None "Some alice_record"] nb
    by (simp add: first_block_def example_names none null_outpoint_def)
qed

lemma first_multiplier:
  assumes "ConnectBlock example_context empty_db first_block = Inr db1"
  shows "fst (ReadPricingMultiplierPermille db1) = 1000"
proof -
  obtain w where w: "db1 = after_block (cx_Hash160 example_context) empty_db (bk_hash first_block) w"
      "work_ok (cx_Hash160 example_context) empty_db (tx_hash ` set (bk_vtx first_block)) (bk_height first_block) w"
    using ConnectE [OF empty_db_ok(1) new_block_new [OF empty_db_ok(2) example_new(1)] assms] .
  have h: "up_blockHeight (collect_updates (block_states w) (bw_updates w)) = 1"
    using w(2) by (simp add: work_ok_def updates_ok_def collect_updates_def Let_def first_block_def example_bk_def)
  have e: "fst (ReadNicknamePricingState empty_db) = empty_pricing_state" by (simp add: ReadNicknamePricingState_def empty_db_def)
  have "multiplierPermille (fst (ReadNicknamePricingState db1)) = 1000"
    unfolding w(1) after_block_def connect_pricing h e
    by (simp add: ComputeNextPricingState_def Let_def empty_pricing_state_def nickname_constants ClampPricingMultiplierPermille_def)
  then show ?thesis by (simp add: ReadPricingMultiplierPermille_def split_def)
qed

definition bob_record :: NicknameInfo where
  "bob_record = alice_record\<lparr>info_ownerPubKey := bob_key, bondTxid := 8, bondVout := 1, bondClaimed := False, lastUpdateTxid := 8\<rparr>"

lemma second_connect:
  assumes "ConnectBlock example_context empty_db first_block = Inr db1"
    and L: "get_nick db1 = (\<lambda>_. None)(''alice_7'' := Some alice_record)"
  shows "\<exists>db2. ConnectBlock example_context db1 second_block = Inr db2 \<and> get_nick db2 ''alice_7'' = Some bob_record"
proof -
  let ?y = "received (\<lambda>_. 0) main_prefixes example_transfer"
  let ?tx = "op_tx 8 (COutPoint 7 1) example_transfer bob_key"
  have node: "node example_context [first_block] db1" using node.Connect [OF node.Start example_new(1) assms(1)] .
  have holds: "holds_bond (get_nick db1 n) b \<longleftrightarrow> n = ''alice_7'' \<and> b = COutPoint 7 1" for n b
    unfolding L by (cases "n = ''alice_7''") (simp_all add: alice_bond, simp add: holds_bond_def)
  have "out_hash null_outpoint \<notin> chain_txids [first_block]"
    by (simp add: chain_txids_def first_block_def example_bk_def op_tx_def example_tx_def null_outpoint_def)
  then have "get_bond db1 null_outpoint = None" using node_ok(2) [OF node] by (simp add: stored_ok_def)
  then have nb: "\<not> (\<exists>n. bonded db1 (get_nick db1) null_outpoint n)" by (simp add: bonded_def holds null_outpoint_def)
  have "bonded db1 (get_nick db1) (COutPoint 7 1) n \<longleftrightarrow> n = ''alice_7''" for n by (auto simp: bonded_def holds)
  then have only: "spends_only db1 (get_nick db1) ?tx (op_nickname ?y) (Some (COutPoint 7 1))"
    by (simp add: spends_only_def example_names op_tx_def example_tx_def)
  have "name_step example_context 2 1000 ?tx (Some (vtxundo (bk_undo (example_bk 22 2 ?tx)) ! 0)) ?y (Some (COutPoint 7 1))
      (Some alice_record) (Some bob_record)"
  proof -
    have rec: "bob_record = alice_record\<lparr>info_ownerPubKey := newOwnerPubKey ?y, bondTxid := tx_hash ?tx, bondVout := 1,
        bondClaimed := False, lastUpdateTxid := tx_hash ?tx\<rparr>"
      by (simp add: bob_record_def example_names op_tx_hash)
    have a: "info_ownerPubKey alice_record = alice_key" "info_bondAmount alice_record = bondAmount (GetPricing 7 1000)"
      by (simp_all add: alice_record_def)
    show ?thesis unfolding rec
      by (rule name_step.Transfer)
        (simp_all add: example_names(4,5) IsMutableNicknameStatus_def alice_bond a example_authorized example_keys op_tx_locks)
  qed
  then show ?thesis
    using example_connect [OF node_ok(1) [OF node] _ first_multiplier [OF assms(1)] _ example_transfer_sendable example_keys(4)
        refl nb only, of 22 2 "Some bob_record"] node_new [OF node example_new(2)] L
    by (auto simp: second_block_def example_names null_outpoint_def)
qed

lemma example_run:
  obtains db1 db2 where "node example_context [first_block] db1" "ConnectBlock example_context db1 second_block = Inr db2"
    "get_nick db1 ''alice_7'' = Some alice_record" "get_nick db2 ''alice_7'' = Some bob_record"
    "node example_context [second_block, first_block] db2" "get_bond db1 (COutPoint 7 1) = Some ''alice_7''"
proof -
  obtain db1 where 1: "ConnectBlock example_context empty_db first_block = Inr db1"
      "get_nick db1 = (\<lambda>_. None)(''alice_7'' := Some alice_record)"
    using first_connect by blast
  obtain db2 where 2: "ConnectBlock example_context db1 second_block = Inr db2" "get_nick db2 ''alice_7'' = Some bob_record"
    using second_connect [OF 1] by blast
  have n: "node example_context [first_block] db1" using node.Connect [OF node.Start example_new(1) 1(1)] .
  have "get_bond db1 (COutPoint 7 1) = Some ''alice_7''"
    by (rule db_bond_name [OF node_ok(1) [OF n]]) (simp add: 1(2) alice_bond)
  then show thesis using that 1 2 n node.Connect [OF n example_new(2) 2(1)] by simp
qed

subsection \<open>Properties\<close>

text \<open>C1. The nickname database of a node is a function of its active chain: however the node got there, by
  connecting blocks, disconnecting them again and listing names in between, its database is the one that
  connecting the blocks of the chain in order to an empty database gives, but for the mark of the owner index.\<close>

theorem database_follows_chain:
  assumes "node cx bs db"
  shows "replay cx bs = Inr (db\<lparr>db_ready := None\<rparr>)"
  using node_replay [OF assms] by simp

theorem database_follows_chain_witness:
  "\<exists>db2. node example_context [second_block, first_block] db2 \<and>
     replay example_context [first_block] = Inr ((DisconnectBlock example_context db2 second_block)\<lparr>db_ready := None\<rparr>)"
proof -
  obtain db1 db2 where n: "node example_context [second_block, first_block] db2" using example_run .
  show ?thesis using n database_follows_chain [OF node.Disconnect [OF n]] by blast
qed

text \<open>C2. The rules accept exactly what the ledger of names allows. For a block that extends the chain of a node, with undo
  data and fees for its transactions, connecting succeeds with the records \<open>L\<close> if and only if the
  transactions are, one after the other, steps of the ledger that lead from the records before to \<open>L\<close>: each
  pays its fee, spends no bond but that of its own name, and makes one of the seven moves of a name.\<close>

theorem nickname_rules_exact:
  assumes "node cx bs db" "new_block bs b" "context_ok b"
  shows "(\<exists>db'. ConnectBlock cx db b = Inr db' \<and> get_nick db' = L) \<longleftrightarrow>
    block_run cx db (bk_height b) (fst (ReadPricingMultiplierPermille db)) (bk_entries b) (get_nick db) L"
proof
  note ok = node_ok(1) [OF assms(1)] node_new [OF assms(1,2)]
  show "block_run cx db (bk_height b) (fst (ReadPricingMultiplierPermille db)) (bk_entries b) (get_nick db) L"
    if "\<exists>db'. ConnectBlock cx db b = Inr db' \<and> get_nick db' = L"
    using that ConnectE [OF ok] by metis
  show "\<exists>db'. ConnectBlock cx db b = Inr db' \<and> get_nick db' = L"
    if "block_run cx db (bk_height b) (fst (ReadPricingMultiplierPermille db)) (bk_entries b) (get_nick db) L"
    using Connect_total [OF ok assms(3) that] .
qed

theorem nickname_rules_exact_witness:
  "\<exists>db1 L. node example_context [first_block] db1 \<and> L ''alice_7'' = Some bob_record \<and>
     block_run example_context db1 2 (fst (ReadPricingMultiplierPermille db1)) (bk_entries second_block) (get_nick db1) L"
proof -
  obtain db1 db2 where e: "node example_context [first_block] db1" "ConnectBlock example_context db1 second_block = Inr db2"
    "get_nick db2 ''alice_7'' = Some bob_record" using example_run .
  have "context_ok second_block" "bk_height second_block = 2"
    using example_bk_entries(2) by (simp_all add: second_block_def) (simp add: example_bk_def)
  then show ?thesis using nickname_rules_exact [OF e(1) example_new(2), of "get_nick db2"] e by auto
qed

text \<open>C5. A name in its active or grace period belongs to its owner: if a block changes its record, a transaction of the
  block carries an operation on the name and spends an output of the key that owned it before the block.\<close>

theorem name_owner_protected:
  assumes "node cx bs db" "new_block bs b" "ConnectBlock cx db b = Inr db'"
    and "get_nick db n = Some i" "info_GetStatus i (bk_height b) \<in> {ACTIVE, EXPIRED_GRACE}" "get_nick db' n \<noteq> Some i"
  shows "\<exists>(tx, txundo, fee) \<in> set (bk_entries b). \<exists>x undo.
    ExtractNicknameOperationFromTx cx tx = Inr (Some x) \<and> op_nickname x = n \<and> txundo = Some undo \<and>
    (\<exists>u \<in> set (vprevout undo). scriptPubKey (txout u) \<in> set (owner_scripts cx (info_ownerPubKey i)))"
proof -
  have "IsMutableNicknameStatus (info_GetStatus i (bk_height b))" using assms(5) by (auto simp: IsMutableNicknameStatus_def)
  then obtain tx txundo fee where e: "(tx, txundo, fee) \<in> set (bk_entries b)" "owner_acts cx (info_ownerPubKey i) n (tx, txundo, fee)"
    using connect_protected [OF node_ok(1) [OF assms(1)] node_new [OF assms(1,2)] assms(3,4)] assms(6) by auto
  then obtain x undo where "ExtractNicknameOperationFromTx cx tx = Inr (Some x)" "op_nickname x = n" "txundo = Some undo"
      "\<exists>u \<in> set (vprevout undo). scriptPubKey (txout u) \<in> set (owner_scripts cx (info_ownerPubKey i))"
    unfolding owner_acts_def authorized_def owner_spends_def undo_scripts_def by auto
  then show ?thesis using e(1) by blast
qed

theorem name_owner_protected_witness:
  "\<exists>(tx, txundo, fee) \<in> set (bk_entries second_block). \<exists>x undo.
    ExtractNicknameOperationFromTx example_context tx = Inr (Some x) \<and> op_nickname x = ''alice_7'' \<and> txundo = Some undo \<and>
    (\<exists>u \<in> set (vprevout undo). scriptPubKey (txout u) \<in> set (owner_scripts example_context alice_key))"
proof -
  obtain db1 db2 where e: "node example_context [first_block] db1" "ConnectBlock example_context db1 second_block = Inr db2"
    "get_nick db1 ''alice_7'' = Some alice_record" "get_nick db2 ''alice_7'' = Some bob_record" using example_run .
  have "bk_height second_block = 2" "alice_record \<noteq> bob_record" "info_ownerPubKey alice_record = alice_key"
    by (simp_all add: second_block_def example_bk_def bob_record_def alice_record_def)
  then show ?thesis using name_owner_protected [OF e(1) example_new(2) e(2,3)] e(4) alice_bond(4) by simp
qed

text \<open>C6. Bonds are locked: the bond that a record holds is an output of a transaction of the active chain that pays the
  recorded amount to the key of the owner, and no transaction of the chain has spent it.\<close>

theorem bonds_stay_locked:
  assumes "node cx bs db" "get_nick db n = Some i" "HasBondOutpoint i"
  shows "(\<exists>b \<in> set bs. \<exists>tx \<in> set (bk_vtx b). \<exists>k < length (vout tx).
      GetBondOutpoint i = COutPoint (tx_hash tx) (word_of_nat k) \<and> nValue (vout tx ! k) = info_bondAmount i \<and>
      scriptPubKey (vout tx ! k) = GetScriptForRawPubKey (CPubKey (info_ownerPubKey i))) \<and>
    \<not> (\<exists>b \<in> set bs. \<exists>tx \<in> set (bk_vtx b). GetBondOutpoint i \<in> prevout ` set (vin tx))"
proof -
  have "bond_locked (chain_txs bs) i"
    using replay_locked [of bs cx "db\<lparr>db_ready := None\<rparr>" n i] node_replay [OF assms(1)] assms(2) by simp
  then have l: "\<exists>tx \<in> chain_txs bs. bond_paid tx i" "\<forall>tx \<in> chain_txs bs. GetBondOutpoint i \<notin> spends tx"
    using assms(3) by (simp_all add: bond_locked_def)
  have "GetBondOutpoint i = COutPoint (bondTxid i) (bondVout i)" using assms(3) by (simp add: GetBondOutpoint_def)
  then have "\<exists>b \<in> set bs. \<exists>tx \<in> set (bk_vtx b). \<exists>k < length (vout tx).
      GetBondOutpoint i = COutPoint (tx_hash tx) (word_of_nat k) \<and> nValue (vout tx ! k) = info_bondAmount i \<and>
      scriptPubKey (vout tx ! k) = GetScriptForRawPubKey (CPubKey (info_ownerPubKey i))"
    using l(1) unfolding chain_txs_def bond_paid_def by fastforce
  then show ?thesis using l(2) unfolding chain_txs_def spends_def by blast
qed

theorem bonds_stay_locked_witness:
  "\<not> (\<exists>b \<in> {second_block, first_block}. \<exists>tx \<in> set (bk_vtx b). COutPoint 8 1 \<in> prevout ` set (vin tx)) \<and>
   (\<exists>b \<in> {second_block, first_block}. \<exists>tx \<in> set (bk_vtx b). tx_hash tx = 8 \<and> length (vout tx) = 2)"
proof -
  obtain db1 db2 where e: "node example_context [second_block, first_block] db2" "get_nick db2 ''alice_7'' = Some bob_record"
    using example_run .
  have "HasBondOutpoint bob_record" "GetBondOutpoint bob_record = COutPoint 8 1"
    by (simp_all add: HasBondOutpoint_def GetBondOutpoint_def bob_record_def)
  then have "\<not> (\<exists>b \<in> {second_block, first_block}. \<exists>tx \<in> set (bk_vtx b). COutPoint 8 1 \<in> prevout ` set (vin tx))"
    using bonds_stay_locked [OF e] by simp
  then show ?thesis by (simp add: second_block_def example_bk_def op_tx_def example_tx_def)
qed

text \<open>Only an operation of its own name can spend a bond: if a transaction of a connected block has an input that the bond
  index of the database knows, for a name it holds or for one it backed before, the transaction carries a
  transfer, renewal or claim of exactly that name.\<close>

theorem bond_spend_guarded:
  assumes "node cx bs db" "new_block bs b" "ConnectBlock cx db b = Inr db'"
    and "tx \<in> set (bk_vtx b)" "txin \<in> set (vin tx)" "ReadNicknameByBondOutpoint db (prevout txin) = Some n"
  shows "\<exists>x. ExtractNicknameOperationFromTx cx tx = Inr (Some x) \<and> op_nickname x = n \<and>
    op_type x \<in> {TRANSFER, RENEW, CLAIM_BOND}"
proof -
  have "prevout txin \<in> spends tx" "get_bond db (prevout txin) = Some n"
    using assms(5,6) by (simp_all add: spends_def ReadNicknameByBondOutpoint_def)
  then show ?thesis
    using connect_guarded [OF node_ok(1) [OF assms(1)] node_new [OF assms(1,2)] assms(3,4)] by (simp add: guards_def)
qed

theorem bond_spend_guarded_witness:
  "\<exists>x. ExtractNicknameOperationFromTx example_context (op_tx 8 (COutPoint 7 1) example_transfer bob_key) = Inr (Some x) \<and>
     op_nickname x = ''alice_7'' \<and> op_type x \<in> {TRANSFER, RENEW, CLAIM_BOND}"
proof -
  obtain db1 db2 where e: "node example_context [first_block] db1" "ConnectBlock example_context db1 second_block = Inr db2"
    "get_bond db1 (COutPoint 7 1) = Some ''alice_7''" using example_run .
  let ?tx = "op_tx 8 (COutPoint 7 1) example_transfer bob_key"
  have "?tx \<in> set (bk_vtx second_block)" "hd (vin ?tx) \<in> set (vin ?tx)" "prevout (hd (vin ?tx)) = COutPoint 7 1"
    by (simp_all add: second_block_def example_bk_def op_tx_def example_tx_def)
  then show ?thesis
    using bond_spend_guarded [OF e(1) example_new(2) e(2), of ?tx "hd (vin ?tx)" "''alice_7''"] e(3)
    by (simp add: ReadNicknameByBondOutpoint_def)
qed

text \<open>C20. In every database a node can have, the indices are exact: the owner index has an entry for each record under the
  hash of its key and no others, the bond index leads from the bond of a record to its name and to existing names only,
  and once a block is connected the running number of registrations is the sum over the heights of the window.\<close>

theorem node_indices_exact:
  assumes "node cx (b # bs) db"
  shows "(get_owner db (k, n) = Some True \<longleftrightarrow>
      (\<exists>i. get_nick db n = Some i \<and> TryGetOwnerKeyID (cx_Hash160 cx) i = Some k)) \<and>
    ((\<exists>i. get_nick db n = Some i \<and> HasBondOutpoint i \<and> GetBondOutpoint i = p) \<longrightarrow> get_bond db p = Some n) \<and>
    (get_bond db p = Some n \<longrightarrow> get_nick db n \<noteq> None) \<and>
    rollingRegistrations (fst (ReadNicknamePricingState db)) = RebuildRollingRegistrations db (int (length (b # bs)))"
proof -
  have ok: "db_ok (cx_Hash160 cx) db" using node_ok(1) [OF assms] .
  have "get_owner db (k, n) = Some True \<longleftrightarrow> (\<exists>i. get_nick db n = Some i \<and> TryGetOwnerKeyID (cx_Hash160 cx) i = Some k)"
    using ok by (auto simp: db_ok_def owner_index_ok_def owner_entry_def split: option.splits)
  moreover have "rollingRegistrations (fst (ReadNicknamePricingState db)) = RebuildRollingRegistrations db (int (length (b # bs)))"
    using replay_ok [of "b # bs" cx "db\<lparr>db_ready := None\<rparr>"] node_replay [OF assms] by (simp add: RebuildRollingRegistrations_def)
  ultimately show ?thesis using ok by (auto simp: db_ok_def records_ok_def bond_names_ok_def)
qed

theorem node_indices_exact_witness:
  "\<exists>db2. node example_context [second_block, first_block] db2 \<and> get_owner db2 (0, ''alice_7'') = Some True \<and>
     get_bond db2 (COutPoint 8 1) = Some ''alice_7'' \<and>
     rollingRegistrations (fst (ReadNicknamePricingState db2)) = RebuildRollingRegistrations db2 2"
proof -
  obtain db1 db2 where e: "node example_context [second_block, first_block] db2" "get_nick db2 ''alice_7'' = Some bob_record"
    using example_run .
  have "HasBondOutpoint bob_record" "GetBondOutpoint bob_record = COutPoint 8 1"
    "TryGetOwnerKeyID (cx_Hash160 example_context) bob_record = Some 0"
    using example_keys(4)
    by (simp_all add: HasBondOutpoint_def GetBondOutpoint_def bob_record_def TryGetOwnerKeyID_def example_context_def)
  then show ?thesis using node_indices_exact [OF e(1), of 0 "''alice_7''" "COutPoint 8 1"] e by auto
qed

end
