(* ===== verification/Kubu_Hex.thy ===== *)
theory Kubu_Hex
  imports Kubu_Money Kubu_Tx
begin

text \<open>
  Hexadecimal and decimal text: \<^verbatim>\<open>src/src/utilstrencodings.cpp\<close>, \<^verbatim>\<open>HexStr\<close> of \<^verbatim>\<open>utilstrencodings.h\<close>, and the text of a
  hash in \<^verbatim>\<open>src/src/uint256.cpp\<close>. A C string ends at its first zero character, which is not a digit.
\<close>

subsection \<open>Bytes\<close>

definition HexDigit :: "char \<Rightarrow> int" where
  "HexDigit c =
     (let n = int (char_code c) in
      if 48 \<le> n \<and> n \<le> 57 then n - 48
      else if 65 \<le> n \<and> n \<le> 70 then n - 55
      else if 97 \<le> n \<and> n \<le> 102 then n - 87
      else - 1)"

definition IsHex :: "string \<Rightarrow> bool" where
  "IsHex str \<longleftrightarrow> \<not> (length str \<le> 0 \<or> length str mod 2 \<noteq> 0) \<and> list_all (\<lambda>c. \<not> HexDigit c < 0) str"

function ParseHex :: "string \<Rightarrow> byte list" where
  "ParseHex psz =
     (case dropWhile isspace psz of
        a # b # rest \<Rightarrow>
          if HexDigit a = - 1 \<or> HexDigit b = - 1 then []
          else word_of_int (16 * HexDigit a + HexDigit b) # ParseHex rest
      | _ \<Rightarrow> [])"
  by pat_completeness auto
termination
proof (relation "measure length")
  fix psz :: string and a x b rest
  assume "dropWhile isspace psz = a # x" "x = b # rest"
  then have "Suc (Suc (length rest)) = length (dropWhile isspace psz)" by simp
  then show "(rest, psz) \<in> measure length" using length_dropWhile_le [of isspace psz] by simp
qed simp

declare ParseHex.simps [simp del]

definition hex_digit :: "nat \<Rightarrow> char" where
  "hex_digit d = (if d < 10 then char_of (48 + d) else char_of (87 + d))"

definition HexStr :: "byte list \<Rightarrow> string" where
  "HexStr vch = concat (map (\<lambda>val. [hex_digit (unat val div 16), hex_digit (unat val mod 16)]) vch)"

subsection \<open>Hashes\<close>

text \<open>\<^verbatim>\<open>uint256::ToString\<close>: the bytes from the last to the first, as hexadecimal digits.\<close>

definition GetHex :: "uint256 \<Rightarrow> string" where
  "GetHex h = concat (map (\<lambda>b. [hex_digit (unat b div 16), hex_digit (unat b mod 16)]) (rev (blob_bytes h)))"

text \<open>The loop of \<^verbatim>\<open>SetHex\<close> over the digits from the last to the first; \<^verbatim>\<open>data\<close> was cleared before.\<close>

fun set_bytes :: "nat \<Rightarrow> int list \<Rightarrow> byte list" where
  "set_bytes 0 digits = []"
| "set_bytes (Suc n) [] = replicate (Suc n) 0"
| "set_bytes (Suc n) [d] = word_of_int d # replicate n 0"
| "set_bytes (Suc n) (d # e # digits) = word_of_int (d + 16 * e) # set_bytes n digits"

definition uint256S :: "string \<Rightarrow> uint256" where
  "uint256S str =
     (let psz = dropWhile isspace str;
          psz = (case psz of
              a # b # rest \<Rightarrow> if a = CHR ''0'' \<and> tolower b = CHR ''x'' then rest else psz
            | _ \<Rightarrow> psz);
          digits = takeWhile (\<lambda>c. HexDigit c \<noteq> - 1) psz
      in word_of_nat (le_value (set_bytes 32 (rev (map HexDigit digits)))))"

subsection \<open>Integers\<close>

definition ParsePrechecks :: "string \<Rightarrow> bool" where
  "ParsePrechecks str \<longleftrightarrow>
     str \<noteq> [] \<and> \<not> (isspace (hd str) \<or> isspace (last str)) \<and> list_all (\<lambda>c. char_code c \<noteq> 0) str"

text \<open>\<^verbatim>\<open>strtol\<close> in base ten, where it reads the whole string: an optional sign and digits.\<close>

definition signed_digits :: "string \<Rightarrow> int option" where
  "signed_digits str =
     (let (neg, ds) = (case str of
            [] \<Rightarrow> (False, [])
          | c # cs \<Rightarrow>
              if c = CHR ''-'' then (True, cs) else if c = CHR ''+'' then (False, cs) else (False, str))
      in if ds = [] \<or> \<not> list_all isdigit ds then None
         else Some (if neg then - atoi64 ds else atoi64 ds))"

definition ParseInt32 :: "string \<Rightarrow> int option" where
  "ParseInt32 str =
     (if \<not> ParsePrechecks str then None
      else case signed_digits str of
          None \<Rightarrow> None
        | Some n \<Rightarrow> if n \<ge> - (2 ^ 31) \<and> n \<le> 2 ^ 31 - 1 then Some n else None)"

definition ParseUInt32 :: "string \<Rightarrow> 32 word option" where
  "ParseUInt32 str =
     (if \<not> ParsePrechecks str then None
      else if length str \<ge> 1 \<and> hd str = CHR ''-'' then None
      else case signed_digits str of
          None \<Rightarrow> None
        | Some n \<Rightarrow> if n \<le> 2 ^ 32 - 1 then Some (word_of_int n) else None)"

subsection \<open>Round trips\<close>

lemma HexDigit_hex_digit [simp]:
  assumes "d < 16"
  shows "HexDigit (hex_digit d) = int d" "\<not> isspace (hex_digit d)"
  using assms by (auto simp: hex_digit_def HexDigit_def Let_def isspace_def)

lemma HexDigit_upper: "- 1 \<le> HexDigit c" "HexDigit c < 16"
  by (auto simp: HexDigit_def Let_def)

lemma byte_digits [simp]: "16 * int (unat (b :: byte) div 16) + int (unat b mod 16) = int (unat b)"
  by (metis mult_div_mod_eq of_nat_add of_nat_mult of_nat_numeral)

lemma word_digits [simp]: "word_of_nat (n mod 16) + 16 * word_of_nat (n div 16) = (word_of_nat n :: byte)"
  by (metis mod_mult_div_eq of_nat_add of_nat_mult of_nat_numeral)

lemma half_byte [simp]: "unat (b :: byte) div 16 < 16" "unat (b :: byte) mod 16 < 16"
  using unat_byte_less [of b] by (simp_all add: less_mult_imp_div_less)

lemma HexStr_simps [simp]:
  "HexStr [] = []" "HexStr (b # bs) = hex_digit (unat b div 16) # hex_digit (unat b mod 16) # HexStr bs"
  by (simp_all add: HexStr_def)

lemma HexStr_append: "HexStr (a @ b) = HexStr a @ HexStr b"
  by (simp add: HexStr_def)

lemma length_HexStr [simp]: "length (HexStr bs) = 2 * length bs"
  by (induction bs) simp_all

lemma ParseHex_HexStr [simp]: "ParseHex (HexStr bs) = bs"
  by (induction bs; subst ParseHex.simps) simp_all

lemma HexStr_digits: "list_all (\<lambda>c. 0 \<le> HexDigit c) (HexStr bs)"
  by (induction bs) simp_all

lemma IsHex_HexStr [simp]: "IsHex (HexStr bs) \<longleftrightarrow> bs \<noteq> []"
  using HexStr_digits [of bs] by (simp add: IsHex_def not_less)

lemma GetHex_eq: "GetHex h = HexStr (rev (blob_bytes h))"
  by (simp add: GetHex_def HexStr_def)

lemma length_GetHex [simp]: "length (GetHex h) = 64"
  by (simp add: GetHex_eq blob_bytes_def del: le_write.simps)

lemma set_bytes_HexStr: "set_bytes (length bs) (rev (map HexDigit (HexStr (rev bs)))) = bs"
  by (induction bs) (simp_all add: HexStr_append add.commute)

lemma hex_no_prefix: "HexDigit c \<noteq> - 1 \<Longrightarrow> tolower c \<noteq> CHR ''x'' \<and> \<not> isspace c"
proof -
  assume c: "HexDigit c \<noteq> - 1"
  then have "char_code (tolower c) \<noteq> 120" by (auto simp: HexDigit_def Let_def tolower_def isupper_def split: if_splits)
  moreover have "char_code (CHR ''x'') = 120" by (simp add: char_code_def)
  ultimately show ?thesis using c by (auto simp: HexDigit_def Let_def isspace_def split: if_splits)
qed

lemma uint256S_GetHex [simp]: "uint256S (GetHex h) = h"
proof -
  let ?s = "GetHex h"
  have d: "HexDigit c \<noteq> - 1" if "c \<in> set ?s" for c
    using HexStr_digits [of "rev (blob_bytes h)"] that by (force simp: GetHex_eq list_all_iff)
  obtain a b rest where s: "?s = a # b # rest"
    using length_GetHex [of h] by (cases ?s; cases "tl ?s") simp_all
  have w: "dropWhile isspace ?s = ?s" "tolower b \<noteq> CHR ''x''" using d hex_no_prefix by (auto simp: s)
  have p: "(case ?s of a # b # rest \<Rightarrow> if a = CHR ''0'' \<and> tolower b = CHR ''x'' then rest else ?s | _ \<Rightarrow> ?s) = ?s"
    using w(2) by (simp add: s)
  have t: "takeWhile (\<lambda>c. HexDigit c \<noteq> - 1) ?s = ?s" using d by (simp add: takeWhile_eq_all_conv)
  have l: "length (blob_bytes h) = 32" by (simp add: blob_bytes_def del: le_write.simps)
  have "set_bytes 32 (rev (map HexDigit ?s)) = blob_bytes h"
    using set_bytes_HexStr [of "blob_bytes h"] by (simp only: GetHex_eq l)
  moreover have "le_value (blob_bytes h) = unat h"
  proof -
    have "unat h < 256 ^ 32" using unsigned_less [of h, where 'a = nat] by simp
    then show ?thesis by (simp add: blob_bytes_def del: le_write.simps)
  qed
  ultimately show ?thesis
    unfolding uint256S_def Let_def w(1) p t by simp
qed

lemma digits_plain: "list_all isdigit s \<Longrightarrow> list_all (\<lambda>c. char_code c \<noteq> 0 \<and> \<not> isspace c \<and> c \<noteq> CHR ''-'' \<and> c \<noteq> CHR ''+'' \<and> c \<noteq> CHR '':'') s"
  by (auto simp: list_all_iff isdigit_def isspace_def char_code_def)

lemma ParseUInt32_decimal [simp]: "ParseUInt32 (decimal (unat (n :: 32 word))) = Some n"
proof -
  let ?s = "decimal (unat n)"
  have s: "list_all isdigit ?s" "?s \<noteq> []" "atoi64 ?s = int (unat n)" using decimal_text [of "unat n"] by auto
  obtain c cs where c: "?s = c # cs" using s(2) by (cases ?s) auto
  have p: "ParsePrechecks ?s" "c \<noteq> CHR ''-''" "c \<noteq> CHR ''+''"
    using digits_plain [OF s(1)] s(2) by (auto simp: ParsePrechecks_def list_all_iff c)
  have "signed_digits ?s = Some (int (unat n))" using s p by (simp add: signed_digits_def c)
  moreover have "int (unat n) \<le> 2 ^ 32 - 1" using unsigned_less [of n, where 'a = int] by simp
  ultimately show ?thesis using p by (simp add: ParseUInt32_def c)
qed

end
