(* ===== verification/Nickname_Mempool.thy ===== *)
theory Nickname_Mempool
  imports Nickname_Node Kubu_Hex
begin

text \<open>
  The nickname rules for transactions that enter the mempool: \<^verbatim>\<open>CheckNicknameOperationForMempool\<close> of
  \<^verbatim>\<open>src/src/validation.cpp\<close>. The coins view and the transactions of the mempool, in the order of their index, are
  arguments.
\<close>

subsection \<open>The check\<close>

fun spent_in_mempool :: "NicknameStateDB \<Rightarrow> CTxIn list \<Rightarrow> spent_bonds \<Rightarrow> spent_bonds result" where
  "spent_in_mempool db [] spent = Inr spent"
| "spent_in_mempool db (txin # ins) spent =
     (case ReadNicknameByBondOutpoint db (prevout txin) of
        None \<Rightarrow> spent_in_mempool db ins spent
      | Some nickname \<Rightarrow>
          rbind (emplace_spent nickname (prevout txin) spent) (spent_in_mempool db ins))"

text \<open>The scan for a pending operation on the same name that does not share an input.\<close>

fun check_pending :: "NicknameContext \<Rightarrow> CTransaction \<Rightarrow> NicknameOperation \<Rightarrow> CTransaction list \<Rightarrow> unit result" where
  "check_pending cx tx operation [] = Inr ()"
| "check_pending cx tx operation (mempoolTx # rest) =
     (if tx_hash mempoolTx = tx_hash tx then check_pending cx tx operation rest
      else case ExtractNicknameOperationFromTx cx mempoolTx of
          Inl _ \<Rightarrow> check_pending cx tx operation rest
        | Inr None \<Rightarrow> check_pending cx tx operation rest
        | Inr (Some mempoolOperation) \<Rightarrow>
            let conflictsByInput =
              list_ex (\<lambda>mempoolIn. prevout mempoolIn \<in> prevout ` set (vin tx)) (vin mempoolTx) in
            if op_nickname mempoolOperation = op_nickname operation then
              if conflictsByInput then check_pending cx tx operation rest
              else Inl (''mempool already has pending nickname operation for '' @ [CHR 0x27] @
                op_nickname operation @ [CHR 0x27] @ '' ('' @ GetHex (tx_hash mempoolTx) @ '')'')
            else check_pending cx tx operation rest)"

definition check_register ::
  "NicknameContext \<Rightarrow> coins_view \<Rightarrow> int \<Rightarrow> CTransaction \<Rightarrow> NicknameOperation \<Rightarrow> spent_bonds \<Rightarrow>
   NicknameInfo option \<Rightarrow> Status \<Rightarrow> unit result" where
  "check_register cx view mult tx operation spent current status =
     rbind (require (spent = []) ''register transaction cannot spend nickname bond outpoint'') (\<lambda>_.
     rbind (TxHasOwnerAuthorizationInputFromView cx tx view (ownerPubKey operation)) (\<lambda>_.
     rbind (require (\<not> (current \<noteq> None \<and> status \<noteq> EXPIRED_AVAILABLE \<and> status \<noteq> RELEASED \<and> status \<noteq> BOND_CLAIMABLE))
       ''nickname is not available for registration'') (\<lambda>_.
     let pricing = GetPricing (length (op_nickname operation)) mult in
     rbind (require (pubkey_usable cx (ownerPubKey operation)) ''register owner pubkey is invalid'') (\<lambda>_.
     rbind (FindUniqueBondOutput tx (GetScriptForRawPubKey (CPubKey (ownerPubKey operation))) (bondAmount pricing)) (\<lambda>_.
       Inr ())))))"

definition check_owned ::
  "NicknameContext \<Rightarrow> coins_view \<Rightarrow> CTransaction \<Rightarrow> spent_bonds \<Rightarrow> NicknameInfo option \<Rightarrow> Status \<Rightarrow>
   reason \<Rightarrow> reason \<Rightarrow> unit result" where
  "check_owned cx view tx spent current status spendReason statusReason =
     rbind (require (spent = []) spendReason) (\<lambda>_.
     rbind (require (current \<noteq> None) ''nickname does not exist'') (\<lambda>_.
     rbind (require (IsMutableNicknameStatus status) statusReason) (\<lambda>_.
       TxHasOwnerAuthorizationInputFromView cx tx view (info_ownerPubKey (the current)))))"

text \<open>The cases of an update and of a release are the same but for their messages.\<close>

definition check_update ::
  "NicknameContext \<Rightarrow> coins_view \<Rightarrow> CTransaction \<Rightarrow> spent_bonds \<Rightarrow> NicknameInfo option \<Rightarrow> Status \<Rightarrow> unit result" where
  "check_update cx view tx spent current status =
     check_owned cx view tx spent current status ''update transaction cannot spend nickname bond outpoint''
       ''nickname is not mutable in current status''"

definition check_release ::
  "NicknameContext \<Rightarrow> coins_view \<Rightarrow> CTransaction \<Rightarrow> spent_bonds \<Rightarrow> NicknameInfo option \<Rightarrow> Status \<Rightarrow> unit result" where
  "check_release cx view tx spent current status =
     check_owned cx view tx spent current status ''release transaction cannot spend nickname bond outpoint''
       ''nickname is not releasable in current status''"

definition check_transfer ::
  "NicknameContext \<Rightarrow> coins_view \<Rightarrow> CTransaction \<Rightarrow> NicknameOperation \<Rightarrow> spent_bonds \<Rightarrow>
   NicknameInfo option \<Rightarrow> Status \<Rightarrow> unit result" where
  "check_transfer cx view tx operation spent current status =
     (let info = the current in
      rbind (require (spends_one operation spent)
        ''transfer transaction must spend current nickname bond outpoint'') (\<lambda>_.
      rbind (require (current \<noteq> None) ''nickname does not exist'') (\<lambda>_.
      rbind (require (IsMutableNicknameStatus status) ''nickname is not mutable in current status'') (\<lambda>_.
      rbind (TxHasOwnerAuthorizationInputFromView cx tx view (info_ownerPubKey info)) (\<lambda>_.
      rbind (require (HasBondOutpoint info) ''nickname does not have an active bond outpoint'') (\<lambda>_.
      rbind (require (map_of spent (op_nickname operation) = Some (GetBondOutpoint info))
        ''transfer transaction must spend the indexed nickname bond outpoint'') (\<lambda>_.
      rbind (require (pubkey_usable cx (newOwnerPubKey operation)) ''transfer new owner pubkey is invalid'') (\<lambda>_.
      rbind (FindUniqueBondOutput tx (GetScriptForRawPubKey (CPubKey (newOwnerPubKey operation)))
        (info_bondAmount info)) (\<lambda>_. Inr ())))))))))"

definition check_renew ::
  "NicknameContext \<Rightarrow> coins_view \<Rightarrow> int \<Rightarrow> CTransaction \<Rightarrow> NicknameOperation \<Rightarrow> spent_bonds \<Rightarrow>
   NicknameInfo option \<Rightarrow> Status \<Rightarrow> unit result" where
  "check_renew cx view mult tx operation spent current status =
     (let info = the current in
      rbind (require (spends_one operation spent)
        ''renew transaction must spend current nickname bond outpoint'') (\<lambda>_.
      rbind (require (current \<noteq> None) ''nickname does not exist'') (\<lambda>_.
      rbind (require (IsMutableNicknameStatus status) ''nickname is not renewable in current status'') (\<lambda>_.
      rbind (TxHasOwnerAuthorizationInputFromView cx tx view (info_ownerPubKey info)) (\<lambda>_.
      rbind (require (HasBondOutpoint info) ''nickname does not have an active bond outpoint'') (\<lambda>_.
      rbind (require (map_of spent (op_nickname operation) = Some (GetBondOutpoint info))
        ''renew transaction must spend the indexed nickname bond outpoint'') (\<lambda>_.
      rbind (require (pubkey_usable cx (info_ownerPubKey info)) ''renew owner pubkey is invalid'') (\<lambda>_.
      let renewalBondIncrease = GetRenewalBondIncrease (length (op_nickname operation)) mult in
      rbind (require (\<not> (renewalBondIncrease < 0 \<or> info_bondAmount info > MAX_MONEY - renewalBondIncrease))
        ''renew bond amount overflow'') (\<lambda>_.
      let renewedBondAmount = info_bondAmount info + renewalBondIncrease in
      rbind (FindUniqueBondOutput tx (GetScriptForRawPubKey (CPubKey (info_ownerPubKey info))) renewedBondAmount) (\<lambda>_.
        Inr ()))))))))))"

definition check_claim ::
  "NicknameContext \<Rightarrow> coins_view \<Rightarrow> CTransaction \<Rightarrow> NicknameOperation \<Rightarrow> spent_bonds \<Rightarrow>
   NicknameInfo option \<Rightarrow> Status \<Rightarrow> unit result" where
  "check_claim cx view tx operation spent current status =
     rbind (require (spends_one operation spent)
       ''claim transaction must spend current nickname bond outpoint'') (\<lambda>_.
     if current \<noteq> None \<and> HasBondOutpoint (the current) \<and>
        map_of spent (op_nickname operation) = Some (GetBondOutpoint (the current)) then
       rbind (require (status = BOND_CLAIMABLE) ''nickname bond is not claimable'') (\<lambda>_.
         TxHasOwnerAuthorizationInputFromView cx tx view (info_ownerPubKey (the current)))
     else Inr ())"

definition CheckNicknameOperationForMempool ::
  "NicknameContext \<Rightarrow> NicknameStateDB option \<Rightarrow> CTransaction list \<Rightarrow> CTransaction \<Rightarrow> coins_view \<Rightarrow> int \<Rightarrow> CAmount \<Rightarrow>
   unit result" where
  "CheckNicknameOperationForMempool cx nicknameDB mempool tx view spendHeight txFee =
     (case nicknameDB of
        None \<Rightarrow> Inr ()
      | Some db \<Rightarrow>
          let mult = fst (ReadPricingMultiplierPermille db) in
          rbind (ExtractNicknameOperationFromTx cx tx) (\<lambda>found.
          rbind (spent_in_mempool db (vin tx) []) (\<lambda>spent.
            case found of
              None \<Rightarrow>
                require (spent = [])
                  ''nickname bond outpoint may only be spent by transfer, renew, or claim transaction''
            | Some operation \<Rightarrow>
                rbind (require (\<not> IsCoinBase tx) ''coinbase transaction cannot contain nickname operations'') (\<lambda>_.
                rbind (require_fee operation mult txFee) (\<lambda>_.
                rbind (check_pending cx tx operation mempool) (\<lambda>_.
                let current = ReadNickname db (op_nickname operation);
                    status = (case current of None \<Rightarrow> EXPIRED_AVAILABLE
                      | Some info \<Rightarrow> info_GetStatus info spendHeight) in
                rbind (require_own_bond operation spent) (\<lambda>_.
                  case op_type operation of
                    REGISTER \<Rightarrow> check_register cx view mult tx operation spent current status
                  | UPDATE \<Rightarrow> check_update cx view tx spent current status
                  | TRANSFER \<Rightarrow> check_transfer cx view tx operation spent current status
                  | RENEW \<Rightarrow> check_renew cx view mult tx operation spent current status
                  | RELEASE \<Rightarrow> check_release cx view tx spent current status
                  | CLAIM_BOND \<Rightarrow> check_claim cx view tx operation spent current status
                  | NONE \<Rightarrow> Inl ''invalid nickname operation type''
                  | UNNAMED b \<Rightarrow> Inl ''invalid nickname operation type'')))))))"

subsection \<open>The mempool and the blocks\<close>

text \<open>
  Two verdicts agree if both accept, or both reject for the same reason; a claim that spends no bond is
  rejected with slightly different words.
\<close>

fun agrees :: "'a result \<Rightarrow> 'b result \<Rightarrow> bool" where
  "agrees (Inr _) (Inr _) \<longleftrightarrow> True"
| "agrees (Inl e) (Inl e') \<longleftrightarrow> e' = e \<or>
     e = ''claim transaction must spend indexed nickname bond outpoint'' \<and>
     e' = ''claim transaction must spend current nickname bond outpoint''"
| "agrees _ _ \<longleftrightarrow> False"

lemma agrees_bind: "(\<And>x. r = Inr x \<Longrightarrow> agrees (f x) (g x)) \<Longrightarrow> agrees (rbind r f) (rbind r g)"
  by (cases r) simp_all

lemma agrees_require: "(c \<Longrightarrow> agrees (f ()) (g ())) \<Longrightarrow> agrees (rbind (require c e) f) (rbind (require c e) g)"
  by (cases c) simp_all

lemma agrees_last: "agrees (rbind r (\<lambda>x. Inr (f x))) r"
  by (cases r) simp_all

lemma agrees_last_unit: "agrees (rbind r (\<lambda>x. Inr (f x))) (rbind r (\<lambda>x. Inr (g x)))"
  by (cases r) simp_all

text \<open>The undo data of a transaction has the outputs that the coins view has for its inputs.\<close>

definition view_matches :: "coins_view \<Rightarrow> CTransaction \<Rightarrow> CTxUndo \<Rightarrow> bool" where
  "view_matches view tx undo \<longleftrightarrow>
     map (spent_script view) (vin tx) = map (\<lambda>u. Some (scriptPubKey (txout u))) (vprevout undo)"

lemma auth_view:
  assumes "view_matches view tx undo"
  shows "TxHasOwnerAuthorizationInput cx tx (Some undo) key = TxHasOwnerAuthorizationInputFromView cx tx view key"
proof -
  have l: "length (vprevout undo) = length (vin tx)" using assms unfolding view_matches_def by (metis length_map)
  have "list_ex (\<lambda>u. scriptPubKey (txout u) \<in> A) (vprevout undo) =
      list_ex (\<lambda>txin. case spent_script view txin of None \<Rightarrow> False | Some s \<Rightarrow> s \<in> A) (vin tx)" for A
  proof -
    let ?P = "\<lambda>s. case s of None \<Rightarrow> False | Some s \<Rightarrow> s \<in> A"
    have "list_ex ?P (map (spent_script view) (vin tx)) = list_ex ?P (map (\<lambda>u. Some (scriptPubKey (txout u))) (vprevout undo))"
      using assms by (simp add: view_matches_def)
    then show ?thesis by (simp add: list_ex_iff)
  qed
  then show ?thesis
    unfolding TxHasOwnerAuthorizationInput_def TxHasOwnerAuthorizationInputFromView_def by (simp add: l)
qed

lemma operation_agrees:
  assumes st: "get_state w (op_nickname x) = st" "new_record st = c"
    and status: "status = (case c of None \<Rightarrow> EXPIRED_AVAILABLE | Some i \<Rightarrow> info_GetStatus i h)"
    and view: "view_matches view tx undo" and "c = None \<Longrightarrow> \<not> spends_one x spent" and "\<And>b. op_type x \<noteq> UNNAMED b"
  shows "agrees (block_operation cx h mult tx (Some undo) x spent status w)
    (case op_type x of
       REGISTER \<Rightarrow> check_register cx view mult tx x spent c status
     | UPDATE \<Rightarrow> check_update cx view tx spent c status
     | TRANSFER \<Rightarrow> check_transfer cx view tx x spent c status
     | RENEW \<Rightarrow> check_renew cx view mult tx x spent c status
     | RELEASE \<Rightarrow> check_release cx view tx spent c status
     | CLAIM_BOND \<Rightarrow> check_claim cx view tx x spent c status
     | NONE \<Rightarrow> Inl ''invalid nickname operation type''
     | UNNAMED b \<Rightarrow> Inl ''invalid nickname operation type'')"
proof (cases c)
  case None
  then have "\<not> ws_existsNow st" "\<not> spends_one x spent" using assms(2,5) by (auto simp: new_record_def split: if_splits)
  then show ?thesis using None assms(6)
    by (cases "op_type x")
      (auto simp: block_operation_def block_register_def block_update_def block_transfer_def block_renew_def block_release_def
        block_claim_def check_register_def check_update_def check_owned_def check_transfer_def check_renew_def
        check_release_def check_claim_def st Let_def auth_view [OF view] intro!: agrees_require agrees_bind)
next
  case (Some i)
  then have s: "ws_existsNow st" "ws_current st = i" using assms(2) by (auto simp: new_record_def split: if_splits)
  have claim: "agrees (block_claim cx tx (Some undo) x spent status w) (check_claim cx view tx x spent c status)"
  proof (cases "spends_one x spent")
    case True
    then obtain q where "map_of spent (op_nickname x) = Some q" by (auto simp: spends_one_def)
    then show ?thesis using True
      by (auto simp: block_claim_def check_claim_def st s Some Let_def auth_view [OF view] intro!: agrees_require agrees_last)
  qed (simp add: block_claim_def check_claim_def Let_def)
  show ?thesis using Some assms(6) claim
    by (cases "op_type x")
      (auto simp: block_operation_def block_register_def block_update_def block_transfer_def block_renew_def block_release_def
        check_register_def check_update_def check_owned_def check_transfer_def check_renew_def
        check_release_def st s Let_def auth_view [OF view] intro!: agrees_require agrees_bind agrees_last agrees_last_unit)
qed

text \<open>The bonds a transaction spends, seen at the start of a block and from the mempool.\<close>

lemma bonded_db:
  assumes "db_ok H db"
  shows "bonded db (get_nick db) p n \<longleftrightarrow> get_bond db p = Some n"
proof -
  have "ledger_inv db {} (get_nick db)" using initial_work_ok [OF assms] by (simp add: work_ok_def core_ok_def)
  then show ?thesis using bonded_indexed [OF assms, of "{}"] db_bond_name [OF assms] unfolding bonded_def by blast
qed

lemma spent_same:
  assumes "db_ok H db" "core_ok db T w" "\<forall>t \<in> T. new_txid db t" "record_of db w = get_nick db"
  shows "spent_in_mempool db ins spent = (case spent_in_block db ins spent w of Inl e \<Rightarrow> Inl e | Inr (s, w') \<Rightarrow> Inr s)"
  using assms(2,4)
proof (induction ins arbitrary: spent w)
  case (Cons t ins)
  obtain r w1 where l: "lookupBondNicknameByOutpoint db (prevout t) w = (r, w1)" by fastforce
  note ok = lookupBond_ok [OF assms(1) Cons.prems(1) assms(3) l]
  have w1: "core_ok db T w1" "record_of db w1 = get_nick db" using ok(1) Cons.prems(2) by simp_all
  have k: "r = Some n \<longleftrightarrow> get_bond db (prevout t) = Some n" for n
    using ok(2) [of n] bonded_db [OF assms(1)] Cons.prems(2) by simp
  have "r = get_bond db (prevout t)"
  proof (cases r)
    case None
    then have "get_bond db (prevout t) \<noteq> Some n" for n using k [of n] by simp
    then show ?thesis using None by (metis option.exhaust)
  next
    case (Some n)
    then show ?thesis using k [of n] by simp
  qed
  then have r: "ReadNicknameByBondOutpoint db (prevout t) = r"
    by (simp add: ReadNicknameByBondOutpoint_def)
  show ?case
  proof (cases r)
    case None
    then show ?thesis using Cons.IH [OF w1] r l by simp
  next
    case (Some n)
    then show ?thesis using Cons.IH [OF w1] r l by (cases "emplace_spent n (prevout t) spent") simp_all
  qed
qed simp

text \<open>One transaction at the start of a block, against the same transaction in the mempool.\<close>

lemma tx_agrees:
  assumes ok: "work_ok H db T h w" "record_of db w = get_nick db" and view: "view_matches view tx undo"
    and pending: "\<And>x. ExtractNicknameOperationFromTx cx tx = Inr (Some x) \<Longrightarrow> check_pending cx tx x mempool = Inr ()"
  shows "agrees (block_tx cx db h (fst (ReadPricingMultiplierPermille db)) tx (Some undo) fee w)
    (CheckNicknameOperationForMempool cx (Some db) mempool tx view h fee)"
proof -
  have o: "db_ok H db" "core_ok db T w" "\<forall>t \<in> T. new_txid db t" using ok(1) by (simp_all add: work_ok_def)
  note same = spent_same [OF o ok(2), of "vin tx" "[]"]
  show ?thesis
  proof (cases "ExtractNicknameOperationFromTx cx tx")
    case (Inl e)
    then show ?thesis by (simp add: block_tx_def CheckNicknameOperationForMempool_def Let_def)
  next
    case found: (Inr found)
    show ?thesis
    proof (cases "spent_in_block db (vin tx) [] w")
      case (Inl e)
      then show ?thesis using same by (simp add: block_tx_def CheckNicknameOperationForMempool_def Let_def found)
    next
      case (Inr a)
      then obtain spent w1 where s: "spent_in_block db (vin tx) [] w = Inr (spent, w1)" by (cases a) auto
      then have m: "spent_in_mempool db (vin tx) [] = Inr spent" using same by simp
      have w1: "core_ok db T w1" "record_of db w1 = get_nick db" "spent_ok db (get_nick db) (vin tx) [] spent"
        using spent_in_block_ok [OF o(1,3,2) s] ok(2) by simp_all
      show ?thesis
      proof (cases found)
        case None
        then show ?thesis using found s m by (simp add: block_tx_def CheckNicknameOperationForMempool_def Let_def require_def)
      next
        case (Some x)
        let ?n = "op_nickname x"
        have x: "operation_ok x" "NormalizeKeyName ?n = ?n"
          using ExtractFromTx_ok [OF found [unfolded Some]] by (simp_all add: operation_ok_def NormalizeKeyName_def)
        define w2 where "w2 = loadState db ?n w1"
        obtain st where l: "Mapping.lookup (bw_states w2) ?n = Some st" and c2: "record_of db w2 = get_nick db"
          using loadState_ok [OF w1(1) x(2)] w1(2) unfolding w2_def by auto
        have st: "get_state w2 ?n = st" "new_record st = get_nick db ?n"
          using l c2 [THEN fun_cong, of ?n] by (simp_all add: get_state_def record_of_def)
        have rd: "ReadNickname db ?n = get_nick db ?n" using x(2) by (simp add: ReadNickname_def)
        have none: "\<not> spends_one x spent" if "get_nick db ?n = None"
          using that o(1) w1(3) bonded_db [OF o(1)] unfolding spends_one_def spent_ok_def db_ok_def bond_names_ok_def by fastforce
        have s2: "(if ws_existsNow st then info_GetStatus (ws_current st) h else EXPIRED_AVAILABLE) =
            (case get_nick db ?n of None \<Rightarrow> EXPIRED_AVAILABLE | Some i \<Rightarrow> info_GetStatus i h)"
          using st(2) by (auto simp: new_record_def split: option.splits if_splits)
        have "\<And>b. op_type x \<noteq> UNNAMED b" using x(1) by (auto simp: operation_ok_def)
        note op = operation_agrees [OF st refl view none this]
        show ?thesis
          unfolding block_tx_def CheckNicknameOperationForMempool_def
          using found s m pending Some
          by (auto simp: Let_def w2_def [symmetric] st s2 rd cong: if_cong split del: if_split intro!: agrees_require agrees_bind op)
      qed
    qed
  qed
qed

text \<open>A block of one transaction beside its coinbase.\<close>

lemma connect_agrees:
  assumes n: "node cx bs db" "new_block bs b" "bk_vtx b = [coinbase, tx]" "vtxundo (bk_undo b) = [undo]"
    "bk_fees b = [reward, fee]" "ExtractNicknameOperationFromTx cx coinbase = Inr None"
    "\<forall>p \<in> spends coinbase. out_hash p \<notin> chain_txids bs"
    and view: "view_matches view tx undo"
    and pending: "\<And>x. ExtractNicknameOperationFromTx cx tx = Inr (Some x) \<Longrightarrow> check_pending cx tx x mempool = Inr ()"
  shows "agrees (ConnectBlock cx db b) (CheckNicknameOperationForMempool cx (Some db) mempool tx view (bk_height b) fee)"
proof -
  let ?m = "fst (ReadPricingMultiplierPermille db)" and ?h = "bk_height b"
  have db: "db_ok (cx_Hash160 cx) db" using node_ok(1) [OF n(1)] .
  note i = initial_work_ok [OF db, of ?h]
  have t: "txid_ok db {} (tx_hash coinbase)" using node_new [OF n(1,2)] n(3) by (simp add: block_new_def txid_ok_def)
  have "get_bond db p = None" if "p \<in> spends coinbase" for p
    using node_ok(2) [OF n(1)] n(7) that by (simp add: stored_ok_def)
  then have "\<forall>txin \<in> set (vin coinbase). \<forall>n. \<not> bonded db (get_nick db) (prevout txin) n"
    using bonded_db [OF db] by (simp add: spends_def)
  then have step: "tx_step cx db ?h ?m (coinbase, None, reward) (record_of db (initial_work ?h)) (get_nick db)"
    using tx_step.Plain [OF n(6)] i(2) by simp
  obtain w where w: "block_tx cx db ?h ?m coinbase None reward (initial_work ?h) = Inr w" "record_of db w = get_nick db"
    using block_tx_total [OF i(1) t step] by blast
  have ok: "work_ok (cx_Hash160 cx) db (insert (tx_hash coinbase) {}) ?h w" using block_tx_ok [OF i(1) t w(1)] by simp
  have c: "ConnectBlock cx db b = rbind (block_tx cx db ?h ?m tx (Some undo) fee w) (\<lambda>w'.
      Inr (connect_nicknames (cx_Hash160 cx) db (bk_hash b) (collect_updates (block_states w') (bw_updates w'))))"
    using n(3,4,5) w(1)
    by (cases "block_tx cx db ?h ?m tx (Some undo) fee w")
      (simp_all add: ConnectBlock_def BuildNicknameBlockUpdates_def block_entries_def Let_def)
  show ?thesis unfolding c using tx_agrees [OF ok w(2) view pending, of fee]
    by (cases "block_tx cx db ?h ?m tx (Some undo) fee w"; cases "CheckNicknameOperationForMempool cx (Some db) mempool tx view ?h fee")
      auto
qed

lemma check_pending_ok:
  assumes "check_pending cx tx x mempool = Inr ()" "t \<in> set mempool" "ExtractNicknameOperationFromTx cx t = Inr (Some y)"
    "op_nickname y = op_nickname x" "tx_hash t \<noteq> tx_hash tx"
  shows "spends t \<inter> spends tx \<noteq> {}"
  using assms(1,2)
proof (induction mempool)
  case (Cons m mempool)
  show ?case
  proof (cases "t = m")
    case True
    then show ?thesis using Cons.prems(1) assms(3-5) by (auto simp: Let_def list_ex_iff spends_def split: if_splits)
  next
    case False
    then show ?thesis using Cons by (auto simp: Let_def split: if_splits sum.splits option.splits)
  qed
qed simp

subsection \<open>An example\<close>

text \<open>Coins of Alice under every hash, a registration that spends one of them, and a replacement of it.\<close>

definition example_view :: coins_view where
  "example_view = (\<lambda>_. Some \<lparr>coins_fCoinBase = False,
     coins_vout = replicate 2 \<lparr>nValue = 1, scriptPubKey = GetScriptForRawPubKey alice_key\<rparr>,
     coins_nHeight = 0, coins_nVersion = 1\<rparr>)"

definition register_tx :: "uint256 \<Rightarrow> CTransaction" where
  "register_tx h = op_tx h (COutPoint 5 0) example_register alice_key"

lemma register_extract:
  "ExtractNicknameOperationFromTx example_context (register_tx h) = Inr (Some (received (\<lambda>_. 0) main_prefixes example_register))"
  unfolding register_tx_def by (rule op_tx_extract [OF example_register_sendable example_keys(3)])

lemma register_simps: "tx_hash (register_tx h) = h" "spends (register_tx h) = {COutPoint 5 0}"
    "prevout ` set (vin (register_tx h)) = {COutPoint 5 0}"
  by (simp_all add: register_tx_def op_tx_def example_tx_def spends_def)

lemma register_pending:
  "check_pending example_context (register_tx h) x [] = Inr ()"
  "check_pending example_context (register_tx h) x [register_tx h'] = Inr ()"
proof -
  show "check_pending example_context (register_tx h) x [register_tx h'] = Inr ()"
    using register_extract [of h'] by (simp add: register_simps Let_def) (simp add: register_tx_def op_tx_def example_tx_def)
qed simp

lemma example_view_matches: "view_matches example_view (register_tx h) (vtxundo (bk_undo (example_bk h' ht tx)) ! 0)"
  by (simp add: view_matches_def register_tx_def op_tx_def example_tx_def example_bk_def spent_script_def example_view_def
      IsAvailable_def TxOut_IsNull_def)

lemma first_block_parts:
  "bk_vtx first_block = [example_tx 21 null_outpoint [], register_tx 7]" "bk_height first_block = 1"
  "vtxundo (bk_undo first_block) = [vtxundo (bk_undo first_block) ! 0]" "bk_fees first_block = [0, 100 * COIN]"
  "ExtractNicknameOperationFromTx example_context (example_tx 21 null_outpoint []) = Inr None"
  by (simp_all add: first_block_def example_bk_def register_tx_def)
    (simp add: ExtractNicknameOperationFromTx_def example_tx_def)

lemma register_accepted:
  assumes "\<And>x. check_pending example_context (register_tx 7) x mempool = Inr ()"
  shows "CheckNicknameOperationForMempool example_context (Some empty_db) mempool (register_tx 7) example_view 1 (100 * COIN) = Inr ()"
proof -
  have v: "view_matches example_view (register_tx 7) (vtxundo (bk_undo first_block) ! 0)"
    using example_view_matches by (simp add: first_block_def)
  obtain db1 where "ConnectBlock example_context empty_db first_block = Inr db1" using first_connect by blast
  then have "agrees (Inr db1) (CheckNicknameOperationForMempool example_context (Some empty_db) mempool (register_tx 7)
      example_view 1 (100 * COIN))"
    using connect_agrees [OF node.Start example_new(1) first_block_parts(1,3,4,5) _ v assms] first_block_parts(2)
    by (simp add: chain_txids_def)
  then show ?thesis
    by (cases "CheckNicknameOperationForMempool example_context (Some empty_db) mempool (register_tx 7) example_view 1 (100 * COIN)")
      simp_all
qed

text \<open>A bond that a registration of the block locks, and a later transaction of the block that spends it.\<close>

definition bond_spender :: CTransaction where
  "bond_spender = example_tx 9 (COutPoint 7 1) []"

definition stuck_block :: "CBlockUndo \<Rightarrow> CAmount list \<Rightarrow> NicknameBlock" where
  "stuck_block undo fees = \<lparr>bk_hash = 21, bk_height = 1,
     bk_vtx = [example_tx 21 null_outpoint [], register_tx 7, bond_spender], bk_undo = undo, bk_fees = fees\<rparr>"

lemma spender_plain: "ExtractNicknameOperationFromTx example_context bond_spender = Inr None"
  by (simp add: ExtractNicknameOperationFromTx_def bond_spender_def example_tx_def)

lemma spender_accepted: "CheckNicknameOperationForMempool example_context (Some empty_db) mempool bond_spender view h fee = Inr ()"
proof -
  have "spent_in_mempool empty_db (vin bond_spender) [] = Inr []"
    by (simp add: bond_spender_def example_tx_def ReadNicknameByBondOutpoint_def empty_db_def)
  then show ?thesis by (simp add: CheckNicknameOperationForMempool_def Let_def spender_plain)
qed

lemma register_bond:
  assumes "tx_step example_context db h mult (register_tx 7, u, fee) L L'" "mult = 1000"
  shows "holds_bond (L' ''alice_7'') (COutPoint 7 1)"
proof (rule tx_stepE [OF assms(1)])
  assume "ExtractNicknameOperationFromTx example_context (register_tx 7) = Inr None"
  then show ?thesis by (simp add: register_extract)
next
  let ?y = "received (\<lambda>_. 0) main_prefixes example_register"
  fix x required p r
  assume a: "L' = L(op_nickname x := r)" "ExtractNicknameOperationFromTx example_context (register_tx 7) = Inr (Some x)"
    "name_step example_context h mult (register_tx 7) u x p (L (op_nickname x)) r"
  then have x: "x = ?y" by (simp add: register_extract)
  have f: "FindUniqueBondOutput (register_tx 7) (GetScriptForRawPubKey (CPubKey (ownerPubKey ?y)))
      (bondAmount (GetPricing (length (op_nickname ?y)) 1000)) = Inr 1"
    unfolding example_len using op_tx_locks [of alice_key alice_key] example_keys by (simp add: locks_bond_def register_tx_def)
  from a(3) [unfolded x] have "holds_bond r (COutPoint 7 1)"
    by (cases rule: name_step.cases) (simp_all add: example_names(3) locks_bond_def assms(2) f bond_defs register_simps)
  then show ?thesis using a(1) x by (simp add: example_names)
qed

lemma stuck_rejected: "ConnectBlock example_context empty_db (stuck_block undo fees) \<noteq> Inr db'"
proof
  assume c: "ConnectBlock example_context empty_db (stuck_block undo fees) = Inr db'"
  have "new_block [] (stuck_block undo fees)"
    by (simp add: new_block_def stuck_block_def register_tx_def op_tx_def bond_spender_def example_tx_def spends_def
      chain_txids_def null_outpoint_def less_Suc_eq)
  then have n: "block_new empty_db (stuck_block undo fees)" using new_block_new [OF empty_db_ok(2)] by blast
  have v: "bk_vtx (stuck_block undo fees) = [example_tx 21 null_outpoint [], register_tx 7, bond_spender]"
    by (simp add: stuck_block_def)
  obtain w where e: "map fst (bk_entries (stuck_block undo fees)) = bk_vtx (stuck_block undo fees)"
    and r: "block_run example_context empty_db (bk_height (stuck_block undo fees)) (fst (ReadPricingMultiplierPermille empty_db))
      (bk_entries (stuck_block undo fees)) (get_nick empty_db) (get_nick db')"
    using ConnectE [OF empty_db_ok(1) n c] by metis
  obtain u1 u2 u3 f1 f2 f3 where "bk_entries (stuck_block undo fees) =
      [(example_tx 21 null_outpoint [], u1, f1), (register_tx 7, u2, f2), (bond_spender, u3, f3)]"
    using e unfolding v by (auto simp: map_eq_Cons_conv)
  then obtain h L L1 L2 where
    "tx_step example_context empty_db h 1000 (register_tx 7, u2, f2) L L1"
    "tx_step example_context empty_db h 1000 (bond_spender, u3, f3) L1 L2"
    using r unfolding example_multiplier by (auto simp: block_run_Cons)
  moreover from this(1) have "bonded empty_db L1 (COutPoint 7 1) ''alice_7''"
    using register_bond by (simp add: bonded_def)
  ultimately show False
    using spender_plain by (auto elim!: tx_stepE simp: bond_spender_def example_tx_def)
qed

subsection \<open>Properties\<close>

text \<open>C7. The mempool and the blocks apply the same rules. For a transaction that could be the only one beside the coinbase
  of the next block, with the coins view and the undo data showing the same spent outputs and no pending operation on
  its name, the check on entry to the mempool accepts if and only if connecting that block does, and both reject with
  the same reason (a claim that spends no bond apart, where one word of the message differs).\<close>

theorem mempool_agrees_with_blocks:
  assumes "node cx bs db" "new_block bs b" "bk_vtx b = [coinbase, tx]" "vtxundo (bk_undo b) = [undo]" "bk_fees b = [reward, fee]"
    and "ExtractNicknameOperationFromTx cx coinbase = Inr None" "\<forall>p \<in> spends coinbase. out_hash p \<notin> chain_txids bs"
    and "view_matches view tx undo"
    and "\<And>x. ExtractNicknameOperationFromTx cx tx = Inr (Some x) \<Longrightarrow> check_pending cx tx x mempool = Inr ()"
  shows "agrees (ConnectBlock cx db b) (CheckNicknameOperationForMempool cx (Some db) mempool tx view (bk_height b) fee)"
  using connect_agrees [OF assms] .

theorem mempool_agrees_with_blocks_witness:
  "agrees (ConnectBlock example_context empty_db first_block)
     (CheckNicknameOperationForMempool example_context (Some empty_db) [register_tx 8] (register_tx 7) example_view 1 (100 * COIN))"
proof -
  have "view_matches example_view (register_tx 7) (vtxundo (bk_undo first_block) ! 0)"
    using example_view_matches by (simp add: first_block_def)
  then show ?thesis
    using mempool_agrees_with_blocks [OF node.Start example_new(1) first_block_parts(1,3,4,5) _ _ register_pending(2)]
      first_block_parts(2)
    by (simp add: chain_txids_def)
qed

text \<open>C25. The mempool holds one operation per name: a transaction with an operation is accepted beside a pending one with an
  operation on the same name only if it spends an output that the pending one spends, so that at most one of them can
  stay.\<close>

theorem mempool_one_operation_per_name:
  assumes "CheckNicknameOperationForMempool cx (Some db) mempool tx view h fee = Inr ()"
    and "ExtractNicknameOperationFromTx cx tx = Inr (Some x)" "t \<in> set mempool"
    and "ExtractNicknameOperationFromTx cx t = Inr (Some y)" "op_nickname y = op_nickname x" "tx_hash t \<noteq> tx_hash tx"
  shows "spends t \<inter> spends tx \<noteq> {}"
proof -
  have "check_pending cx tx x mempool = Inr ()"
    using assms(1,2) by (auto simp: CheckNicknameOperationForMempool_def Let_def rbind_Inr_iff rbind_require_iff)
  then show ?thesis using check_pending_ok assms(3-6) by blast
qed

theorem mempool_one_operation_per_name_witness:
  "CheckNicknameOperationForMempool example_context (Some empty_db) [register_tx 8] (register_tx 7) example_view 1 (100 * COIN) = Inr () \<and>
   spends (register_tx 8) \<inter> spends (register_tx 7) \<noteq> {}"
proof -
  note a = register_accepted [OF register_pending(2), of 8]
  show ?thesis
    using a mempool_one_operation_per_name [OF a register_extract _ register_extract refl, of 8] by (simp add: register_simps)
qed


end
