(* ===== verification/Kubu_Json.thy ===== *)
theory Kubu_Json
  imports Kubu_Hex
begin

text \<open>
  JSON values and the exceptions of RPC commands: the part of \<^verbatim>\<open>src/src/univalue\<close> that the commands use, the error codes of
  \<^verbatim>\<open>src/src/rpc/protocol.h\<close>, and amounts as JSON numbers in \<^verbatim>\<open>src/src/rpc/server.cpp\<close> with
  \<^verbatim>\<open>ParseFixedPoint\<close> of \<^verbatim>\<open>src/src/utilstrencodings.cpp\<close>.
\<close>

subsection \<open>Values and exceptions\<close>

text \<open>Numbers are kept as text.\<close>

datatype UniValue =
    VNULL | VBOOL bool | VNUM string | VSTR string | VARR "UniValue list" | VOBJ "(string \<times> UniValue) list"

text \<open>The codes that the commands use.\<close>

datatype RPCErrorCode =
    RPC_METHOD_NOT_FOUND | RPC_MISC_ERROR | RPC_TYPE_ERROR | RPC_INVALID_ADDRESS_OR_KEY | RPC_INVALID_PARAMETER
  | RPC_CLIENT_P2P_DISABLED | RPC_WALLET_ERROR | RPC_WALLET_INSUFFICIENT_FUNDS | RPC_WALLET_UNLOCK_NEEDED

text \<open>\<^verbatim>\<open>Usage\<close> is the \<^verbatim>\<open>runtime_error\<close> with the help text of the command it names.\<close>

datatype rpc_exception = JSONRPCError RPCErrorCode string | Runtime_error string | Usage string

type_synonym 'a rpc = "rpc_exception + 'a"

definition throw_unless :: "bool \<Rightarrow> rpc_exception \<Rightarrow> unit rpc" where
  "throw_unless c e = (if c then Inr () else Inl e)"

lemma throw_unless_simps [simp]:
  "throw_unless True e = Inr ()" "throw_unless False e = Inl e" "throw_unless c e = Inr u \<longleftrightarrow> c"
  by (simp_all add: throw_unless_def)

lemma rbind_throw_iff: "rbind (throw_unless c e) f = Inr y \<longleftrightarrow> c \<and> f () = Inr y"
  by (simp add: throw_unless_def)

definition get_str :: "UniValue \<Rightarrow> string rpc" where
  "get_str v = (case v of VSTR s \<Rightarrow> Inr s | _ \<Rightarrow> Inl (Runtime_error ''JSON value is not a string as expected''))"

definition get_bool :: "UniValue \<Rightarrow> bool rpc" where
  "get_bool v = (case v of VBOOL b \<Rightarrow> Inr b | _ \<Rightarrow> Inl (Runtime_error ''JSON value is not a boolean as expected''))"

definition get_int :: "UniValue \<Rightarrow> int rpc" where
  "get_int v =
     (case v of
        VNUM s \<Rightarrow>
          (case ParseInt32 s of
             None \<Rightarrow> Inl (Runtime_error ''JSON integer out of range'')
           | Some n \<Rightarrow> Inr n)
      | _ \<Rightarrow> Inl (Runtime_error ''JSON value is not an integer as expected''))"

definition int_value :: "int \<Rightarrow> UniValue" where
  "int_value n = VNUM (if n < 0 then ''-'' @ decimal (nat (- n)) else decimal (nat n))"

text \<open>\<^verbatim>\<open>pushKV\<close> replaces the value of a key that is there.\<close>

fun push_pair :: "string \<Rightarrow> UniValue \<Rightarrow> (string \<times> UniValue) list \<Rightarrow> (string \<times> UniValue) list" where
  "push_pair key val [] = [(key, val)]"
| "push_pair key val ((k, v) # kvs) = (if k = key then (k, val) # kvs else (k, v) # push_pair key val kvs)"

definition pushKV :: "string \<Rightarrow> UniValue \<Rightarrow> UniValue \<Rightarrow> UniValue" where
  "pushKV key val obj = (case obj of VOBJ kvs \<Rightarrow> VOBJ (push_pair key val kvs) | _ \<Rightarrow> obj)"

text \<open>The value of a key, as a client reads it.\<close>

definition json_field :: "UniValue \<Rightarrow> string \<Rightarrow> UniValue option" where
  "json_field v key = (case v of VOBJ kvs \<Rightarrow> map_of kvs key | _ \<Rightarrow> None)"

subsection \<open>Fixed point numbers\<close>

definition UPPER_BOUND :: int where
  "UPPER_BOUND = 1000000000000000000 - 1"

text \<open>The loop \<^verbatim>\<open>for (i = 0; i < n; ++i)\<close> that multiplies by ten, with its check.\<close>

fun scale_up :: "nat \<Rightarrow> int \<Rightarrow> int option" where
  "scale_up 0 mantissa = Some mantissa"
| "scale_up (Suc n) mantissa =
     (if mantissa > UPPER_BOUND div 10 \<or> mantissa < - (UPPER_BOUND div 10) then None
      else scale_up n (mantissa * 10))"

text \<open>The mantissa is not negative while digits are read.\<close>

definition ProcessMantissaDigit :: "char \<Rightarrow> int \<times> nat \<Rightarrow> (int \<times> nat) option" where
  "ProcessMantissaDigit ch = (\<lambda>(mantissa, tzeros).
     if ch = CHR ''0'' then Some (mantissa, tzeros + 1)
     else map_option (\<lambda>m. (m + digit_value ch, 0)) (scale_up (tzeros + 1) mantissa))"

fun mantissa_digits :: "string \<Rightarrow> int \<times> nat \<Rightarrow> nat \<Rightarrow> ((int \<times> nat) \<times> nat \<times> string) option" where
  "mantissa_digits [] st count = Some (st, count, [])"
| "mantissa_digits (c # cs) st count =
     (if isdigit c then
        (case ProcessMantissaDigit c st of None \<Rightarrow> None | Some st \<Rightarrow> mantissa_digits cs st (count + 1))
      else Some (st, count, c # cs))"

fun exponent_digits :: "string \<Rightarrow> int \<Rightarrow> (int \<times> string) option" where
  "exponent_digits [] exponent = Some (exponent, [])"
| "exponent_digits (c # cs) exponent =
     (if isdigit c then
        if exponent > UPPER_BOUND div 10 then None
        else exponent_digits cs (exponent * 10 + digit_value c)
      else Some (exponent, c # cs))"

definition parse_integral :: "string \<Rightarrow> ((int \<times> nat) \<times> string) option" where
  "parse_integral val =
     (case val of
        [] \<Rightarrow> None
      | c # cs \<Rightarrow>
          if c = CHR ''0'' then Some ((0, 0), cs)
          else if isdigit c then map_option (\<lambda>(st, _, rest). (st, rest)) (mantissa_digits val (0, 0) 0)
          else None)"

definition parse_fraction :: "string \<Rightarrow> int \<times> nat \<Rightarrow> ((int \<times> nat) \<times> nat \<times> string) option" where
  "parse_fraction val st =
     (case val of
        c # cs \<Rightarrow>
          if c = CHR ''.'' then (if cs \<noteq> [] \<and> isdigit (hd cs) then mantissa_digits cs st 0 else None)
          else Some (st, 0, val)
      | [] \<Rightarrow> Some (st, 0, val))"

definition parse_exponent :: "string \<Rightarrow> (int \<times> string) option" where
  "parse_exponent val =
     (case val of
        c # cs \<Rightarrow>
          if c = CHR ''e'' \<or> c = CHR ''E'' then
            let (exponent_sign, cs) = (if cs \<noteq> [] \<and> hd cs = CHR ''+'' then (False, tl cs)
                  else if cs \<noteq> [] \<and> hd cs = CHR ''-'' then (True, tl cs) else (False, cs))
            in if cs \<noteq> [] \<and> isdigit (hd cs)
               then map_option (\<lambda>(e, rest). (if exponent_sign then - e else e, rest)) (exponent_digits cs 0)
               else None
          else Some (0, val)
      | [] \<Rightarrow> Some (0, val))"

definition ParseFixedPoint :: "string \<Rightarrow> int \<Rightarrow> int option" where
  "ParseFixedPoint val decimals =
     (let (mantissa_sign, val) = (if val \<noteq> [] \<and> hd val = CHR ''-'' then (True, tl val) else (False, val)) in
      case parse_integral val of None \<Rightarrow> None | Some (st, val) \<Rightarrow>
      (case parse_fraction val st of None \<Rightarrow> None | Some ((mantissa, tzeros), point_ofs, val) \<Rightarrow>
      (case parse_exponent val of None \<Rightarrow> None | Some (exponent, val) \<Rightarrow>
        if val \<noteq> [] then None
        else
          let exponent = exponent - int point_ofs + int tzeros + decimals;
              mantissa = (if mantissa_sign then - mantissa else mantissa)
          in if exponent < 0 then None
             else if exponent \<ge> 18 then None
             else case scale_up (nat exponent) mantissa of
                 None \<Rightarrow> None
               | Some mantissa \<Rightarrow>
                   if mantissa > UPPER_BOUND \<or> mantissa < - UPPER_BOUND then None else Some mantissa)))"

subsection \<open>Amounts\<close>

definition AmountFromValue :: "UniValue \<Rightarrow> CAmount rpc" where
  "AmountFromValue value =
     (case (case value of VNUM s \<Rightarrow> Some s | VSTR s \<Rightarrow> Some s | _ \<Rightarrow> None) of
        None \<Rightarrow> Inl (JSONRPCError RPC_TYPE_ERROR ''Amount is not a number or string'')
      | Some s \<Rightarrow>
          (case ParseFixedPoint s 8 of
             None \<Rightarrow> Inl (JSONRPCError RPC_TYPE_ERROR ''Invalid amount'')
           | Some amount \<Rightarrow>
               if \<not> MoneyRange amount then Inl (JSONRPCError RPC_TYPE_ERROR ''Amount out of range'')
               else Inr amount))"

definition ValueFromAmount :: "CAmount \<Rightarrow> UniValue" where
  "ValueFromAmount amount =
     (let sign = amount < 0;
          n_abs = (if sign then - amount else amount);
          quotient = n_abs div COIN;
          remainder = n_abs mod COIN
      in VNUM ((if sign then ''-'' else []) @ decimal (nat quotient) @ ''.'' @ pad_zeros 8 (decimal (nat remainder))))"

subsection \<open>Reading back an amount\<close>

lemma scale_up_ok: "0 \<le> m \<Longrightarrow> m * 10 ^ n \<le> UPPER_BOUND \<Longrightarrow> scale_up n m = Some (m * 10 ^ n)"
proof (induction n arbitrary: m)
  case (Suc n)
  have "m * 10 * 1 \<le> m * 10 * 10 ^ n" by (rule mult_left_mono) (use Suc.prems in simp_all)
  then have "m * 10 \<le> UPPER_BOUND" using Suc.prems(2) by simp
  then have "m \<le> UPPER_BOUND div 10" "- (UPPER_BOUND div 10) \<le> m" using Suc.prems(1) by (simp_all add: UPPER_BOUND_def)
  then show ?case using Suc.IH [of "m * 10"] Suc.prems by simp
qed simp

text \<open>The digits read so far are a number, the mantissa with its pending zeros.\<close>

definition number :: "int \<times> nat \<Rightarrow> int" where
  "number st = fst st * 10 ^ snd st"

definition horner :: "int \<Rightarrow> string \<Rightarrow> int" where
  "horner v ds = foldl (\<lambda>v c. 10 * v + digit_value c) v ds"

lemma horner_simps [simp]: "horner v [] = v" "horner v (c # cs) = horner (10 * v + digit_value c) cs"
  "horner v (ds @ es) = horner (horner v ds) es"
  by (simp_all add: horner_def)

lemma digit_value_range: "isdigit c \<Longrightarrow> 0 \<le> digit_value c \<and> digit_value c \<le> 9"
  by (auto simp: isdigit_def digit_value_def)

lemma horner_mono: "0 \<le> v \<Longrightarrow> list_all isdigit ds \<Longrightarrow> v \<le> horner v ds"
proof (induction ds arbitrary: v)
  case (Cons c ds)
  then have "0 \<le> 10 * v + digit_value c" "v \<le> 10 * v + digit_value c" using digit_value_range [of c] by simp_all
  then show ?case using Cons.IH [of "10 * v + digit_value c"] Cons.prems by simp
qed simp

lemma horner_eq: "list_all isdigit ds \<Longrightarrow> horner v ds = v * 10 ^ length ds + atoi64 ds"
proof (induction ds rule: rev_induct)
  case (snoc c ds)
  then show ?case by (simp add: atoi64_snoc algebra_simps)
qed (simp add: atoi64_def)

lemma mantissa_digit:
  assumes "isdigit c" "0 \<le> fst st" "10 * number st + digit_value c \<le> UPPER_BOUND"
  obtains st' where "ProcessMantissaDigit c st = Some st'" "0 \<le> fst st'" "number st' = 10 * number st + digit_value c"
    "fst st' = 0 \<longrightarrow> snd st' = Suc (snd st)"
proof (cases "c = CHR ''0''")
  case True
  show thesis by (rule that [of "(fst st, Suc (snd st))"])
    (use assms True in \<open>simp_all add: ProcessMantissaDigit_def split_def number_def\<close>)
next
  case False
  have d: "0 < digit_value c" using assms(1) False by (rule digit_positive)
  have p: "0 \<le> number st" using assms(2) by (simp add: number_def)
  then have "fst st * 10 ^ Suc (snd st) \<le> UPPER_BOUND" using assms(3) d by (simp add: number_def)
  then have s: "scale_up (Suc (snd st)) (fst st) = Some (fst st * 10 ^ Suc (snd st))" by (rule scale_up_ok [OF assms(2)])
  show thesis by (rule that [of "(10 * number st + digit_value c, 0)"])
    (use False d p s in \<open>simp_all add: ProcessMantissaDigit_def split_def number_def del: scale_up.simps\<close>)
qed

lemma mantissa_digits_ok:
  assumes "list_all isdigit ds" "0 \<le> fst st" "horner (number st) ds \<le> UPPER_BOUND" "rest = [] \<or> isdigit (hd rest) = False"
  obtains st' where "mantissa_digits (ds @ rest) st count = Some (st', count + length ds, rest)" "0 \<le> fst st'"
    "number st' = horner (number st) ds" "snd st' \<le> snd st + length ds"
proof -
  have "\<exists>st'. mantissa_digits (ds @ rest) st count = Some (st', count + length ds, rest) \<and> 0 \<le> fst st' \<and>
      number st' = horner (number st) ds \<and> snd st' \<le> snd st + length ds"
    using assms(1-3)
  proof (induction ds arbitrary: st count)
    case Nil
    then show ?case using assms(4) by (cases rest) auto
  next
    case (Cons c ds)
    let ?v = "10 * number st + digit_value c"
    have c: "isdigit c" "0 \<le> ?v" using Cons.prems digit_value_range [of c] by (simp_all add: number_def)
    then have "?v \<le> UPPER_BOUND" using horner_mono [of ?v ds] Cons.prems by simp
    then obtain st1 where st1: "ProcessMantissaDigit c st = Some st1" "0 \<le> fst st1" "number st1 = ?v"
      using mantissa_digit [OF c(1) Cons.prems(2)] by metis
    have z: "snd st1 \<le> Suc (snd st)"
      using st1(1) by (auto simp: ProcessMantissaDigit_def split_def split: if_splits)
    obtain st' where "mantissa_digits (ds @ rest) st1 (Suc count) = Some (st', Suc count + length ds, rest)" "0 \<le> fst st'"
      "number st' = horner (number st1) ds" "snd st' \<le> snd st1 + length ds"
      using Cons.IH [of st1 "Suc count"] Cons.prems st1 by auto
    then show ?case using c st1 z by auto
  qed
  then show thesis using that by blast
qed

lemma hd_decimal: "0 < n \<Longrightarrow> hd (decimal n) \<noteq> CHR ''0'' \<and> isdigit (hd (decimal n))"
proof (induction n rule: decimal.induct)
  case (1 n)
  show ?case
  proof (cases "n < 10")
    case True
    then show ?thesis using 1(2) by (simp add: decimal.simps [of n])
  next
    case False
    then show ?thesis using 1 decimal_text [of "n div 10"] by (simp add: decimal.simps [of n])
  qed
qed

lemma parse_integral_decimal:
  assumes "int q \<le> UPPER_BOUND"
  obtains st where "parse_integral (decimal q @ ''.'' @ f) = Some (st, ''.'' @ f)" "0 \<le> fst st" "number st = int q"
    "0 < q \<or> snd st = 0"
proof (cases "q = 0")
  case True
  then show thesis using that [of "(0, 0)"] by (simp add: parse_integral_def decimal.simps [of 0] number_def)
next
  case False
  note t = decimal_text [of q]
  have h: "horner (number (0, 0)) (decimal q) = int q" using horner_eq [of "decimal q" 0] t by (simp add: number_def)
  obtain st where st: "mantissa_digits (decimal q @ ''.'' @ f) (0, 0) 0 = Some (st, length (decimal q), ''.'' @ f)"
      "0 \<le> fst st" "number st = int q"
    by (rule mantissa_digits_ok [of "decimal q" "(0, 0)" "''.'' @ f" 0]) (use t h assms in simp_all)
  obtain c cs where c: "decimal q = c # cs" using t by (cases "decimal q") auto
  have "c \<noteq> CHR ''0''" "isdigit c" using hd_decimal [of q] False by (simp_all add: c)
  then have "parse_integral (decimal q @ ''.'' @ f) = Some (st, ''.'' @ f)"
    using st(1) by (simp add: parse_integral_def c del: mantissa_digits.simps)
  then show thesis using that st False by blast
qed

lemma number_zeros:
  assumes "number st = n" "0 < n" "n < 10 ^ 17"
  shows "snd st < 17"
proof -
  have "0 < fst st" using assms(1,2) by (metis number_def zero_less_mult_pos2 zero_less_power zero_less_numeral)
  then have "1 * 10 ^ snd st \<le> fst st * 10 ^ snd st" by (intro mult_right_mono) simp_all
  then have "(10 :: int) ^ snd st < 10 ^ 17" using assms unfolding number_def by linarith
  then show ?thesis by (simp only: power_strict_increasing_iff)
qed

lemma fixed_point_text:
  assumes "0 \<le> n" "n < 10 ^ 17"
  shows "ParseFixedPoint (decimal (nat (n div COIN)) @ ''.'' @ pad_zeros 8 (decimal (nat (n mod COIN)))) 8 = Some n"
proof -
  let ?q = "nat (n div COIN)" and ?f = "pad_zeros 8 (decimal (nat (n mod COIN)))"
  have q: "int ?q = n div COIN" using assms(1) by (simp add: COIN_def)
  have f: "length ?f = 8" "list_all isdigit ?f" "atoi64 ?f = n mod COIN"
    using FormatMoney_eq(2-4) [of n] assms(1) by simp_all
  have up: "n \<le> UPPER_BOUND" using assms(2) by (simp add: UPPER_BOUND_def)
  have "n div COIN \<le> n" using zdiv_mono2 [of n 1 COIN] assms(1) by (simp add: COIN_def)
  then obtain st where st: "parse_integral (decimal ?q @ ''.'' @ ?f) = Some (st, ''.'' @ ?f)" "0 \<le> fst st"
      "number st = n div COIN" "0 < ?q \<or> snd st = 0"
    using parse_integral_decimal [of ?q ?f] q up by auto
  have h: "horner (number st) ?f = n" using horner_eq [OF f(2), of "number st"] f(1,3) st(3) by (simp add: COIN_def)
  obtain m z where st': "mantissa_digits ?f st 0 = Some ((m, z), 8, [])" "0 \<le> m" "m * 10 ^ z = n" "z \<le> snd st + 8"
    by (rule mantissa_digits_ok [OF f(2) st(2), of "[]" 0]) (use h up f(1) in \<open>auto simp: number_def\<close>)
  have z: "z < 17"
  proof (cases "n = 0")
    case True
    then have "?q = 0" by simp
    then show ?thesis using st(4) st'(4) by simp
  next
    case False
    then show ?thesis using number_zeros [of "(m, z)" n] st'(3) assms by (simp add: number_def)
  qed
  have fr: "parse_fraction (''.'' @ ?f) st = Some ((m, z), 8, [])"
    using st'(1) f(1,2) by (cases ?f) (simp_all add: parse_fraction_def)
  have "hd (decimal ?q @ ''.'' @ ?f) \<noteq> CHR ''-''"
    using decimal_text [of ?q] digits_plain [of "decimal ?q"] by (cases "decimal ?q") simp_all
  moreover have "scale_up (nat (int z)) m = Some n" using scale_up_ok [OF st'(2), of z] st'(3) up by simp
  moreover have "- UPPER_BOUND \<le> n" using assms(1) by (simp add: UPPER_BOUND_def)
  ultimately show ?thesis
    using st(1) fr z up by (simp add: ParseFixedPoint_def parse_exponent_def Let_def)
qed

subsection \<open>Properties\<close>

text \<open>C29. An amount that a command reports is read back by a command: every amount of money is written as a JSON number that
  \<^verbatim>\<open>AmountFromValue\<close> accepts, as a number or as a text, and reads as the same amount.\<close>

theorem rpc_amount_roundtrip:
  assumes "MoneyRange n" "ValueFromAmount n = VNUM s"
  shows "AmountFromValue (VNUM s) = Inr n \<and> AmountFromValue (VSTR s) = Inr n"
proof -
  have n: "0 \<le> n" "n < 10 ^ 17" using assms(1) by (simp_all add: MoneyRange_def MAX_MONEY_def COIN_def)
  have "s = decimal (nat (n div COIN)) @ ''.'' @ pad_zeros 8 (decimal (nat (n mod COIN)))"
    using assms(2) n(1) by (simp add: ValueFromAmount_def Let_def)
  then show ?thesis using fixed_point_text [OF n] assms(1) by (simp add: AmountFromValue_def)
qed

theorem rpc_amount_roundtrip_witness:
  "ValueFromAmount 2500000000 = VNUM ''25.00000000'' \<and> AmountFromValue (VNUM ''25.00000000'') = Inr 2500000000"
proof -
  have v: "ValueFromAmount 2500000000 = VNUM ''25.00000000''" by code_simp
  have "MoneyRange 2500000000" by (simp add: MoneyRange_def MAX_MONEY_def COIN_def)
  then show ?thesis using rpc_amount_roundtrip [OF _ v] v by simp
qed

end
