(* ===== verification/Nickname_Memo.thy ===== *)
theory Nickname_Memo
  imports Kubu_Json
begin

unbundle bit_operations_syntax

text \<open>
  Memos of payments to nicknames: the payload with its checksum, its script and the two commands on them, in
  \<^verbatim>\<open>src/src/wallet/rpcwallet.cpp\<close>.
\<close>

subsection \<open>Types and checksum\<close>

definition KUBU_NICKNAME_MEMO_MAGIC :: "byte list" where
  "KUBU_NICKNAME_MEMO_MAGIC = map byte_of ''KMEM1''"

definition KUBU_NICKNAME_MEMO_VERSION :: byte where
  "KUBU_NICKNAME_MEMO_VERSION = 1"

definition KUBU_NICKNAME_MEMO_MAX_DATA_LEN :: nat where
  "KUBU_NICKNAME_MEMO_MAX_DATA_LEN = 48"

datatype NicknameMemoType = NUMERIC | ALNUM | UTF8

primrec memo_type_byte :: "NicknameMemoType \<Rightarrow> byte" where
  "memo_type_byte NUMERIC = 1"
| "memo_type_byte ALNUM = 2"
| "memo_type_byte UTF8 = 3"

primrec NicknameMemoTypeToString :: "NicknameMemoType \<Rightarrow> string" where
  "NicknameMemoTypeToString NUMERIC = ''numeric''"
| "NicknameMemoTypeToString ALNUM = ''alnum''"
| "NicknameMemoTypeToString UTF8 = ''utf8''"

definition ParseNicknameMemoType :: "string \<Rightarrow> NicknameMemoType option" where
  "ParseNicknameMemoType typeName =
     (let lowered = map tolower typeName in
      if lowered = ''numeric'' then Some NUMERIC
      else if lowered = ''alnum'' then Some ALNUM
      else if lowered = ''utf8'' then Some UTF8
      else None)"

definition crc_round :: "16 word \<Rightarrow> 16 word" where
  "crc_round crc = (if crc AND 0x8000 \<noteq> 0 then push_bit 1 crc XOR 0x1021 else push_bit 1 crc)"

definition crc_byte :: "16 word \<Rightarrow> byte \<Rightarrow> 16 word" where
  "crc_byte crc value = (crc_round ^^ 8) (crc XOR push_bit 8 (ucast value))"

definition ComputeCrc16Ccitt :: "byte list \<Rightarrow> 16 word" where
  "ComputeCrc16Ccitt data = foldl crc_byte 0xFFFF data"

subsection \<open>Payloads\<close>

definition invalid_parameter :: "string \<Rightarrow> rpc_exception" where
  "invalid_parameter = JSONRPCError RPC_INVALID_PARAMETER"

definition ValidateNicknameMemoDataOrThrow :: "NicknameMemoType \<Rightarrow> string \<Rightarrow> unit rpc" where
  "ValidateNicknameMemoDataOrThrow type data =
     rbind (throw_unless (data \<noteq> []) (invalid_parameter ''Memo must not be empty'')) (\<lambda>_.
     rbind (throw_unless (\<not> length data > KUBU_NICKNAME_MEMO_MAX_DATA_LEN)
       (invalid_parameter (''Memo is too long (max '' @ decimal KUBU_NICKNAME_MEMO_MAX_DATA_LEN @ '' bytes)''))) (\<lambda>_.
       case type of
         NUMERIC \<Rightarrow> throw_unless (list_all isdigit data)
           (invalid_parameter ''Numeric memo may only contain digits 0-9'')
       | ALNUM \<Rightarrow> throw_unless (list_all isalnum data)
           (invalid_parameter ''Alnum memo may only contain ASCII letters and digits'')
       | UTF8 \<Rightarrow> throw_unless (list_all (\<lambda>c. char_code c \<noteq> 0) data)
           (invalid_parameter ''UTF-8 memo cannot contain NUL bytes'')))"

definition BuildNicknameMemoPayload :: "string \<Rightarrow> NicknameMemoType \<Rightarrow> byte list rpc" where
  "BuildNicknameMemoPayload data type =
     rbind (ValidateNicknameMemoDataOrThrow type data) (\<lambda>_.
       let payload = KUBU_NICKNAME_MEMO_MAGIC @
             [KUBU_NICKNAME_MEMO_VERSION, memo_type_byte type, word_of_nat (length data)] @ map byte_of data;
           crc = ComputeCrc16Ccitt payload
       in Inr (payload @ [ucast (drop_bit 8 crc AND 0xFF), ucast (crc AND 0xFF)]))"

record NicknameMemoDecoded =
  memo_type :: NicknameMemoType
  memo_data :: string
  memo_payload :: "byte list"

definition memo_type_of_byte :: "byte \<Rightarrow> NicknameMemoType rpc" where
  "memo_type_of_byte rawType =
     (if rawType = memo_type_byte NUMERIC then Inr NUMERIC
      else if rawType = memo_type_byte ALNUM then Inr ALNUM
      else if rawType = memo_type_byte UTF8 then Inr UTF8
      else Inl (invalid_parameter ''Memo payload type is unknown''))"

definition DecodeNicknameMemoPayload :: "byte list \<Rightarrow> NicknameMemoDecoded rpc" where
  "DecodeNicknameMemoPayload payload =
     (let m = length KUBU_NICKNAME_MEMO_MAGIC;
          headerSize = m + 1 + 1 + 1;
          minPayloadSize = headerSize + 2
      in
      rbind (throw_unless (\<not> length payload < minPayloadSize) (invalid_parameter ''Memo payload is too short'')) (\<lambda>_.
      rbind (throw_unless (take m payload = KUBU_NICKNAME_MEMO_MAGIC)
        (invalid_parameter ''Memo payload magic mismatch'')) (\<lambda>_.
      rbind (throw_unless (payload ! m = KUBU_NICKNAME_MEMO_VERSION)
        (invalid_parameter ''Unsupported memo payload version'')) (\<lambda>_.
      let rawType = payload ! (m + 1);
          dataLen = unat (payload ! (m + 2)) in
      rbind (throw_unless (length payload = headerSize + dataLen + 2)
        (invalid_parameter ''Memo payload length is malformed'')) (\<lambda>_.
      let withoutCrc = take (length payload - 2) payload;
          expectedCrc = ComputeCrc16Ccitt withoutCrc;
          providedCrc = push_bit 8 (ucast (payload ! (length payload - 2))) OR ucast (payload ! (length payload - 1)) in
      rbind (throw_unless (expectedCrc = providedCrc) (invalid_parameter ''Memo payload checksum mismatch'')) (\<lambda>_.
      rbind (memo_type_of_byte rawType) (\<lambda>type.
      let data = map char_of_byte (take dataLen (drop headerSize payload)) in
      rbind (ValidateNicknameMemoDataOrThrow type data) (\<lambda>_.
        Inr \<lparr>memo_type = type, memo_data = data, memo_payload = payload\<rparr>))))))))"

subsection \<open>Scripts and commands\<close>

definition memo_script :: "byte list \<Rightarrow> CScript" where
  "memo_script payload = push_data (push_opcode [] OP_RETURN) payload"

definition ExtractNicknameMemoPayloadBytes :: "string \<Rightarrow> byte list rpc" where
  "ExtractNicknameMemoPayloadBytes inputHex =
     rbind (throw_unless (IsHex inputHex) (invalid_parameter ''Memo input must be hex'')) (\<lambda>_.
     let raw = ParseHex inputHex in
     rbind (throw_unless (raw \<noteq> []) (invalid_parameter ''Memo input must not be empty'')) (\<lambda>_.
       if raw ! 0 \<noteq> byte OP_RETURN then Inr raw
       else case GetOp2 raw of
           None \<Rightarrow> Inl (invalid_parameter ''Invalid OP_RETURN memo script'')
         | Some (opcode, _, pc) \<Rightarrow>
             if opcode \<noteq> OP_RETURN then Inl (invalid_parameter ''Invalid OP_RETURN memo script'')
             else case GetOp2 pc of
                 None \<Rightarrow> Inl (invalid_parameter ''Invalid OP_RETURN memo script'')
               | Some (opcode, pushed, pc) \<Rightarrow>
                   if pc \<noteq> [] then Inl (invalid_parameter ''Invalid OP_RETURN memo script'') else Inr pushed))"

definition memo_type_named :: "string \<Rightarrow> NicknameMemoType rpc" where
  "memo_type_named typeName =
     (case ParseNicknameMemoType typeName of
        None \<Rightarrow> Inl (invalid_parameter ''Invalid memo_type. Allowed: numeric, alnum, utf8'')
      | Some type \<Rightarrow> Inr type)"

text \<open>The script with the canonical name of its type.\<close>

definition BuildNicknameMemoScript :: "string \<Rightarrow> string \<Rightarrow> (CScript \<times> string) rpc" where
  "BuildNicknameMemoScript data typeName =
     rbind (memo_type_named typeName) (\<lambda>type.
     rbind (BuildNicknameMemoPayload data type) (\<lambda>payload.
       Inr (memo_script payload, NicknameMemoTypeToString type)))"

definition encodenicknamememo :: "bool \<Rightarrow> UniValue list \<Rightarrow> UniValue rpc" where
  "encodenicknamememo fHelp params =
     (if fHelp \<or> length params < 1 \<or> length params > 2 then Inl (Usage ''encodenicknamememo'')
      else
        rbind (get_str (params ! 0)) (\<lambda>memoData.
        rbind (if length params > 1 then get_str (params ! 1) else Inr ''utf8'') (\<lambda>memoTypeName.
        rbind (memo_type_named memoTypeName) (\<lambda>memoType.
        rbind (BuildNicknameMemoPayload memoData memoType) (\<lambda>payload.
          Inr (VOBJ
            [(''memo'', VSTR memoData),
             (''memo_type'', VSTR (NicknameMemoTypeToString memoType)),
             (''payload_hex'', VSTR (HexStr payload)),
             (''script_hex'', VSTR (HexStr (memo_script payload))),
             (''payload_bytes'', int_value (int (length payload)))]))))))"

definition decodenicknamememo :: "bool \<Rightarrow> UniValue list \<Rightarrow> UniValue rpc" where
  "decodenicknamememo fHelp params =
     (if fHelp \<or> length params \<noteq> 1 then Inl (Usage ''decodenicknamememo'')
      else
        rbind (get_str (params ! 0)) (\<lambda>input.
        rbind (ExtractNicknameMemoPayloadBytes input) (\<lambda>payload.
        rbind (DecodeNicknameMemoPayload payload) (\<lambda>decoded.
          Inr (VOBJ
            [(''memo'', VSTR (memo_data decoded)),
             (''memo_type'', VSTR (NicknameMemoTypeToString (memo_type decoded))),
             (''payload_hex'', VSTR (HexStr (memo_payload decoded))),
             (''payload_bytes'', int_value (int (length (memo_payload decoded)))),
             (''version'', int_value (int (unat KUBU_NICKNAME_MEMO_VERSION)))])))))"

subsection \<open>The checksum\<close>

lemma crc_msb: "crc AND 0x8000 \<noteq> 0 \<longleftrightarrow> bit crc 15" for crc :: "16 word"
  using and_exp_eq_0_iff_not_bit [of crc 15] by simp

lemma crc_round_bits:
  "bit (crc_round crc) n \<longleftrightarrow> (0 < n \<and> n < 16 \<and> bit crc (n - 1)) \<noteq> (bit crc 15 \<and> bit (0x1021 :: 16 word) n)"
proof -
  have p: "bit (push_bit 1 crc) n \<longleftrightarrow> 0 < n \<and> n < 16 \<and> bit crc (n - 1)"
    unfolding bit_push_bit_iff by (auto simp: Suc_le_eq)
  show ?thesis
  proof (cases "bit crc 15")
    case True
    then have "crc_round crc = push_bit 1 crc XOR 0x1021" by (simp only: crc_round_def crc_msb if_True)
    then show ?thesis using True p by (simp only: bit_xor_iff simp_thms)
  next
    case False
    then have "crc_round crc = push_bit 1 crc" by (simp only: crc_round_def crc_msb if_False)
    then show ?thesis using False p by (simp only: simp_thms)
  qed
qed

lemma xor_cancel:
  fixes a b c :: "16 word"
  shows "a XOR c = b XOR c \<longleftrightarrow> a = b" "c XOR a = c XOR b \<longleftrightarrow> a = b"
  by (metis xor.assoc xor_self_eq xor.right_neutral, metis xor.assoc xor_self_eq xor.left_neutral)

lemma crc_round_inject: "crc_round a = crc_round b \<longleftrightarrow> a = b"
proof
  assume e: "crc_round a = crc_round b"
  have "bit (crc_round c) 0 = bit c 15" for c unfolding crc_round_bits by simp
  then have top: "bit a 15 = bit b 15" using e by metis
  show "a = b"
  proof (rule bit_word_eqI)
    fix n
    assume n: "n < LENGTH(16)"
    show "bit a n = bit b n"
    proof (cases "n = 15")
      case False
      then have "Suc n < 16" using n by simp
      then show ?thesis using e top crc_round_bits [of a "Suc n"] crc_round_bits [of b "Suc n"] by auto
    qed (simp add: top)
  qed
qed simp

lemma crc_rounds_inject: "(crc_round ^^ n) a = (crc_round ^^ n) b \<longleftrightarrow> a = b"
  by (induction n arbitrary: a b) (simp_all add: crc_round_inject funpow_swap1)

lemma crc_byte_state: "crc_byte a v = crc_byte b v \<longleftrightarrow> a = b"
  by (simp add: crc_byte_def crc_rounds_inject xor_cancel)

lemma crc_byte_value: "crc_byte a v = crc_byte a w \<longleftrightarrow> v = w"
proof
  assume "crc_byte a v = crc_byte a w"
  then have "(push_bit 8 (ucast v) :: 16 word) = push_bit 8 (ucast w)" by (simp add: crc_byte_def crc_rounds_inject xor_cancel)
  then have b: "bit (push_bit 8 (ucast v :: 16 word)) n = bit (push_bit 8 (ucast w :: 16 word)) n" for n by simp
  show "v = w"
  proof (rule bit_word_eqI)
    fix n
    assume "n < LENGTH(8)"
    then show "bit v n = bit w n" using b [of "n + 8"] by (simp add: bit_simps)
  qed
qed simp

lemma crc_suffix: "foldl crc_byte a ws = foldl crc_byte b ws \<longleftrightarrow> a = b"
  by (induction ws arbitrary: a b) (simp_all add: crc_byte_state)

text \<open>A change of one byte changes the checksum.\<close>

lemma crc_one_byte:
  assumes "i < length ws" "ComputeCrc16Ccitt (ws[i := b]) = ComputeCrc16Ccitt ws"
  shows "b = ws ! i"
  using assms(2) unfolding ComputeCrc16Ccitt_def upd_conv_take_nth_drop [OF assms(1)]
  by (subst (asm) (2) id_take_nth_drop [OF assms(1)]) (simp add: crc_suffix crc_byte_value)

lemma crc_bytes:
  "crc = push_bit 8 (ucast hi) OR ucast lo \<longleftrightarrow> hi = ucast (drop_bit 8 crc AND 0xFF) \<and> lo = ucast (crc AND 0xFF)"
  for crc :: "16 word" and hi lo :: byte
proof -
  have m: "(0xFF :: 16 word) = mask 8" by (simp add: mask_eq_exp_minus_1)
  show ?thesis
  proof (intro iffI conjI)
    assume c: "crc = push_bit 8 (ucast hi) OR ucast lo"
    show "hi = ucast (drop_bit 8 crc AND 0xFF)" unfolding m c
      by (rule bit_word_eqI) (auto simp: bit_simps dest: bit_imp_le_length)
    show "lo = ucast (crc AND 0xFF)" unfolding m c by (rule bit_word_eqI) (auto simp: bit_simps)
  next
    assume h: "hi = ucast (drop_bit 8 crc AND 0xFF) \<and> lo = ucast (crc AND 0xFF)"
    show "crc = push_bit 8 (ucast hi) OR ucast lo" unfolding conjunct1 [OF h] conjunct2 [OF h] m
      by (rule bit_word_eqI) (auto simp: bit_simps)
  qed
qed

subsection \<open>Payloads and what they decode to\<close>

definition memo_header :: "NicknameMemoType \<Rightarrow> string \<Rightarrow> byte list" where
  "memo_header type data = KUBU_NICKNAME_MEMO_MAGIC @
     [KUBU_NICKNAME_MEMO_VERSION, memo_type_byte type, word_of_nat (length data)] @ map byte_of data"

lemma Build_iff:
  "BuildNicknameMemoPayload data type = Inr p \<longleftrightarrow>
     ValidateNicknameMemoDataOrThrow type data = Inr () \<and>
     (\<exists>hi lo. p = memo_header type data @ [hi, lo] \<and>
        ComputeCrc16Ccitt (memo_header type data) = push_bit 8 (ucast hi) OR ucast lo)"
  unfolding BuildNicknameMemoPayload_def memo_header_def [symmetric] Let_def rbind_Inr_iff crc_bytes by auto

lemma validated_length: "ValidateNicknameMemoDataOrThrow type data = Inr u \<Longrightarrow> 0 < length data \<and> length data \<le> 48"
  by (auto simp: ValidateNicknameMemoDataOrThrow_def rbind_throw_iff KUBU_NICKNAME_MEMO_MAX_DATA_LEN_def not_less)

lemma memo_type_byte_iff: "memo_type_of_byte b = Inr type \<longleftrightarrow> b = memo_type_byte type"
  by (cases type) (auto simp: memo_type_of_byte_def)

lemma magic_length [simp]: "length KUBU_NICKNAME_MEMO_MAGIC = 5"
  by (simp add: KUBU_NICKNAME_MEMO_MAGIC_def)

lemma split_payload:
  assumes "length p = 10 + n"
  shows "p = take 5 p @ [p ! 5, p ! 6, p ! 7] @ take n (drop 8 p) @ [p ! (8 + n), p ! (9 + n)]"
proof -
  have "drop 5 p = p ! 5 # p ! 6 # p ! 7 # drop 8 p" using assms by (simp add: Cons_nth_drop_Suc [symmetric])
  moreover have "drop (8 + n) p = [p ! (8 + n), p ! (9 + n)]" using assms by (simp add: Cons_nth_drop_Suc [symmetric])
  then have "drop 8 p = take n (drop 8 p) @ [p ! (8 + n), p ! (9 + n)]"
    by (metis add.commute append_take_drop_id drop_drop)
  ultimately show ?thesis by (metis append_Cons append_Nil append_take_drop_id)
qed

lemma Decode_Build:
  assumes "BuildNicknameMemoPayload data type = Inr p"
  shows "DecodeNicknameMemoPayload p = Inr \<lparr>memo_type = type, memo_data = data, memo_payload = p\<rparr>"
proof -
  obtain hi lo where v: "ValidateNicknameMemoDataOrThrow type data = Inr ()" and p: "p = memo_header type data @ [hi, lo]"
    and c: "ComputeCrc16Ccitt (memo_header type data) = push_bit 8 (ucast hi) OR ucast lo"
    using assms unfolding Build_iff by blast
  have n: "length data \<le> 48" using validated_length [OF v] by simp
  have h: "length (memo_header type data) = 8 + length data" by (simp add: memo_header_def)
  have b: "unat (word_of_nat (length data) :: byte) = length data" using n by (simp add: unat_of_nat)
  have e: "take 5 p = KUBU_NICKNAME_MEMO_MAGIC" "p ! 5 = KUBU_NICKNAME_MEMO_VERSION" "p ! 6 = memo_type_byte type"
    "p ! 7 = word_of_nat (length data)" "take (length data) (drop 8 p) = map byte_of data"
    by (simp_all add: p memo_header_def nth_append)
  have l: "length p = 10 + length data" "take (length p - 2) p = memo_header type data" "p ! (length p - 2) = hi"
    "p ! (length p - 1) = lo"
    by (simp_all add: p h nth_append)
  have "memo_type_of_byte (memo_type_byte type) = Inr type" by (simp add: memo_type_byte_iff)
  then show ?thesis
    unfolding DecodeNicknameMemoPayload_def Let_def magic_length l(2-4) c [symmetric]
    using e b v l(1) by (simp add: comp_def)
qed

lemma Decode_sound:
  assumes "DecodeNicknameMemoPayload p = Inr d"
  shows "memo_payload d = p" "BuildNicknameMemoPayload (memo_data d) (memo_type d) = Inr p"
proof -
  let ?n = "unat (p ! 7)"
  let ?data = "map char_of_byte (take ?n (drop 8 p))"
  have l: "length p = 10 + ?n" and e: "take 5 p = KUBU_NICKNAME_MEMO_MAGIC" "p ! 5 = KUBU_NICKNAME_MEMO_VERSION"
    and c: "ComputeCrc16Ccitt (take (length p - 2) p) = push_bit 8 (ucast (p ! (length p - 2))) OR ucast (p ! (length p - 1))"
    and t: "p ! 6 = memo_type_byte (memo_type d)" and v: "ValidateNicknameMemoDataOrThrow (memo_type d) ?data = Inr ()"
    and d: "memo_payload d = p" "memo_data d = ?data"
    using assms
    by (auto simp: DecodeNicknameMemoPayload_def Let_def rbind_throw_iff rbind_Inr_iff memo_type_byte_iff)
  show "memo_payload d = p" by (rule d)
  have len: "length ?data = ?n" using l by simp
  have "map byte_of ?data = take ?n (drop 8 p)" by (simp add: comp_def)
  then have h: "memo_header (memo_type d) ?data = take 5 p @ [p ! 5, p ! 6, p ! 7] @ take ?n (drop 8 p)"
    unfolding memo_header_def len by (simp add: e t)
  then have p: "p = memo_header (memo_type d) ?data @ [p ! (length p - 2), p ! (length p - 1)]"
    using split_payload [OF l] l by (simp add: add.commute)
  have "length (memo_header (memo_type d) ?data) = length p - 2" by (simp add: memo_header_def len l)
  then have "take (length p - 2) p = memo_header (memo_type d) ?data" by (subst p) simp
  then show "BuildNicknameMemoPayload (memo_data d) (memo_type d) = Inr p"
    unfolding Build_iff d(2) using c v p by metis
qed

lemma Decode_length: "DecodeNicknameMemoPayload p = Inr d \<Longrightarrow> length p = 10 + length (memo_data d)"
  using Decode_sound(2) [of p d] by (auto simp: Build_iff memo_header_def)

lemma memo_crc:
  assumes "DecodeNicknameMemoPayload p = Inr d"
  shows "ComputeCrc16Ccitt (take (length p - 2) p) = push_bit 8 (ucast (p ! (length p - 2))) OR ucast (p ! (length p - 1))"
  using assms by (auto simp: DecodeNicknameMemoPayload_def Let_def rbind_throw_iff rbind_Inr_iff)

lemma Extract_hex:
  assumes "BuildNicknameMemoPayload data type = Inr p"
  shows "ExtractNicknameMemoPayloadBytes (HexStr p) = Inr p" "ExtractNicknameMemoPayloadBytes (HexStr (memo_script p)) = Inr p"
proof -
  obtain hi lo where p: "p = memo_header type data @ [hi, lo]" and v: "ValidateNicknameMemoDataOrThrow type data = Inr ()"
    using assms unfolding Build_iff by blast
  have l: "length p \<le> 58" using validated_length [OF v] by (simp add: p memo_header_def)
  have "p \<noteq> []" "p ! 0 = byte_of CHR ''K''" by (simp_all add: p memo_header_def KUBU_NICKNAME_MEMO_MAGIC_def)
  moreover have "byte_of CHR ''K'' \<noteq> byte OP_RETURN" by (simp add: byte_of_def char_code_def byte_def OP_RETURN_def)
  ultimately show "ExtractNicknameMemoPayloadBytes (HexStr p) = Inr p" by (simp add: ExtractNicknameMemoPayloadBytes_def)
  have s: "memo_script p = byte OP_RETURN # push_data [] p" by (simp add: memo_script_def push_opcode_def push_data_def)
  have "GetOp2 (memo_script p) = Some (OP_RETURN, [], push_data [] p)"
    unfolding s by (rule GetOp2_opcode) (simp_all add: OP_RETURN_def OP_PUSHDATA4_def)
  moreover obtain opcode where "GetOp2 (push_data [] p) = Some (opcode, p, [])" using GetOp2_push [of p "[]"] l by auto
  ultimately show "ExtractNicknameMemoPayloadBytes (HexStr (memo_script p)) = Inr p"
    using ParseHex_HexStr [of "memo_script p"] IsHex_HexStr [of "memo_script p"]
    by (simp add: ExtractNicknameMemoPayloadBytes_def s del: HexStr_simps ParseHex_HexStr IsHex_HexStr)
qed

subsection \<open>Properties\<close>

text \<open>C13. Memo payloads are canonical: a payload decodes to a memo if and only if it is the payload that building the memo
  gives. So every memo that can be built is decoded as it was, and nothing else is taken for a memo.\<close>

theorem memo_payload_canonical:
  "DecodeNicknameMemoPayload p = Inr d \<longleftrightarrow>
     BuildNicknameMemoPayload (memo_data d) (memo_type d) = Inr p \<and> memo_payload d = p"
  using Decode_sound [of p d] Decode_Build [of "memo_data d" "memo_type d" p] by auto

text \<open>C14. A memo that was changed in one byte is never accepted: the payload of any memo, with one byte anywhere in it
  replaced by another, is rejected by the decoder.\<close>

theorem memo_corruption_detected:
  assumes "BuildNicknameMemoPayload data type = Inr p" "i < length p" "b \<noteq> p ! i"
  shows "\<exists>e. DecodeNicknameMemoPayload (p[i := b]) = Inl e"
proof (cases "DecodeNicknameMemoPayload (p[i := b])")
  case (Inr d)
  let ?k = "length p - 2"
  have c: "ComputeCrc16Ccitt (take ?k (p[i := b])) = push_bit 8 (ucast (p[i := b] ! ?k)) OR ucast (p[i := b] ! (length p - 1))"
    using memo_crc [OF Inr] by simp
  have c0: "ComputeCrc16Ccitt (take ?k p) = push_bit 8 (ucast (p ! ?k)) OR ucast (p ! (length p - 1))"
    using memo_crc [OF Decode_Build [OF assms(1)]] .
  have k: "2 \<le> length p" using Decode_length [OF Inr] by simp
  show ?thesis
  proof (cases "i < ?k")
    case True
    then have "ComputeCrc16Ccitt ((take ?k p)[i := b]) = ComputeCrc16Ccitt (take ?k p)"
      using c c0 by (simp add: take_update_swap)
    then show ?thesis using crc_one_byte [of i "take ?k p" b] True assms(3) by simp
  next
    case False
    then have "take ?k (p[i := b]) = take ?k p" by simp
    then have "p[i := b] ! ?k = p ! ?k \<and> p[i := b] ! (length p - 1) = p ! (length p - 1)"
      using c c0 unfolding crc_bytes by metis
    moreover have "i = ?k \<or> i = length p - 1" using False assms(2) by linarith
    ultimately show ?thesis using assms(2,3) by auto
  qed
qed simp

theorem memo_corruption_detected_witness:
  "\<exists>p e. BuildNicknameMemoPayload ''12345678'' NUMERIC = Inr p \<and> 9 < length p \<and> 0 \<noteq> p ! 9 \<and>
     DecodeNicknameMemoPayload (p[9 := 0]) = Inl e"
proof -
  have v: "ValidateNicknameMemoDataOrThrow NUMERIC ''12345678'' = Inr ()" by code_simp
  then obtain p where b: "BuildNicknameMemoPayload ''12345678'' NUMERIC = Inr p"
    by (simp add: BuildNicknameMemoPayload_def Let_def)
  then have "9 < length p" "0 \<noteq> p ! 9"
    by (auto simp: Build_iff memo_header_def KUBU_NICKNAME_MEMO_MAGIC_def nth_append byte_of_def char_code_def)
  then show ?thesis using memo_corruption_detected [OF b, of 9 0] b by blast
qed

text \<open>The two memo commands are inverse: what \<^verbatim>\<open>encodenicknamememo\<close> reports as the payload and as the script is
  decoded by \<^verbatim>\<open>decodenicknamememo\<close> to the memo and the type it was called with.\<close>

theorem memo_commands_roundtrip:
  assumes "encodenicknamememo False params = Inr r" "field = ''payload_hex'' \<or> field = ''script_hex''"
  shows "\<exists>hex r'. json_field r field = Some hex \<and> decodenicknamememo False [hex] = Inr r' \<and>
    json_field r' ''memo'' = json_field r ''memo'' \<and> json_field r' ''memo_type'' = json_field r ''memo_type'' \<and>
    json_field r ''memo'' = Some (params ! 0)"
proof -
  obtain memo type p where m: "get_str (params ! 0) = Inr memo" "BuildNicknameMemoPayload memo type = Inr p"
    and r: "r = VOBJ [(''memo'', VSTR memo), (''memo_type'', VSTR (NicknameMemoTypeToString type)),
      (''payload_hex'', VSTR (HexStr p)), (''script_hex'', VSTR (HexStr (memo_script p))),
      (''payload_bytes'', int_value (int (length p)))]"
    using assms(1) by (auto simp: encodenicknamememo_def rbind_Inr_iff split: if_splits)
  have p0: "params ! 0 = VSTR memo" using m(1) by (simp add: get_str_def split: UniValue.splits)
  show ?thesis using assms(2) Extract_hex [OF m(2)] Decode_Build [OF m(2)] r p0
    by (auto simp: decodenicknamememo_def get_str_def json_field_def)
qed

theorem memo_commands_roundtrip_witness:
  "\<exists>r hex r'. encodenicknamememo False [VSTR ''hello'', VSTR ''UTF8''] = Inr r \<and> json_field r ''script_hex'' = Some hex \<and>
     decodenicknamememo False [hex] = Inr r' \<and> json_field r' ''memo'' = Some (VSTR ''hello'')"
proof -
  have "ValidateNicknameMemoDataOrThrow UTF8 ''hello'' = Inr ()" "ParseNicknameMemoType ''UTF8'' = Some UTF8" by code_simp+
  then obtain r where r: "encodenicknamememo False [VSTR ''hello'', VSTR ''UTF8''] = Inr r"
    by (simp add: encodenicknamememo_def get_str_def memo_type_named_def BuildNicknameMemoPayload_def Let_def)
  then show ?thesis using memo_commands_roundtrip [OF r, of "''script_hex''"] by auto
qed

end
