(* ===== verification/Nickname_RPC.thy ===== *)
theory Nickname_RPC
  imports Nickname_Mempool Nickname_Memo
begin

text \<open>
  The commands that read the nickname index, in \<^verbatim>\<open>src/src/rpc/nicknames.cpp\<close>, and the resolution of a payee in
  \<^verbatim>\<open>src/src/wallet/rpcwallet.cpp\<close>. A command gets the flag \<^verbatim>\<open>fHelp\<close> and the parameters of the request; the node is its
  database, if there is one, and the height of its chain.
\<close>

record RpcNode =
  rn_db :: "NicknameStateDB option"
  rn_height :: int

subsection \<open>Parameters\<close>

definition DecodeCompressedPubKeyHex :: "NicknameContext \<Rightarrow> string \<Rightarrow> byte list rpc" where
  "DecodeCompressedPubKeyHex cx pubKeyHex =
     rbind (throw_unless (IsHex pubKeyHex) (JSONRPCError RPC_INVALID_PARAMETER ''Owner pubkey must be hex'')) (\<lambda>_.
     let pubKeyBytes = ParseHex pubKeyHex in
     rbind (throw_unless (length pubKeyBytes = COMPRESSED_SIZE)
       (JSONRPCError RPC_INVALID_PARAMETER ''Owner pubkey must be 33-byte compressed pubkey'')) (\<lambda>_.
     rbind (throw_unless (pubkey_usable cx pubKeyBytes)
       (JSONRPCError RPC_INVALID_PARAMETER ''Invalid compressed pubkey'')) (\<lambda>_.
       Inr (CPubKey pubKeyBytes))))"

definition ParseBondReference :: "string \<Rightarrow> COutPoint option" where
  "ParseBondReference input =
     (let separator = length (takeWhile (\<lambda>c. c \<noteq> CHR '':'') input) in
      if separator = length input \<or> separator = 0 \<or> separator + 1 \<ge> length input then None
      else
        let txidHex = take separator input;
            voutStr = drop (separator + 1) input
        in if length txidHex \<noteq> 64 \<or> \<not> IsHex txidHex then None
           else map_option (COutPoint (uint256S txidHex)) (ParseUInt32 voutStr))"

subsection \<open>Commands that read\<close>

definition with_nickname_db :: "RpcNode \<Rightarrow> (NicknameStateDB \<Rightarrow> 'a rpc) \<Rightarrow> 'a rpc" where
  "with_nickname_db rn f =
     (case rn_db rn of
        None \<Rightarrow> Inl (JSONRPCError RPC_MISC_ERROR ''Nickname index is unavailable'')
      | Some db \<Rightarrow> f db)"

definition read_info :: "NicknameStateDB \<Rightarrow> string \<Rightarrow> NicknameInfo rpc" where
  "read_info db name =
     (case ReadNickname db name of
        None \<Rightarrow> Inl (JSONRPCError RPC_INVALID_ADDRESS_OR_KEY ''Nickname not found'')
      | Some info \<Rightarrow> Inr info)"

definition NicknameInfoToJSON :: "int \<Rightarrow> NicknameInfo \<Rightarrow> UniValue" where
  "NicknameInfoToJSON currentHeight info =
     (let status = info_GetStatus info currentHeight in
      VOBJ
        ([(''nickname'', VSTR (info_nickname info)),
          (''status'', VSTR (StatusToString status)),
          (''payout_address'', VSTR (info_payoutAddress info)),
          (''owner_pubkey'', VSTR (HexStr (info_ownerPubKey info))),
          (''registration_height'', int_value (registrationHeight info)),
          (''active_until'', int_value (activeUntilHeight info)),
          (''grace_until'', int_value (graceUntilHeight info)),
          (''bond_amount'', ValueFromAmount (info_bondAmount info))] @
         (if HasBondOutpoint info
          then [(''bond_txid'', VSTR (GetHex (bondTxid info))),
                (''bond_vout'', int_value (int (unat (bondVout info))))]
          else []) @
         [(''last_update_txid'', VSTR (GetHex (lastUpdateTxid info))),
          (''released'', VBOOL (released info)),
          (''bond_claimed'', VBOOL (bondClaimed info)),
          (''claimable_bond'', VBOOL (status = BOND_CLAIMABLE))]))"

definition checknickname :: "NicknameContext \<Rightarrow> RpcNode \<Rightarrow> bool \<Rightarrow> UniValue list \<Rightarrow> UniValue rpc" where
  "checknickname cx rn fHelp params =
     (if fHelp \<or> length params \<noteq> 1 then Inl (Usage ''checknickname'')
      else rbind (get_str (params ! 0)) (\<lambda>input.
        let normalized = NormalizeNickname input;
            valid = IsValidNormalizedNickname normalized;
            mult = (case rn_db rn of
                None \<Rightarrow> DEFAULT_PRICING_MULTIPLIER_PERMILLE
              | Some db \<Rightarrow> fst (ReadPricingMultiplierPermille db));
            pricing = GetPricing (length normalized) mult
        in Inr (VOBJ
          ([(''input'', VSTR input),
            (''normalized'', VSTR normalized),
            (''valid'', VBOOL (ok valid))] @
           (case valid of Inl reason \<Rightarrow> [(''reason'', VSTR reason)] | Inr _ \<Rightarrow> []) @
           [(''pricing_multiplier_permille'', int_value mult),
            (''registration_fee'', ValueFromAmount (registrationFee pricing)),
            (''bond_amount'', ValueFromAmount (bondAmount pricing)),
            (''renewal_fee'', ValueFromAmount (GetRenewalFee (length normalized) mult)),
            (''renewal_bond_increase'', ValueFromAmount (GetRenewalBondIncrease (length normalized) mult)),
            (''active_blocks'', int_value (ActiveBlocks (cx_options cx))),
            (''grace_blocks'', int_value (GraceBlocks (cx_options cx)))]))))"

definition getnicknameinfo :: "RpcNode \<Rightarrow> bool \<Rightarrow> UniValue list \<Rightarrow> UniValue rpc" where
  "getnicknameinfo rn fHelp params =
     with_nickname_db rn (\<lambda>db.
       if fHelp \<or> length params \<noteq> 1 then Inl (Usage ''getnicknameinfo'')
       else rbind (get_str (params ! 0)) (\<lambda>name.
         rbind (read_info db name) (\<lambda>info.
           Inr (NicknameInfoToJSON (rn_height rn) info))))"

definition resolvenickname :: "RpcNode \<Rightarrow> bool \<Rightarrow> UniValue list \<Rightarrow> UniValue rpc" where
  "resolvenickname rn fHelp params =
     with_nickname_db rn (\<lambda>db.
       if fHelp \<or> length params \<noteq> 1 then Inl (Usage ''resolvenickname'')
       else rbind (get_str (params ! 0)) (\<lambda>name.
         rbind (read_info db name) (\<lambda>info.
           Inr (pushKV ''resolves'' (VBOOL (info_GetStatus info (rn_height rn) = ACTIVE))
             (NicknameInfoToJSON (rn_height rn) info)))))"

definition listnicknames :: "RpcNode \<Rightarrow> bool \<Rightarrow> UniValue list \<Rightarrow> UniValue rpc" where
  "listnicknames rn fHelp params =
     with_nickname_db rn (\<lambda>db.
       if fHelp \<or> length params > 2 then Inl (Usage ''listnicknames'')
       else
         rbind (if length params > 0 then get_str (params ! 0) else Inr []) (\<lambda>start.
         rbind (if length params > 1 then get_int (params ! 1) else Inr 50) (\<lambda>count.
         rbind (throw_unless (\<not> (count \<le> 0 \<or> count > 500))
           (JSONRPCError RPC_INVALID_PARAMETER ''Count must be between 1 and 500'')) (\<lambda>_.
           Inr (VARR (map (NicknameInfoToJSON (rn_height rn)) (ListNicknames db start (nat count))))))))"

subsection \<open>Paying to a nickname\<close>

text \<open>The address of a payee, with the normalised name.\<close>

definition ResolveActiveNicknameAddress ::
  "NicknameContext \<Rightarrow> RpcNode \<Rightarrow> string \<Rightarrow> (CBase58Data \<times> string) rpc" where
  "ResolveActiveNicknameAddress cx rn nicknameInput =
     with_nickname_db rn (\<lambda>db.
       let candidate = (if nicknameInput \<noteq> [] \<and> nicknameInput ! 0 = CHR ''@'' then drop 1 nicknameInput
             else nicknameInput);
           normalizedNickname = NormalizeNickname candidate in
       rbind (throw_unless (ok (IsValidNormalizedNickname normalizedNickname))
         (JSONRPCError RPC_INVALID_ADDRESS_OR_KEY (''Invalid KUBU address or nickname: '' @ nicknameInput))) (\<lambda>_.
       rbind (read_info db normalizedNickname) (\<lambda>info.
       rbind (throw_unless (info_GetStatus info (rn_height rn) = ACTIVE)
         (JSONRPCError RPC_INVALID_PARAMETER ''nickname is not active'')) (\<lambda>_.
       let payoutAddress = Address_of_string (cx_Hash cx) (info_payoutAddress info) in
       rbind (throw_unless (Address_IsValid (cx_prefixes cx) payoutAddress)
         (JSONRPCError RPC_MISC_ERROR ''Indexed nickname payout address is invalid'')) (\<lambda>_.
         Inr (payoutAddress, normalizedNickname))))))"

subsection \<open>Records that can be paid\<close>

text \<open>A property of records that every step of a name gives to the record it writes holds of all records of a chain.\<close>

lemma replay_records:
  assumes step: "\<And>h mult tx txundo x p r i. name_step cx h mult tx txundo x p r (Some i) \<Longrightarrow>
      ExtractNicknameOperationFromTx cx tx = Inr (Some x) \<Longrightarrow> (\<And>j. r = Some j \<Longrightarrow> Q j) \<Longrightarrow> Q i"
    and "valid_chain bs" "replay cx bs = Inr db" "get_nick db n = Some i"
  shows "Q i"
  using assms(2-)
proof (induction bs arbitrary: db n i)
  case Nil
  then show ?case by (auto simp: empty_db_def)
next
  case (Cons b bs)
  then obtain db0 where c: "replay cx bs = Inr db0" "ConnectBlock cx db0 b = Inr db" "new_block bs b" "valid_chain bs"
    by (auto simp: rbind_Inr_iff)
  then have ok: "db_ok (cx_Hash160 cx) db0" "stored_ok bs db0" using replay_ok by auto
  let ?P = "\<lambda>(past :: block_entry list) (L :: ledger). \<forall>n i. L n = Some i \<longrightarrow> Q i"
  have "map fst (bk_entries b) = bk_vtx b \<and> ?P (bk_entries b) (get_nick db)"
  proof (rule connect_run [OF ok(1) new_block_new [OF ok(2) c(3)] c(2), where P = ?P])
    show "?P [] (get_nick db0)" using Cons.IH [OF c(4,1)] by blast
  next
    fix past :: "block_entry list" and tx txundo fee rest L L' T
    assume L: "?P past L"
      and s: "tx_step cx db0 (bk_height b) (fst (ReadPricingMultiplierPermille db0)) (tx, txundo, fee) L L'"
    from s show "?P (past @ [(tx, txundo, fee)]) L'"
    proof (rule tx_stepE)
      fix x required p r
      assume a: "L' = L(op_nickname x := r)" "ExtractNicknameOperationFromTx cx tx = Inr (Some x)"
        "name_step cx (bk_height b) (fst (ReadPricingMultiplierPermille db0)) tx txundo x p (L (op_nickname x)) r"
      have "Q i" if "r = Some i" for i using step [OF a(3) [unfolded that] a(2)] L by blast
      then show ?thesis using L a(1) by simp
    qed (use L in blast)
  qed
  then show ?case using Cons.prems(3) by blast
qed

lemma Parse_sendable:
  assumes "prefixes_ok (cx_prefixes cx)" "ParseNicknameOpScript cx script = Inr (Some y)"
  shows "sendable (cx_Hash cx) (cx_prefixes cx) y"
  using assms Extract_sound [of "cx_prefixes cx" "cx_Hash cx" script y]
  by (auto simp: ParseNicknameOpScript_def split: option.splits if_splits sum.splits)

lemma extract_sendable:
  assumes "prefixes_ok (cx_prefixes cx)" "ExtractNicknameOperationFromTx cx tx = Inr (Some y)"
  shows "sendable (cx_Hash cx) (cx_prefixes cx) y"
proof -
  have "found = Some y \<or> sendable (cx_Hash cx) (cx_prefixes cx) y"
    if "extract_from_outputs cx found outs = Inr (Some y)" for found outs
    using that
  proof (induction outs arbitrary: found)
    case (Cons out outs)
    then obtain c where c: "ParseNicknameOpScript cx (scriptPubKey out) = Inr c" by (auto simp: rbind_Inr_iff)
    then show ?case using Cons.prems Cons.IH Parse_sendable [OF assms(1), of "scriptPubKey out"]
      by (cases c) (force split: if_splits)+
  qed simp
  from this [of None "vout tx"] show ?thesis using assms(2) by (simp add: ExtractNicknameOperationFromTx_def)
qed

text \<open>A record with a valid name, a key that can sign and an address that can be paid.\<close>

definition payable :: "NicknameContext \<Rightarrow> NicknameInfo \<Rightarrow> bool" where
  "payable cx i \<longleftrightarrow> valid_nickname (info_nickname i) \<and> pubkey_usable cx (info_ownerPubKey i) \<and>
     address_dest (cx_Hash cx) (cx_prefixes cx) (info_payoutAddress i) \<noteq> CNoDestination"

lemma name_step_payable:
  assumes "name_step cx h mult tx txundo x p r (Some i)" "sendable (cx_Hash cx) (cx_prefixes cx) x" "operation_ok x" "\<And>j. r = Some j \<Longrightarrow> payable cx j"
  shows "payable cx i"
  using assms(1)
  by (cases rule: name_step.cases)
    (use assms(2-) in \<open>auto simp: payable_def sendable_def pays_def operation_ok_def authorized_def owner_spends_def\<close>)

lemma node_payable:
  assumes "node cx bs db" "prefixes_ok (cx_prefixes cx)" "get_nick db n = Some i"
  shows "payable cx i"
proof (rule replay_records [where Q = "payable cx" and cx = cx and bs = bs and db = "db\<lparr>db_ready := None\<rparr>" and n = n])
  show "valid_chain bs" "replay cx bs = Inr (db\<lparr>db_ready := None\<rparr>)" using node_replay [OF assms(1)] by simp_all
  show "get_nick (db\<lparr>db_ready := None\<rparr>) n = Some i" using assms(3) by simp
qed (rule name_step_payable [OF _ extract_sendable [OF assms(2)] ExtractFromTx_ok])

lemma valid_first: "valid_nickname n \<Longrightarrow> n \<noteq> [] \<and> n ! 0 \<noteq> CHR ''@''"
  using valid_nickname_length [of n]
  by (cases n) (auto simp: valid_nickname_iff IsAllowedChar_def IsAsciiLowerLetter_def IsAsciiDigit_def char_code_def)

lemma GetHex_plain: "CHR '':'' \<notin> set (GetHex h)"
proof
  assume "CHR '':'' \<in> set (GetHex h)"
  then have "0 \<le> HexDigit (CHR '':'')" using HexStr_digits [of "rev (blob_bytes h)"] by (auto simp: GetHex_eq list_all_iff)
  then show False by (simp add: HexDigit_def char_code_def)
qed

lemma resolve_active:
  assumes "node cx bs db" "prefixes_ok (cx_prefixes cx)" "rn_db rn = Some db"
    and "get_nick db n = Some info" "info_GetStatus info (rn_height rn) = ACTIVE"
  shows "\<exists>a. ResolveActiveNicknameAddress cx rn n = Inr (a, n) \<and> ResolveActiveNicknameAddress cx rn (CHR ''@'' # n) = Inr (a, n) \<and>
    Address_Get (cx_prefixes cx) a = address_dest (cx_Hash cx) (cx_prefixes cx) (info_payoutAddress info) \<and>
    Address_Get (cx_prefixes cx) a \<noteq> CNoDestination"
proof -
  have p: "payable cx info" using node_payable [OF assms(1,2,4)] .
  have n: "info_nickname info = n" using node_ok(1) [OF assms(1)] assms(4) by (simp add: db_ok_def records_ok_def)
  then have v: "valid_nickname n" using p by (simp add: payable_def)
  then have c: "n \<noteq> []" "n ! 0 \<noteq> CHR ''@''" using valid_first [of n] by auto
  let ?a = "Address_of_string (cx_Hash cx) (info_payoutAddress info)"
  have a: "Address_IsValid (cx_prefixes cx) ?a" using p by (auto simp: payable_def address_dest_def Address_Get_def split: if_splits)
  show ?thesis using p v c a assms(3-5)
    by (intro exI [of _ ?a]) (simp add: ResolveActiveNicknameAddress_def with_nickname_db_def read_info_def ReadNickname_def NormalizeKeyName_def
        address_dest_def payable_def Let_def)
qed

subsection \<open>Properties\<close>

text \<open>C11. An active name can always be paid: on the database of any node, a name whose record is active resolves, with or without the at
  sign before it, to the destination that its payout address stands for, and that is a real destination. The check of the
  indexed address cannot fail, since every record was written by an operation whose address was decoded.\<close>

theorem active_name_resolves:
  assumes "node cx bs db" "prefixes_ok (cx_prefixes cx)" "rn_db rn = Some db"
    and "get_nick db n = Some info" "info_GetStatus info (rn_height rn) = ACTIVE"
  shows "\<exists>a. ResolveActiveNicknameAddress cx rn n = Inr (a, n) \<and> ResolveActiveNicknameAddress cx rn (CHR ''@'' # n) = Inr (a, n) \<and>
    Address_Get (cx_prefixes cx) a = address_dest (cx_Hash cx) (cx_prefixes cx) (info_payoutAddress info) \<and>
    Address_Get (cx_prefixes cx) a \<noteq> CNoDestination"
  using assms by (rule resolve_active)

theorem active_name_resolves_witness:
  "\<exists>db a. node example_context [first_block] db \<and>
     ResolveActiveNicknameAddress example_context \<lparr>rn_db = Some db, rn_height = 2\<rparr> ''@alice_7'' = Inr (a, ''alice_7'') \<and>
     Address_Get main_prefixes a \<noteq> CNoDestination"
proof -
  obtain db1 where n: "node example_context [first_block] db1" "get_nick db1 ''alice_7'' = Some alice_record" using example_run .
  have "prefixes_ok (cx_prefixes example_context)" using prefixes_ok_networks by (simp add: example_context_def)
  from active_name_resolves [OF n(1) this _ n(2), of "\<lparr>rn_db = Some db1, rn_height = 2\<rparr>"] alice_bond(4) n(1) show ?thesis
    by (auto simp: example_context_def)
qed

text \<open>A bond reference is read back: the text of a transaction hash and of an output number, joined by a colon, is the outpoint it
  was made from.\<close>

theorem bond_reference_roundtrip:
  "ParseBondReference (GetHex h @ '':'' @ decimal (unat n)) = Some (COutPoint h n)"
proof -
  have t: "takeWhile (\<lambda>c. c \<noteq> CHR '':'') (GetHex h @ '':'' @ decimal (unat n)) = GetHex h"
    using GetHex_plain [of h] by (subst takeWhile_append2) auto
  have "blob_bytes h \<noteq> []" using length_GetHex [of h] by (auto simp: GetHex_eq simp del: length_GetHex)
  then have "IsHex (GetHex h)" by (simp add: GetHex_eq)
  moreover have "decimal (unat n) \<noteq> []" using decimal_text [of "unat n"] by simp
  ultimately show ?thesis unfolding ParseBondReference_def t by (simp add: Let_def)
qed

end
