(* ===== verification/Nickname_Send.thy ===== *)
theory Nickname_Send
  imports Nickname_RPC
begin

text \<open>
  The commands that send: \<^verbatim>\<open>SendNicknameOperationTx\<close> and the six nickname commands of \<^verbatim>\<open>src/src/rpc/nicknames.cpp\<close>, and
  \<^verbatim>\<open>sendtonickname\<close> of \<^verbatim>\<open>src/src/wallet/rpcwallet.cpp\<close>. The wallet is its set of locked coins and a part of
  type \<^verbatim>\<open>'w\<close> that only the operations of \<^verbatim>\<open>WalletOps\<close> read and change: coin selection, keys, the transactions
  of the wallet. Those operations are an argument, and every theorem holds for all of them. A
  call gives its result or exception together with the wallet it leaves, since the scoped objects of the source also
  act when an exception passes.
\<close>

subsection \<open>The wallet\<close>

record 'w RpcWallet =
  setLockedCoins :: "COutPoint set"
  w_inner :: 'w

record COutput =
  co_outpoint :: COutPoint
  co_txout :: CTxOut
  fSpendable :: bool

record CRecipient =
  rc_scriptPubKey :: CScript
  rc_nAmount :: CAmount
  fSubtractFeeFromAmount :: bool

text \<open>The fields that the commands set.\<close>

record CCoinControl =
  fAllowOtherInputs :: bool
  nMinimumTotalFee :: CAmount
  setSelected :: "COutPoint set"

definition null_coin_control :: CCoinControl where
  "null_coin_control = \<lparr>fAllowOtherInputs = False, nMinimumTotalFee = 0, setSelected = {}\<rparr>"

definition Select :: "COutPoint \<Rightarrow> CCoinControl \<Rightarrow> CCoinControl" where
  "Select output cc = cc\<lparr>setSelected := insert output (setSelected cc)\<rparr>"

text \<open>\<^verbatim>\<open>CommitTransaction\<close> returns false, or true with the state of the validation: the reason, if it is not valid.\<close>

datatype commit_result = Not_committed string | Committed "string option"

type_synonym map_value = "(string \<times> string) list"

text \<open>
  \<^verbatim>\<open>wo_coins\<close> are the outputs that \<^verbatim>\<open>AvailableCoins\<close> goes through before it looks at the locks; \<^verbatim>\<open>wo_inactive\<close> tells that a
  transaction is in the wallet, unconfirmed, not in the mempool and not abandoned. \<^verbatim>\<open>wo_CreateTransaction\<close> gives the
  transaction, or the error with the fee that would have been required.
\<close>

record 'w WalletOps =
  wo_coins :: "'w \<Rightarrow> COutput list"
  wo_IsLocked :: "'w \<Rightarrow> bool"
  wo_HaveKey :: "'w \<Rightarrow> uint160 \<Rightarrow> bool"
  wo_GetBalance :: "'w \<Rightarrow> CAmount"
  wo_p2p_missing :: "'w \<Rightarrow> bool"
  wo_GetSpendsForOutpoint :: "'w \<Rightarrow> COutPoint \<Rightarrow> uint256 list"
  wo_inactive :: "'w \<Rightarrow> uint256 \<Rightarrow> bool"
  wo_AbandonTransaction :: "'w \<Rightarrow> uint256 \<Rightarrow> bool \<times> 'w"
  wo_CreateTransaction :: "'w RpcWallet \<Rightarrow> CRecipient list \<Rightarrow> CCoinControl option \<Rightarrow> (string \<times> CAmount + CTransaction) \<times> 'w"
  wo_CommitTransaction :: "'w \<Rightarrow> map_value \<Rightarrow> CTransaction \<Rightarrow> commit_result \<times> 'w"

definition LockCoin :: "COutPoint \<Rightarrow> 'w RpcWallet \<Rightarrow> 'w RpcWallet" where
  "LockCoin output w = w\<lparr>setLockedCoins := insert output (setLockedCoins w)\<rparr>"

definition UnlockCoin :: "COutPoint \<Rightarrow> 'w RpcWallet \<Rightarrow> 'w RpcWallet" where
  "UnlockCoin output w = w\<lparr>setLockedCoins := setLockedCoins w - {output}\<rparr>"

definition IsLockedCoin :: "'w RpcWallet \<Rightarrow> COutPoint \<Rightarrow> bool" where
  "IsLockedCoin w outpt \<longleftrightarrow> outpt \<in> setLockedCoins w"

definition AvailableCoins :: "'w WalletOps \<Rightarrow> 'w RpcWallet \<Rightarrow> COutput list" where
  "AvailableCoins ops w = filter (\<lambda>output. \<not> IsLockedCoin w (co_outpoint output)) (wo_coins ops (w_inner w))"

subsection \<open>Helpers of the commands\<close>

definition DecodeOwnedPubKeyHex :: "'w WalletOps \<Rightarrow> NicknameContext \<Rightarrow> 'w RpcWallet \<Rightarrow> string \<Rightarrow> byte list rpc" where
  "DecodeOwnedPubKeyHex ops cx w pubKeyHex =
     rbind (DecodeCompressedPubKeyHex cx pubKeyHex) (\<lambda>pubKey.
     rbind (throw_unless (wo_HaveKey ops (w_inner w) (PubKey_GetID (cx_Hash160 cx) pubKey))
       (JSONRPCError RPC_WALLET_ERROR ''Wallet does not have private key for owner pubkey'')) (\<lambda>_.
       Inr pubKey))"

definition SelectOwnerInput ::
  "'w WalletOps \<Rightarrow> NicknameContext \<Rightarrow> 'w RpcWallet \<Rightarrow> byte list \<Rightarrow> CCoinControl \<Rightarrow> COutPoint set \<Rightarrow> CCoinControl option" where
  "SelectOwnerInput ops cx w ownerKey coinControl forbiddenInputs =
     map_option (\<lambda>output. Select (co_outpoint output) coinControl)
       (find (\<lambda>output. fSpendable output \<and> co_outpoint output \<notin> forbiddenInputs \<and>
            scriptPubKey (co_txout output) \<in> set (owner_scripts cx ownerKey))
          (AvailableCoins ops w))"

definition CollectSpendableTrackedBondOutpoints :: "'w WalletOps \<Rightarrow> RpcNode \<Rightarrow> 'w RpcWallet \<Rightarrow> COutPoint set" where
  "CollectSpendableTrackedBondOutpoints ops rn w =
     (case rn_db rn of
        None \<Rightarrow> {}
      | Some db \<Rightarrow>
          set (filter (\<lambda>outpoint. ReadNicknameByBondOutpoint db outpoint \<noteq> None)
            (map co_outpoint (filter fSpendable (AvailableCoins ops w)))))"

fun abandon_spenders :: "'w WalletOps \<Rightarrow> uint256 list \<Rightarrow> bool \<times> 'w \<Rightarrow> bool \<times> 'w" where
  "abandon_spenders ops [] s = s"
| "abandon_spenders ops (txid # spenders) (abandonedAny, i) =
     (if \<not> wo_inactive ops i txid then abandon_spenders ops spenders (abandonedAny, i)
      else case wo_AbandonTransaction ops i txid of
          (ab, i) \<Rightarrow> abandon_spenders ops spenders (ab \<or> abandonedAny, i))"

definition TryAbandonInactiveWalletSpenders :: "'w WalletOps \<Rightarrow> COutPoint \<Rightarrow> 'w RpcWallet \<Rightarrow> bool \<times> 'w RpcWallet" where
  "TryAbandonInactiveWalletSpenders ops outpoint w =
     (case abandon_spenders ops (wo_GetSpendsForOutpoint ops (w_inner w) outpoint) (False, w_inner w) of
        (ab, i) \<Rightarrow> (ab, w\<lparr>w_inner := i\<rparr>))"

text \<open>The loop over the missing outpoints.\<close>

fun abandon_missing :: "'w WalletOps \<Rightarrow> COutPoint list \<Rightarrow> bool \<times> 'w RpcWallet \<Rightarrow> bool \<times> 'w RpcWallet" where
  "abandon_missing ops [] s = s"
| "abandon_missing ops (missingOutpoint # rest) (abandonedAny, w) =
     (case TryAbandonInactiveWalletSpenders ops missingOutpoint w of
        (ab, w) \<Rightarrow> abandon_missing ops rest (ab \<or> abandonedAny, w))"

text \<open>
  The two scopes. A \<^verbatim>\<open>ScopedCoinLocker\<close> locks what is not locked yet and at its end, with or without an exception,
  unlocks what it locked. A \<^verbatim>\<open>ScopedCoinRelocker\<close> locks again, at an end that \<^verbatim>\<open>Release\<close> was not called before, what was
  unlocked within it; it is released by the last statement only.
\<close>

type_synonym ('w, 'a) wallet_call = "'w RpcWallet \<Rightarrow> 'a rpc \<times> 'w RpcWallet"

definition ScopedCoinLocker :: "COutPoint set \<Rightarrow> ('w, 'a) wallet_call \<Rightarrow> ('w, 'a) wallet_call" where
  "ScopedCoinLocker outpoints body w =
     (let lockedByScope = {outpoint \<in> outpoints. \<not> IsLockedCoin w outpoint};
          (r, w') = body (w\<lparr>setLockedCoins := setLockedCoins w \<union> lockedByScope\<rparr>)
      in (r, w'\<lparr>setLockedCoins := setLockedCoins w' - lockedByScope\<rparr>))"

definition ScopedCoinRelocker :: "COutPoint list \<Rightarrow> ('w, 'a) wallet_call \<Rightarrow> ('w, 'a) wallet_call" where
  "ScopedCoinRelocker outpoints body w =
     (let unlockedByScope = filter (IsLockedCoin w) outpoints;
          (r, w') = body (fold UnlockCoin unlockedByScope w)
      in case r of
           Inl e \<Rightarrow> (Inl e, fold (\<lambda>outpoint w. if \<not> IsLockedCoin w outpoint then LockCoin outpoint w else w) unlockedByScope w')
         | Inr x \<Rightarrow> (Inr x, w'))"

definition LockSpendableTrackedBondOutpoints :: "'w WalletOps \<Rightarrow> RpcNode \<Rightarrow> 'w RpcWallet \<Rightarrow> 'w RpcWallet" where
  "LockSpendableTrackedBondOutpoints ops rn w =
     w\<lparr>setLockedCoins := setLockedCoins w \<union> CollectSpendableTrackedBondOutpoints ops rn w\<rparr>"

definition rpc_multiplier :: "RpcNode \<Rightarrow> int" where
  "rpc_multiplier rn =
     (case rn_db rn of
        None \<Rightarrow> DEFAULT_PRICING_MULTIPLIER_PERMILLE
      | Some db \<Rightarrow> fst (ReadPricingMultiplierPermille db))"

definition GetRequiredNicknameFeeForRPC :: "RpcNode \<Rightarrow> NicknameOperation \<Rightarrow> CAmount" where
  "GetRequiredNicknameFeeForRPC rn operation =
     (case op_type operation of
        REGISTER \<Rightarrow> registrationFee (GetPricing (length (op_nickname operation)) (rpc_multiplier rn))
      | _ \<Rightarrow> 0)"

fun NicknameOperationTypeToLabel :: "NicknameOpType \<Rightarrow> string" where
  "NicknameOperationTypeToLabel REGISTER = ''register''"
| "NicknameOperationTypeToLabel UPDATE = ''update''"
| "NicknameOperationTypeToLabel TRANSFER = ''transfer''"
| "NicknameOperationTypeToLabel RENEW = ''renew''"
| "NicknameOperationTypeToLabel RELEASE = ''release''"
| "NicknameOperationTypeToLabel CLAIM_BOND = ''claim_bond''"
| "NicknameOperationTypeToLabel NONE = []"
| "NicknameOperationTypeToLabel (UNNAMED b) = []"

subsection \<open>Sending an operation\<close>

text \<open>What the first part of \<^verbatim>\<open>SendNicknameOperationTx\<close> decides: the outputs, the inputs, the new bond if there is one.\<close>

record SendPlan =
  vecSend :: "CRecipient list"
  requiredInputs :: "COutPoint list"
  createdBond :: "CTxOut option"

definition bond_plan :: "CScript \<Rightarrow> COutPoint list \<Rightarrow> CScript \<Rightarrow> CAmount \<Rightarrow> SendPlan" where
  "bond_plan opScript required bondScript amount =
     \<lparr>vecSend = [\<lparr>rc_scriptPubKey = opScript, rc_nAmount = 0, fSubtractFeeFromAmount = False\<rparr>,
        \<lparr>rc_scriptPubKey = bondScript, rc_nAmount = amount, fSubtractFeeFromAmount = False\<rparr>],
      requiredInputs = required, createdBond = Some \<lparr>nValue = amount, scriptPubKey = bondScript\<rparr>\<rparr>"

definition plain_plan :: "CScript \<Rightarrow> COutPoint list \<Rightarrow> SendPlan" where
  "plain_plan opScript required =
     \<lparr>vecSend = [\<lparr>rc_scriptPubKey = opScript, rc_nAmount = 0, fSubtractFeeFromAmount = False\<rparr>],
      requiredInputs = required, createdBond = None\<rparr>"

definition active_bond :: "NicknameInfo option \<Rightarrow> (NicknameInfo \<Rightarrow> 'a rpc) \<Rightarrow> 'a rpc" where
  "active_bond currentInfo f =
     (case currentInfo of
        None \<Rightarrow> Inl (JSONRPCError RPC_WALLET_ERROR ''Indexed nickname has no active bond UTXO'')
      | Some info \<Rightarrow>
          rbind (throw_unless (HasBondOutpoint info)
            (JSONRPCError RPC_WALLET_ERROR ''Indexed nickname has no active bond UTXO'')) (\<lambda>_.
          rbind (throw_unless (\<not> info_bondAmount info \<le> 0)
            (JSONRPCError RPC_WALLET_ERROR ''Indexed nickname bond amount is invalid'')) (\<lambda>_.
            f info)))"

definition send_plan ::
  "NicknameContext \<Rightarrow> RpcNode \<Rightarrow> NicknameOperation \<Rightarrow> byte list \<Rightarrow> NicknameInfo option \<Rightarrow> COutPoint option \<Rightarrow> SendPlan rpc" where
  "send_plan cx rn operation ownerKey currentInfo explicitClaimOutpoint =
     (case BuildNicknameOpScript (cx_Hash cx) (cx_prefixes cx) operation of
        Inl encodeReason \<Rightarrow>
          Inl (JSONRPCError RPC_INVALID_PARAMETER (''Failed to encode nickname operation: '' @ encodeReason))
      | Inr opScript \<Rightarrow>
          (case op_type operation of
             REGISTER \<Rightarrow>
               Inr (bond_plan opScript [] (GetScriptForRawPubKey ownerKey)
                 (bondAmount (GetPricing (length (op_nickname operation)) (rpc_multiplier rn))))
           | TRANSFER \<Rightarrow>
               active_bond currentInfo (\<lambda>info.
               rbind (throw_unless (length (newOwnerPubKey operation) = COMPRESSED_SIZE)
                 (JSONRPCError RPC_INVALID_PARAMETER ''New owner pubkey must be 33-byte compressed pubkey'')) (\<lambda>_.
               rbind (throw_unless (pubkey_usable cx (newOwnerPubKey operation))
                 (JSONRPCError RPC_INVALID_PARAMETER ''Invalid new owner compressed pubkey'')) (\<lambda>_.
                 Inr (bond_plan opScript [GetBondOutpoint info]
                   (GetScriptForRawPubKey (CPubKey (newOwnerPubKey operation))) (info_bondAmount info)))))
           | RENEW \<Rightarrow>
               active_bond currentInfo (\<lambda>info.
               let renewalBondIncrease = GetRenewalBondIncrease (length (op_nickname operation)) (rpc_multiplier rn) in
               rbind (throw_unless (\<not> (renewalBondIncrease < 0 \<or> info_bondAmount info > MAX_MONEY - renewalBondIncrease))
                 (JSONRPCError RPC_WALLET_ERROR ''Renewed bond amount overflow'')) (\<lambda>_.
                 Inr (bond_plan opScript [GetBondOutpoint info] (GetScriptForRawPubKey ownerKey)
                   (info_bondAmount info + renewalBondIncrease))))
           | CLAIM_BOND \<Rightarrow>
               (case explicitClaimOutpoint of
                  Some outpoint \<Rightarrow> Inr (plain_plan opScript [outpoint])
                | None \<Rightarrow>
                    (case currentInfo of
                       None \<Rightarrow> Inl (JSONRPCError RPC_WALLET_ERROR ''Indexed nickname has no claimable bond UTXO'')
                     | Some info \<Rightarrow>
                         rbind (throw_unless (HasBondOutpoint info)
                           (JSONRPCError RPC_WALLET_ERROR ''Indexed nickname has no claimable bond UTXO'')) (\<lambda>_.
                           Inr (plain_plan opScript [GetBondOutpoint info]))))
           | _ \<Rightarrow> Inr (plain_plan opScript [])))"

text \<open>The loop that locks the first output equal to the new bond.\<close>

fun lock_created :: "uint256 \<Rightarrow> CTxOut \<Rightarrow> 32 word \<Rightarrow> CTxOut list \<Rightarrow> 'w RpcWallet \<Rightarrow> 'w RpcWallet" where
  "lock_created txid bond n [] w = w"
| "lock_created txid bond n (out # outs) w =
     (if nValue out \<noteq> nValue bond \<or> scriptPubKey out \<noteq> scriptPubKey bond
      then lock_created txid bond (n + 1) outs w
      else if \<not> IsLockedCoin w (COutPoint txid n) then LockCoin (COutPoint txid n) w
      else w)"

definition tx_rejected :: "string \<Rightarrow> 'a rpc" where
  "tx_rejected reason = Inl (JSONRPCError RPC_WALLET_ERROR (''Transaction rejected: '' @ reason))"

text \<open>What is noted with the transaction in the wallet.\<close>

definition send_values :: "NicknameOperation \<Rightarrow> map_value" where
  "send_values operation =
     (let label = NicknameOperationTypeToLabel (op_type operation) in
      (if label \<noteq> [] then [(''nickname_op'', label)] else []) @
      (if op_nickname operation \<noteq> [] then [(''nickname'', op_nickname operation)] else []))"

text \<open>From the commit to the end.\<close>

definition send_committed ::
  "'w WalletOps \<Rightarrow> RpcNode \<Rightarrow> NicknameOperation \<Rightarrow> SendPlan \<Rightarrow> CTransaction \<Rightarrow> ('w, string) wallet_call" where
  "send_committed ops rn operation plan tx w =
     (let (committed, i) = wo_CommitTransaction ops (w_inner w) (send_values operation) tx;
          w = w\<lparr>w_inner := i\<rparr>
      in case committed of
           Not_committed reason \<Rightarrow> (tx_rejected reason, w)
         | Committed (Some reason) \<Rightarrow>
             (tx_rejected (if reason = [] then ''unknown reason'' else reason),
              if wo_inactive ops i (tx_hash tx) then w\<lparr>w_inner := snd (wo_AbandonTransaction ops i (tx_hash tx))\<rparr> else w)
         | Committed None \<Rightarrow>
             (Inr (GetHex (tx_hash tx)),
              LockSpendableTrackedBondOutpoints ops rn
                (case createdBond plan of
                   None \<Rightarrow> w
                 | Some bond \<Rightarrow> lock_created (tx_hash tx) bond 0 (vout tx) w)))"

text \<open>From the creation of the transaction, within the scope that locks the other bonds.\<close>

definition send_created ::
  "'w WalletOps \<Rightarrow> RpcNode \<Rightarrow> NicknameOperation \<Rightarrow> SendPlan \<Rightarrow> CCoinControl \<Rightarrow> COutPoint set \<Rightarrow> ('w, string) wallet_call" where
  "send_created ops rn operation plan coinControl forbidden w =
     (let (created, i) = wo_CreateTransaction ops w (vecSend plan) (Some coinControl);
          w = w\<lparr>w_inner := i\<rparr>
      in case created of
           Inl (createError, _) \<Rightarrow> (Inl (JSONRPCError RPC_WALLET_ERROR createError), w)
         | Inr tx \<Rightarrow>
             if list_ex (\<lambda>txin. prevout txin \<in> forbidden) (vin tx)
             then (Inl (JSONRPCError RPC_WALLET_ERROR
                     ''Wallet selected a protected nickname bond input; retry with different UTXOs''), w)
             else send_committed ops rn operation plan tx w)"

text \<open>From the bonds the wallet can spend to the owner's input, within the scope that locks the required bonds again.\<close>

definition owner_input ::
  "'w WalletOps \<Rightarrow> NicknameContext \<Rightarrow> NicknameOperation \<Rightarrow> byte list \<Rightarrow> COutPoint set \<Rightarrow> 'w RpcWallet \<Rightarrow> CCoinControl \<Rightarrow>
   CCoinControl option" where
  "owner_input ops cx operation ownerKey forbidden w coinControl =
     (if op_type operation \<noteq> TRANSFER \<and> op_type operation \<noteq> RENEW \<and> op_type operation \<noteq> CLAIM_BOND
      then SelectOwnerInput ops cx w ownerKey coinControl forbidden
      else Some coinControl)"

definition send_selected ::
  "'w WalletOps \<Rightarrow> NicknameContext \<Rightarrow> RpcNode \<Rightarrow> NicknameOperation \<Rightarrow> byte list \<Rightarrow> SendPlan \<Rightarrow> ('w, string) wallet_call" where
  "send_selected ops cx rn operation ownerKey plan w =
     (let required = requiredInputs plan;
          spendable = CollectSpendableTrackedBondOutpoints ops rn w;
          (abandonedAny, w) = abandon_missing ops (filter (\<lambda>outpoint. outpoint \<notin> spendable) required) (False, w);
          spendable = (if abandonedAny then CollectSpendableTrackedBondOutpoints ops rn w else spendable);
          forbidden = spendable - set required;
          coinControl = fold Select required
            (null_coin_control\<lparr>fAllowOtherInputs := True, nMinimumTotalFee := GetRequiredNicknameFeeForRPC rn operation\<rparr>)
      in if \<not> list_all (\<lambda>outpoint. outpoint \<in> spendable) required
         then (Inl (JSONRPCError RPC_WALLET_ERROR ''Required nickname bond UTXO is not spendable by this wallet''), w)
         else case owner_input ops cx operation ownerKey forbidden w coinControl of
             None \<Rightarrow> (Inl (JSONRPCError RPC_WALLET_ERROR ''No spendable wallet UTXO found for nickname owner pubkey''), w)
           | Some coinControl \<Rightarrow>
               ScopedCoinLocker forbidden (send_created ops rn operation plan coinControl forbidden) w)"

definition SendNicknameOperationTx ::
  "'w WalletOps \<Rightarrow> NicknameContext \<Rightarrow> RpcNode \<Rightarrow> NicknameOperation \<Rightarrow> byte list \<Rightarrow> NicknameInfo option \<Rightarrow> COutPoint option \<Rightarrow>
   ('w, string) wallet_call" where
  "SendNicknameOperationTx ops cx rn operation ownerKey currentInfo explicitClaimOutpoint w =
     (if wo_p2p_missing ops (w_inner w)
      then (Inl (JSONRPCError RPC_CLIENT_P2P_DISABLED ''Error: Peer-to-peer functionality missing or disabled''), w)
      else case send_plan cx rn operation ownerKey currentInfo explicitClaimOutpoint of
          Inl e \<Rightarrow> (Inl e, w)
        | Inr plan \<Rightarrow>
            ScopedCoinRelocker (requiredInputs plan) (send_selected ops cx rn operation ownerKey plan) w)"

subsection \<open>The nickname commands\<close>

text \<open>
  The head that the six commands share: the index, the wallet, the help text, the passphrase. The wallet is absent
  when \<^verbatim>\<open>pwalletMain\<close> is null.
\<close>

definition wallet_command ::
  "'w WalletOps \<Rightarrow> RpcNode \<Rightarrow> string \<Rightarrow> nat \<Rightarrow> bool \<Rightarrow> UniValue list \<Rightarrow> (NicknameStateDB \<Rightarrow> ('w, string) wallet_call) \<Rightarrow>
   'w RpcWallet option \<Rightarrow> UniValue rpc \<times> 'w RpcWallet option" where
  "wallet_command ops rn name count fHelp params body pwalletMain =
     (case rn_db rn of
        None \<Rightarrow> (Inl (JSONRPCError RPC_MISC_ERROR ''Nickname index is unavailable''), pwalletMain)
      | Some db \<Rightarrow>
          (case pwalletMain of
             None \<Rightarrow>
               (if \<not> fHelp then Inl (JSONRPCError RPC_METHOD_NOT_FOUND ''Method not found (wallet support is disabled)'')
                else Inr VNULL, None)
           | Some w \<Rightarrow>
               if fHelp \<or> length params \<noteq> count then (Inl (Usage name), Some w)
               else if wo_IsLocked ops (w_inner w) then
                 (Inl (JSONRPCError RPC_WALLET_UNLOCK_NEEDED
                    ''Error: Please enter the wallet passphrase with walletpassphrase first.''), Some w)
               else case body db w of (r, w') \<Rightarrow> (rbind r (\<lambda>txid. Inr (VSTR txid)), Some w')))"

text \<open>A check that reads the wallet, followed by a call.\<close>

definition checked :: "'a rpc \<Rightarrow> ('a \<Rightarrow> ('w, 'b) wallet_call) \<Rightarrow> ('w, 'b) wallet_call" where
  "checked r f w = (case r of Inl e \<Rightarrow> (Inl e, w) | Inr x \<Rightarrow> f x w)"

definition registernickname ::
  "'w WalletOps \<Rightarrow> NicknameContext \<Rightarrow> RpcNode \<Rightarrow> bool \<Rightarrow> UniValue list \<Rightarrow> 'w RpcWallet option \<Rightarrow> UniValue rpc \<times> 'w RpcWallet option" where
  "registernickname ops cx rn fHelp params =
     wallet_command ops rn ''registernickname'' 3 fHelp params (\<lambda>db w.
       checked (rbind (get_str (params ! 0)) (\<lambda>name.
                rbind (get_str (params ! 2)) (\<lambda>payout.
                rbind (get_str (params ! 1)) (\<lambda>keyHex.
                rbind (DecodeOwnedPubKeyHex ops cx w keyHex) (\<lambda>key. Inr (name, payout, key))))))
         (\<lambda>(name, payout, key).
           SendNicknameOperationTx ops cx rn
             (empty_operation\<lparr>op_type := REGISTER, op_nickname := name, payoutAddress := payout, ownerPubKey := key\<rparr>)
             key None None) w)"

text \<open>The record of a name that its owner may change, as the next four commands look it up.\<close>

definition mutable_info :: "NicknameContext \<Rightarrow> RpcNode \<Rightarrow> NicknameStateDB \<Rightarrow> UniValue \<Rightarrow> string \<Rightarrow> NicknameInfo rpc" where
  "mutable_info cx rn db param reason =
     rbind (get_str param) (\<lambda>name.
     rbind (read_info db name) (\<lambda>info.
     rbind (throw_unless (IsMutableNicknameStatus (info_GetStatus info (rn_height rn)))
       (JSONRPCError RPC_INVALID_PARAMETER reason)) (\<lambda>_.
     rbind (throw_unless (pubkey_usable cx (info_ownerPubKey info))
       (JSONRPCError RPC_MISC_ERROR ''Indexed nickname owner pubkey is invalid'')) (\<lambda>_.
       Inr info))))"

definition updatenickname ::
  "'w WalletOps \<Rightarrow> NicknameContext \<Rightarrow> RpcNode \<Rightarrow> bool \<Rightarrow> UniValue list \<Rightarrow> 'w RpcWallet option \<Rightarrow> UniValue rpc \<times> 'w RpcWallet option" where
  "updatenickname ops cx rn fHelp params =
     wallet_command ops rn ''updatenickname'' 2 fHelp params (\<lambda>db.
       checked (rbind (mutable_info cx rn db (params ! 0) ''nickname is not mutable in current status'') (\<lambda>info.
                rbind (get_str (params ! 1)) (\<lambda>payout. Inr (info, payout))))
         (\<lambda>(info, payout).
           SendNicknameOperationTx ops cx rn
             (empty_operation\<lparr>op_type := UPDATE, op_nickname := info_nickname info, payoutAddress := payout\<rparr>)
             (CPubKey (info_ownerPubKey info)) None None))"

definition transfernickname ::
  "'w WalletOps \<Rightarrow> NicknameContext \<Rightarrow> RpcNode \<Rightarrow> bool \<Rightarrow> UniValue list \<Rightarrow> 'w RpcWallet option \<Rightarrow> UniValue rpc \<times> 'w RpcWallet option" where
  "transfernickname ops cx rn fHelp params =
     wallet_command ops rn ''transfernickname'' 2 fHelp params (\<lambda>db.
       checked (rbind (mutable_info cx rn db (params ! 0) ''nickname is not mutable in current status'') (\<lambda>info.
                rbind (get_str (params ! 1)) (\<lambda>keyHex.
                rbind (DecodeCompressedPubKeyHex cx keyHex) (\<lambda>key. Inr (info, key)))))
         (\<lambda>(info, key).
           SendNicknameOperationTx ops cx rn
             (empty_operation\<lparr>op_type := TRANSFER, op_nickname := info_nickname info, newOwnerPubKey := key\<rparr>)
             (CPubKey (info_ownerPubKey info)) (Some info) None))"

definition renewnickname ::
  "'w WalletOps \<Rightarrow> NicknameContext \<Rightarrow> RpcNode \<Rightarrow> bool \<Rightarrow> UniValue list \<Rightarrow> 'w RpcWallet option \<Rightarrow> UniValue rpc \<times> 'w RpcWallet option" where
  "renewnickname ops cx rn fHelp params =
     wallet_command ops rn ''renewnickname'' 1 fHelp params (\<lambda>db.
       checked (mutable_info cx rn db (params ! 0) ''nickname is not renewable in current status'')
         (\<lambda>info.
           SendNicknameOperationTx ops cx rn (empty_operation\<lparr>op_type := RENEW, op_nickname := info_nickname info\<rparr>)
             (CPubKey (info_ownerPubKey info)) (Some info) None))"

definition releasenickname ::
  "'w WalletOps \<Rightarrow> NicknameContext \<Rightarrow> RpcNode \<Rightarrow> bool \<Rightarrow> UniValue list \<Rightarrow> 'w RpcWallet option \<Rightarrow> UniValue rpc \<times> 'w RpcWallet option" where
  "releasenickname ops cx rn fHelp params =
     wallet_command ops rn ''releasenickname'' 1 fHelp params (\<lambda>db.
       checked (mutable_info cx rn db (params ! 0) ''nickname is not releasable in current status'')
         (\<lambda>info.
           SendNicknameOperationTx ops cx rn (empty_operation\<lparr>op_type := RELEASE, op_nickname := info_nickname info\<rparr>)
             (CPubKey (info_ownerPubKey info)) None None))"

text \<open>The name and the arguments of the call that a claim makes, for a bond reference and for a name.\<close>

definition claim_target ::
  "NicknameContext \<Rightarrow> RpcNode \<Rightarrow> NicknameStateDB \<Rightarrow> string \<Rightarrow> (string \<times> byte list \<times> NicknameInfo option \<times> COutPoint option) rpc" where
  "claim_target cx rn db input =
     (case ParseBondReference input of
        Some outpoint \<Rightarrow>
          (case ReadNicknameByBondOutpoint db outpoint of
             None \<Rightarrow> Inl (JSONRPCError RPC_INVALID_ADDRESS_OR_KEY ''Bond reference not found'')
           | Some indexedNickname \<Rightarrow>
               rbind (throw_unless
                 (case ReadNickname db indexedNickname of
                    None \<Rightarrow> True
                  | Some info \<Rightarrow>
                      \<not> (HasBondOutpoint info \<and> GetBondOutpoint info = outpoint \<and>
                         info_GetStatus info (rn_height rn) \<noteq> BOND_CLAIMABLE))
                 (JSONRPCError RPC_INVALID_PARAMETER ''nickname bond is not claimable'')) (\<lambda>_.
                 Inr (indexedNickname, [], None, Some outpoint)))
      | None \<Rightarrow>
          rbind (read_info db input) (\<lambda>info.
          rbind (throw_unless (info_GetStatus info (rn_height rn) = BOND_CLAIMABLE)
            (JSONRPCError RPC_INVALID_PARAMETER ''nickname bond is not claimable'')) (\<lambda>_.
          rbind (throw_unless (pubkey_usable cx (info_ownerPubKey info))
            (JSONRPCError RPC_MISC_ERROR ''Indexed nickname owner pubkey is invalid'')) (\<lambda>_.
            Inr (info_nickname info, CPubKey (info_ownerPubKey info), Some info, None)))))"

definition claimnicknamebond ::
  "'w WalletOps \<Rightarrow> NicknameContext \<Rightarrow> RpcNode \<Rightarrow> bool \<Rightarrow> UniValue list \<Rightarrow> 'w RpcWallet option \<Rightarrow> UniValue rpc \<times> 'w RpcWallet option" where
  "claimnicknamebond ops cx rn fHelp params =
     wallet_command ops rn ''claimnicknamebond'' 1 fHelp params (\<lambda>db.
       checked (rbind (get_str (params ! 0)) (claim_target cx rn db))
         (\<lambda>(name, key, currentInfo, outpoint).
           SendNicknameOperationTx ops cx rn (empty_operation\<lparr>op_type := CLAIM_BOND, op_nickname := name\<rparr>)
             key currentInfo outpoint))"

subsection \<open>Payments to a nickname\<close>

definition SendMoney ::
  "'w WalletOps \<Rightarrow> CTxDestination \<Rightarrow> CAmount \<Rightarrow> bool \<Rightarrow> map_value \<Rightarrow> CRecipient list \<Rightarrow> ('w, CTransaction) wallet_call" where
  "SendMoney ops address amount subtractFee mapValue extraRecipients w =
     (let curBalance = wo_GetBalance ops (w_inner w) in
      if amount \<le> 0 then (Inl (JSONRPCError RPC_INVALID_PARAMETER ''Invalid amount''), w)
      else if amount > curBalance then (Inl (JSONRPCError RPC_WALLET_INSUFFICIENT_FUNDS ''Insufficient funds''), w)
      else if wo_p2p_missing ops (w_inner w) then
        (Inl (JSONRPCError RPC_CLIENT_P2P_DISABLED ''Error: Peer-to-peer functionality missing or disabled''), w)
      else
        let recipient = \<lparr>rc_scriptPubKey = GetScriptForDestination address, rc_nAmount = amount, fSubtractFeeFromAmount = subtractFee\<rparr>;
            (created, i) = wo_CreateTransaction ops w (recipient # extraRecipients) None
        in case created of
             Inl (strError, nFeeRequired) \<Rightarrow>
               (Inl (JSONRPCError RPC_WALLET_ERROR
                  (if \<not> subtractFee \<and> amount + nFeeRequired > curBalance
                   then ''Error: This transaction requires a transaction fee of at least '' @ money_text nFeeRequired
                   else strError)), w\<lparr>w_inner := i\<rparr>)
           | Inr tx \<Rightarrow>
               (case wo_CommitTransaction ops i mapValue tx of
                  (Not_committed reason, i) \<Rightarrow>
                    (Inl (JSONRPCError RPC_WALLET_ERROR
                       (''Error: The transaction was rejected! Reason given: '' @ reason)), w\<lparr>w_inner := i\<rparr>)
                | (Committed _, i) \<Rightarrow> (Inr tx, w\<lparr>w_inner := i\<rparr>)))"

text \<open>An optional text parameter: the text, empty if it is missing or null.\<close>

definition text_param :: "UniValue list \<Rightarrow> nat \<Rightarrow> string rpc" where
  "text_param params k = (if length params > k \<and> params ! k \<noteq> VNULL then get_str (params ! k) else Inr [])"

definition memo_recipients :: "UniValue list \<Rightarrow> (CRecipient list \<times> map_value) rpc" where
  "memo_recipients params =
     rbind (text_param params 5) (\<lambda>memoData.
       if memoData = [] then Inr ([], [])
       else
         rbind (if length params > 6 \<and> params ! 6 \<noteq> VNULL then get_str (params ! 6) else Inr ''utf8'') (\<lambda>memoType.
         rbind (BuildNicknameMemoScript memoData memoType) (\<lambda>(memoScript, canonicalMemoType).
           Inr ([\<lparr>rc_scriptPubKey = memoScript, rc_nAmount = 0, fSubtractFeeFromAmount = False\<rparr>],
             [(''nickname_memo'', memoData), (''nickname_memo_type'', canonicalMemoType)]))))"

text \<open>The arguments of \<^verbatim>\<open>SendMoney\<close>, from the parameters of the command.\<close>

definition payment_request ::
  "NicknameContext \<Rightarrow> RpcNode \<Rightarrow> UniValue list \<Rightarrow> (CTxDestination \<times> CAmount \<times> bool \<times> map_value \<times> CRecipient list) rpc" where
  "payment_request cx rn params =
     rbind (get_str (params ! 0)) (\<lambda>nickname.
     rbind (ResolveActiveNicknameAddress cx rn nickname) (\<lambda>(payout, normalizedNickname).
     rbind (AmountFromValue (params ! 1)) (\<lambda>nAmount.
     rbind (throw_unless (\<not> nAmount \<le> 0) (JSONRPCError RPC_TYPE_ERROR ''Invalid amount for send'')) (\<lambda>_.
     rbind (text_param params 2) (\<lambda>comment.
     rbind (text_param params 3) (\<lambda>to.
     rbind (if length params > 4 then get_bool (params ! 4) else Inr False) (\<lambda>subtractFee.
     rbind (memo_recipients params) (\<lambda>(extraRecipients, memoValues).
       Inr (Address_Get (cx_prefixes cx) payout, nAmount, subtractFee,
         (if comment \<noteq> [] then [(''comment'', comment)] else []) @
         [(''nickname_to'', normalizedNickname), (''to'', if to \<noteq> [] then to else normalizedNickname)] @ memoValues,
         extraRecipients)))))))))"

definition sendtonickname ::
  "'w WalletOps \<Rightarrow> NicknameContext \<Rightarrow> RpcNode \<Rightarrow> bool \<Rightarrow> UniValue list \<Rightarrow> 'w RpcWallet option \<Rightarrow> UniValue rpc \<times> 'w RpcWallet option" where
  "sendtonickname ops cx rn fHelp params pwalletMain =
     (case pwalletMain of
        None \<Rightarrow> (if \<not> fHelp then Inl (JSONRPCError RPC_METHOD_NOT_FOUND ''Method not found (disabled)'') else Inr VNULL, None)
      | Some w \<Rightarrow>
          if fHelp \<or> length params < 2 \<or> length params > 7 then (Inl (Usage ''sendtonickname''), Some w)
          else case payment_request cx rn params of
              Inl e \<Rightarrow> (Inl e, Some w)
            | Inr (dest, amount, subtractFee, mapValue, extraRecipients) \<Rightarrow>
                if wo_IsLocked ops (w_inner w) then
                  (Inl (JSONRPCError RPC_WALLET_UNLOCK_NEEDED
                     ''Error: Please enter the wallet passphrase with walletpassphrase first.''), Some w)
                else case SendMoney ops dest amount subtractFee mapValue extraRecipients w of
                    (r, w') \<Rightarrow> (rbind r (\<lambda>tx. Inr (VSTR (GetHex (tx_hash tx)))), Some w'))"

subsection \<open>The locks of a wallet\<close>

lemma fold_UnlockCoin: "setLockedCoins (fold UnlockCoin xs w) = setLockedCoins w - set xs" "w_inner (fold UnlockCoin xs w) = w_inner w"
  by (induction xs arbitrary: w) (auto simp: UnlockCoin_def)

lemma fold_relock:
  "setLockedCoins (fold (\<lambda>p w. if \<not> IsLockedCoin w p then LockCoin p w else w) xs w) = setLockedCoins w \<union> set xs"
  by (induction xs arbitrary: w) (auto simp: LockCoin_def IsLockedCoin_def)

lemma lock_created_locks:
  "setLockedCoins w \<subseteq> setLockedCoins (lock_created txid bond n outs w)"
  "setLockedCoins (lock_created txid bond n outs w) \<subseteq> setLockedCoins w \<union> range (COutPoint txid)"
  "w_inner (lock_created txid bond n outs w) = w_inner w"
  by (induction outs arbitrary: n) (auto simp: LockCoin_def)

lemma abandon_missing_locks: "setLockedCoins (snd (abandon_missing ops xs s)) = setLockedCoins (snd s)"
  by (induction ops xs s rule: abandon_missing.induct)
    (auto simp: TryAbandonInactiveWalletSpenders_def split: prod.splits)

text \<open>A call that leaves the locks as they were when it fails, and only adds locks when it succeeds.\<close>

definition keeps_locks :: "('w, 'a) wallet_call \<Rightarrow> bool" where
  "keeps_locks f \<longleftrightarrow>
     (\<forall>w. case fst (f w) of
        Inl e \<Rightarrow> setLockedCoins (snd (f w)) = setLockedCoins w
      | Inr x \<Rightarrow> setLockedCoins w \<subseteq> setLockedCoins (snd (f w)))"

lemma keeps_locksI:
  assumes "\<And>w e. fst (f w) = Inl e \<Longrightarrow> setLockedCoins (snd (f w)) = setLockedCoins w"
    and "\<And>w x. fst (f w) = Inr x \<Longrightarrow> setLockedCoins w \<subseteq> setLockedCoins (snd (f w))"
  shows "keeps_locks f"
  using assms by (auto simp: keeps_locks_def split: sum.split)

lemma keeps_locks_error: "keeps_locks f \<Longrightarrow> fst (f w) = Inl e \<Longrightarrow> setLockedCoins (snd (f w)) = setLockedCoins w"
  unfolding keeps_locks_def by (drule spec [of _ w]) simp

lemma keeps_locks_success: "keeps_locks f \<Longrightarrow> fst (f w) = Inr x \<Longrightarrow> setLockedCoins w \<subseteq> setLockedCoins (snd (f w))"
  unfolding keeps_locks_def by (drule spec [of _ w]) simp

lemma send_committed_cases:
  assumes "wo_CommitTransaction ops (w_inner w) (send_values operation) tx = (c, i)"
  shows "send_committed ops rn operation plan tx w =
    (case c of
       Not_committed reason \<Rightarrow> (tx_rejected reason, w\<lparr>w_inner := i\<rparr>)
     | Committed (Some reason) \<Rightarrow>
         (tx_rejected (if reason = [] then ''unknown reason'' else reason),
          if wo_inactive ops i (tx_hash tx) then w\<lparr>w_inner := snd (wo_AbandonTransaction ops i (tx_hash tx))\<rparr>
          else w\<lparr>w_inner := i\<rparr>)
     | Committed None \<Rightarrow>
         (Inr (GetHex (tx_hash tx)),
          LockSpendableTrackedBondOutpoints ops rn
            (case createdBond plan of
               None \<Rightarrow> w\<lparr>w_inner := i\<rparr>
             | Some bond \<Rightarrow> lock_created (tx_hash tx) bond 0 (vout tx) (w\<lparr>w_inner := i\<rparr>))))"
  using assms unfolding send_committed_def
  by (cases c) (simp_all add: Let_def split: option.split)

lemma send_committed_error:
  assumes "fst (send_committed ops rn operation plan tx w) = Inl e"
  shows "setLockedCoins (snd (send_committed ops rn operation plan tx w)) = setLockedCoins w"
proof (cases "wo_CommitTransaction ops (w_inner w) (send_values operation) tx")
  case (Pair c i)
  then show ?thesis using assms
    by (cases c) (auto simp: send_committed_cases [OF Pair] split: option.split_asm)
qed

lemma send_committed_success:
  assumes "fst (send_committed ops rn operation plan tx w) = Inr x"
  obtains i where "x = GetHex (tx_hash tx)" "snd (send_committed ops rn operation plan tx w) =
    LockSpendableTrackedBondOutpoints ops rn
      (case createdBond plan of None \<Rightarrow> w\<lparr>w_inner := i\<rparr>
       | Some bond \<Rightarrow> lock_created (tx_hash tx) bond 0 (vout tx) (w\<lparr>w_inner := i\<rparr>))"
proof (cases "wo_CommitTransaction ops (w_inner w) (send_values operation) tx")
  case (Pair c i)
  then have "c = Committed None" using assms
    by (cases c) (auto simp: send_committed_cases [OF Pair] tx_rejected_def split: option.split_asm)
  then show thesis using assms that [of i] by (simp add: send_committed_cases [OF Pair])
qed

lemma send_committed_locks: "keeps_locks (send_committed ops rn operation plan tx)"
proof (rule keeps_locksI [OF send_committed_error])
  fix w :: "'a RpcWallet" and x assume "fst (send_committed ops rn operation plan tx w) = Inr x"
  then obtain i where "snd (send_committed ops rn operation plan tx w) = LockSpendableTrackedBondOutpoints ops rn
      (case createdBond plan of None \<Rightarrow> w\<lparr>w_inner := i\<rparr>
       | Some bond \<Rightarrow> lock_created (tx_hash tx) bond 0 (vout tx) (w\<lparr>w_inner := i\<rparr>))" by (rule send_committed_success)
  then show "setLockedCoins w \<subseteq> setLockedCoins (snd (send_committed ops rn operation plan tx w))"
    by (auto simp: LockSpendableTrackedBondOutpoints_def split: option.splits intro: subsetD [OF lock_created_locks(1)])
qed

lemma send_created_locks: "keeps_locks (send_created ops rn operation plan cc forbidden)"
proof (rule keeps_locksI)
  fix w :: "'a RpcWallet" and e assume "fst (send_created ops rn operation plan cc forbidden w) = Inl e"
  then show "setLockedCoins (snd (send_created ops rn operation plan cc forbidden w)) = setLockedCoins w"
    by (auto simp: send_created_def Let_def keeps_locks_error [OF send_committed_locks] split: prod.splits sum.splits if_splits)
next
  fix w :: "'a RpcWallet" and x assume a: "fst (send_created ops rn operation plan cc forbidden w) = Inr x"
  then obtain i tx where "fst (send_committed ops rn operation plan tx (w\<lparr>w_inner := i\<rparr>)) = Inr x"
    "send_created ops rn operation plan cc forbidden w = send_committed ops rn operation plan tx (w\<lparr>w_inner := i\<rparr>)"
    by (auto simp: send_created_def Let_def split: prod.splits sum.splits if_splits)
  then show "setLockedCoins w \<subseteq> setLockedCoins (snd (send_created ops rn operation plan cc forbidden w))"
    using keeps_locks_success [OF send_committed_locks, of ops rn operation plan tx "w\<lparr>w_inner := i\<rparr>" x] by simp
qed

lemma ScopedCoinLocker_parts:
  fixes w :: "'w RpcWallet" and P :: "COutPoint set"
  defines "w1 \<equiv> w\<lparr>setLockedCoins := setLockedCoins w \<union> P\<rparr>"
  shows "fst (ScopedCoinLocker P f w) = fst (f w1)"
    "setLockedCoins (snd (ScopedCoinLocker P f w)) = setLockedCoins (snd (f w1)) - (P - setLockedCoins w)"
proof -
  have l: "{p \<in> P. \<not> IsLockedCoin w p} = P - setLockedCoins w" by (auto simp: IsLockedCoin_def)
  have w: "w\<lparr>setLockedCoins := setLockedCoins w \<union> (P - setLockedCoins w)\<rparr> = w1" by (simp add: w1_def Un_Diff_cancel)
  show "fst (ScopedCoinLocker P f w) = fst (f w1)"
    "setLockedCoins (snd (ScopedCoinLocker P f w)) = setLockedCoins (snd (f w1)) - (P - setLockedCoins w)"
    unfolding ScopedCoinLocker_def l Let_def w by (simp_all split: prod.split)
qed

lemma ScopedCoinLocker_keeps:
  assumes "keeps_locks f"
  shows "keeps_locks (ScopedCoinLocker P f)"
  using keeps_locks_error [OF assms] keeps_locks_success [OF assms]
  by (intro keeps_locksI) (fastforce simp: ScopedCoinLocker_parts)+

lemma ScopedCoinRelocker_parts:
  fixes w :: "'w RpcWallet" and xs :: "COutPoint list"
  defines "w1 \<equiv> fold UnlockCoin (filter (IsLockedCoin w) xs) w"
  shows "fst (ScopedCoinRelocker xs f w) = fst (f w1)"
    "fst (f w1) = Inr x \<Longrightarrow> snd (ScopedCoinRelocker xs f w) = snd (f w1)"
    "fst (f w1) = Inl e \<Longrightarrow>
       setLockedCoins (snd (ScopedCoinRelocker xs f w)) = setLockedCoins (snd (f w1)) \<union> (set xs \<inter> setLockedCoins w)"
  unfolding ScopedCoinRelocker_def Let_def w1_def
  by (auto simp: fold_relock [simplified] split: prod.splits sum.splits) (auto simp: IsLockedCoin_def)

lemma unlocked_required:
  "setLockedCoins (fold UnlockCoin (filter (IsLockedCoin w) xs) w) = setLockedCoins w - set xs"
  "w_inner (fold UnlockCoin (filter (IsLockedCoin w) xs) w) = w_inner w"
  by (auto simp: fold_UnlockCoin IsLockedCoin_def)

lemma send_selected_locks: "keeps_locks (send_selected ops cx rn operation key plan)"
proof -
  let ?call = "send_selected ops cx rn operation key plan"
  have parts: "(\<exists>w2 P cc. setLockedCoins w2 = setLockedCoins w \<and>
      ?call w = ScopedCoinLocker P (send_created ops rn operation plan cc P) w2) \<or>
    (\<exists>e w2. ?call w = (Inl e, w2) \<and> setLockedCoins w2 = setLockedCoins w)" for w
  proof -
    let ?miss = "filter (\<lambda>p. p \<notin> CollectSpendableTrackedBondOutpoints ops rn w) (requiredInputs plan)"
    obtain ab w2 where a: "abandon_missing ops ?miss (False, w) = (ab, w2)" by fastforce
    then have l: "setLockedCoins w2 = setLockedCoins w" using abandon_missing_locks [of ops ?miss "(False, w)"] by simp
    then show ?thesis unfolding send_selected_def Let_def a prod.case by (auto split: if_splits option.splits)
  qed
  note locker = ScopedCoinLocker_keeps [OF send_created_locks [of ops rn operation plan]]
  show ?thesis
  proof (rule keeps_locksI)
    fix w e assume a: "fst (?call w) = Inl e"
    from parts [of w] show "setLockedCoins (snd (?call w)) = setLockedCoins w"
    proof (elim disjE exE conjE)
      fix w2 P cc
      assume "setLockedCoins w2 = setLockedCoins w" "?call w = ScopedCoinLocker P (send_created ops rn operation plan cc P) w2"
      then show ?thesis using keeps_locks_error [OF locker, of P cc P w2 e] a by simp
    qed simp
  next
    fix w x assume a: "fst (?call w) = Inr x"
    from parts [of w] show "setLockedCoins w \<subseteq> setLockedCoins (snd (?call w))"
    proof (elim disjE exE conjE)
      fix w2 P cc
      assume "setLockedCoins w2 = setLockedCoins w" "?call w = ScopedCoinLocker P (send_created ops rn operation plan cc P) w2"
      then show ?thesis using keeps_locks_success [OF locker, of P cc P w2 x] a by simp
    qed (use a in simp)
  qed
qed

text \<open>What a successful send went through.\<close>

lemma send_created_success:
  assumes "fst (send_created ops rn operation plan cc forbidden w) = Inr x"
  obtains tx i where "wo_CreateTransaction ops w (vecSend plan) (Some cc) = (Inr tx, i)"
    "\<forall>txin \<in> set (vin tx). prevout txin \<notin> forbidden"
    "send_created ops rn operation plan cc forbidden w = send_committed ops rn operation plan tx (w\<lparr>w_inner := i\<rparr>)"
proof (cases "wo_CreateTransaction ops w (vecSend plan) (Some cc)")
  case (Pair c i)
  then obtain tx where "c = Inr tx" "\<not> list_ex (\<lambda>txin. prevout txin \<in> forbidden) (vin tx)"
    "send_created ops rn operation plan cc forbidden w = send_committed ops rn operation plan tx (w\<lparr>w_inner := i\<rparr>)"
    using assms by (cases c) (auto simp: send_created_def Let_def split: if_splits)
  then show thesis using that Pair by (auto simp: list_ex_iff)
qed

lemma send_selected_success:
  assumes "fst (send_selected ops cx rn operation key plan w) = Inr x"
  obtains w2 forbidden cc where "setLockedCoins w2 = setLockedCoins w"
    "set (requiredInputs plan) \<subseteq> CollectSpendableTrackedBondOutpoints ops rn w \<longrightarrow> w2 = w"
    "set (requiredInputs plan) \<subseteq> CollectSpendableTrackedBondOutpoints ops rn w2"
    "forbidden = CollectSpendableTrackedBondOutpoints ops rn w2 - set (requiredInputs plan)"
    "owner_input ops cx operation key forbidden w2
       (fold Select (requiredInputs plan)
         (null_coin_control\<lparr>fAllowOtherInputs := True, nMinimumTotalFee := GetRequiredNicknameFeeForRPC rn operation\<rparr>)) = Some cc"
    "send_selected ops cx rn operation key plan w =
       ScopedCoinLocker forbidden (send_created ops rn operation plan cc forbidden) w2"
proof -
  let ?sp = "CollectSpendableTrackedBondOutpoints ops rn"
  let ?miss = "filter (\<lambda>p. p \<notin> ?sp w) (requiredInputs plan)"
  obtain ab w2 where a: "abandon_missing ops ?miss (False, w) = (ab, w2)" by fastforce
  then have l: "setLockedCoins w2 = setLockedCoins w" using abandon_missing_locks [of ops ?miss "(False, w)"] by simp
  let ?s = "if ab then ?sp w2 else ?sp w"
  have s: "set (requiredInputs plan) \<subseteq> ?s" using assms
    unfolding send_selected_def Let_def a prod.case by (auto simp: list_all_iff subset_iff split: if_splits)
  have same: "set (requiredInputs plan) \<subseteq> ?sp w \<longrightarrow> w2 = w"
  proof
    assume "set (requiredInputs plan) \<subseteq> ?sp w"
    then have "?miss = []" by (simp add: filter_empty_conv subset_iff)
    then show "w2 = w" using a by simp
  qed
  have e: "?s = ?sp w2" using s same by (cases ab) simp_all
  then have "list_all (\<lambda>p. p \<in> ?s) (requiredInputs plan)" using s by (auto simp: list_all_iff)
  then show thesis using assms that [OF l same s [unfolded e] refl]
    unfolding send_selected_def Let_def a prod.case e by (simp split: option.splits)
qed

end
