(* ===== verification/Nickname_Wallet.thy ===== *)
theory Nickname_Wallet
  imports Nickname_Send
begin

text \<open>
  What the sending commands do to the wallet and to the mempool: the locks after a failed and after a successful send, the
  bonds that a sent transaction spends, and whether the mempool rules of \<^verbatim>\<open>Nickname_Mempool\<close> accept it.
\<close>

subsection \<open>A successful send\<close>

lemma Send_success:
  assumes "fst (SendNicknameOperationTx ops cx rn x key info claim w) = Inr txid"
  obtains plan w2 forbidden cc tx i where "send_plan cx rn x key info claim = Inr plan"
    "setLockedCoins w2 = setLockedCoins w - set (requiredInputs plan)"
    "set (requiredInputs plan) = {} \<longrightarrow> w_inner w2 = w_inner w"
    "set (requiredInputs plan) \<subseteq> CollectSpendableTrackedBondOutpoints ops rn w2"
    "forbidden = CollectSpendableTrackedBondOutpoints ops rn w2 - set (requiredInputs plan)"
    "owner_input ops cx x key forbidden w2
       (fold Select (requiredInputs plan)
         (null_coin_control\<lparr>fAllowOtherInputs := True, nMinimumTotalFee := GetRequiredNicknameFeeForRPC rn x\<rparr>)) = Some cc"
    "wo_CreateTransaction ops (w2\<lparr>setLockedCoins := setLockedCoins w2 \<union> forbidden\<rparr>) (vecSend plan) (Some cc) = (Inr tx, i)"
    "txid = GetHex (tx_hash tx)"
    "setLockedCoins (snd (SendNicknameOperationTx ops cx rn x key info claim w)) \<inter> (forbidden - setLockedCoins w2) = {}"
proof -
  obtain plan where p: "send_plan cx rn x key info claim = Inr plan"
    and q: "\<not> wo_p2p_missing ops (w_inner w)"
    using assms by (auto simp: SendNicknameOperationTx_def split: if_splits sum.splits)
  let ?R = "requiredInputs plan" and ?f = "send_selected ops cx rn x key plan"
  have s: "SendNicknameOperationTx ops cx rn x key info claim w = ScopedCoinRelocker ?R ?f w"
    using p q by (simp add: SendNicknameOperationTx_def)
  define w1 where "w1 = fold UnlockCoin (filter (IsLockedCoin w) ?R) w"
  have f: "fst (?f w1) = Inr txid" using assms unfolding s ScopedCoinRelocker_parts w1_def .
  then have sn: "snd (SendNicknameOperationTx ops cx rn x key info claim w) = snd (?f w1)"
    unfolding s w1_def by (rule ScopedCoinRelocker_parts(2))
  obtain w2 F cc where w2: "setLockedCoins w2 = setLockedCoins w1" "set ?R \<subseteq> CollectSpendableTrackedBondOutpoints ops rn w1 \<longrightarrow> w2 = w1"
      "set ?R \<subseteq> CollectSpendableTrackedBondOutpoints ops rn w2"
      "F = CollectSpendableTrackedBondOutpoints ops rn w2 - set ?R"
    and cc: "owner_input ops cx x key F w2 (fold Select ?R
       (null_coin_control\<lparr>fAllowOtherInputs := True, nMinimumTotalFee := GetRequiredNicknameFeeForRPC rn x\<rparr>)) = Some cc"
    and l: "?f w1 = ScopedCoinLocker F (send_created ops rn x plan cc F) w2"
    using f by (rule send_selected_success)
  let ?w3 = "w2\<lparr>setLockedCoins := setLockedCoins w2 \<union> F\<rparr>"
  have g: "fst (send_created ops rn x plan cc F ?w3) = Inr txid" using f unfolding l ScopedCoinLocker_parts .
  obtain tx i where tx: "wo_CreateTransaction ops ?w3 (vecSend plan) (Some cc) = (Inr tx, i)"
    and c: "send_created ops rn x plan cc F ?w3 = send_committed ops rn x plan tx (?w3\<lparr>w_inner := i\<rparr>)"
    using g by (rule send_created_success)
  have t: "txid = GetHex (tx_hash tx)" using g unfolding c by (rule send_committed_success)
  have w: "setLockedCoins w2 = setLockedCoins w - set ?R" using w2(1) unlocked_required [of w ?R] by (simp add: w1_def)
  have i: "set ?R = {} \<longrightarrow> w_inner w2 = w_inner w" using w2(2) unlocked_required [of w ?R] by (simp add: w1_def)
  have u: "setLockedCoins (snd (SendNicknameOperationTx ops cx rn x key info claim w)) \<inter> (F - setLockedCoins w2) = {}"
    unfolding sn l ScopedCoinLocker_parts by (subst Int_commute) (rule Diff_disjoint)
  show thesis by (rule that [OF p w i w2(3,4) cc tx t u])
qed

text \<open>What the wallet promises of a transaction it creates: it spends the selected inputs and otherwise only spendable
  coins that are available; its outputs are the recipients and at most one output, to an address, for the change.\<close>

definition recipient_out :: "CRecipient \<Rightarrow> CTxOut" where
  "recipient_out r = \<lparr>nValue = rc_nAmount r, scriptPubKey = rc_scriptPubKey r\<rparr>"

definition with_change :: "CRecipient list \<Rightarrow> CTransaction \<Rightarrow> bool" where
  "with_change recs tx \<longleftrightarrow>
     (\<exists>a b change. vout tx = a @ change @ b \<and> map recipient_out recs = a @ b \<and> length change \<le> 1 \<and>
        (\<forall>out \<in> set change. \<exists>d. d \<noteq> CNoDestination \<and> scriptPubKey out = GetScriptForDestination d))"

definition creates_as_asked :: "'w WalletOps \<Rightarrow> bool" where
  "creates_as_asked ops \<longleftrightarrow>
     (\<forall>w recs cc tx i. wo_CreateTransaction ops w recs (Some cc) = (Inr tx, i) \<longrightarrow>
        setSelected cc \<subseteq> spends tx \<and>
        spends tx \<subseteq> setSelected cc \<union> co_outpoint ` set (filter fSpendable (AvailableCoins ops w)) \<and>
        with_change recs tx)"

lemma creates_as_askedD:
  assumes "creates_as_asked ops" "wo_CreateTransaction ops w recs (Some cc) = (Inr tx, i)"
  shows "setSelected cc \<subseteq> spends tx"
    "spends tx \<subseteq> setSelected cc \<union> co_outpoint ` set (filter fSpendable (AvailableCoins ops w))"
    "with_change recs tx"
  using assms(1) [unfolded creates_as_asked_def, rule_format, OF assms(2)] by simp_all

lemma Select_fold: "setSelected (fold Select xs cc) = setSelected cc \<union> set xs"
  by (induction xs arbitrary: cc) (auto simp: Select_def)

lemma Collect_iff:
  "rn_db rn = Some db \<Longrightarrow> p \<in> CollectSpendableTrackedBondOutpoints ops rn w \<longleftrightarrow>
     p \<in> co_outpoint ` set (filter fSpendable (AvailableCoins ops w)) \<and> ReadNicknameByBondOutpoint db p \<noteq> None"
  by (auto simp: CollectSpendableTrackedBondOutpoints_def)

lemma available_locked:
  "co_outpoint ` set (filter fSpendable (AvailableCoins ops (w\<lparr>setLockedCoins := setLockedCoins w \<union> F\<rparr>))) =
   co_outpoint ` set (filter fSpendable (AvailableCoins ops w)) - F"
  by (auto simp: AvailableCoins_def IsLockedCoin_def)

lemma owner_input_selected:
  assumes "owner_input ops cx x key F w cc0 = Some cc"
  shows "setSelected cc0 \<subseteq> setSelected cc"
    "setSelected cc \<subseteq> setSelected cc0 \<union> (co_outpoint ` set (filter fSpendable (AvailableCoins ops w)) - F)"
  using assms by (auto simp: owner_input_def SelectOwnerInput_def Select_def find_Some_iff split: if_splits)

text \<open>The tracked bonds that a created transaction spends are the required ones.\<close>

lemma spent_bonds_required:
  assumes "creates_as_asked ops" "rn_db rn = Some db" "F = CollectSpendableTrackedBondOutpoints ops rn w2 - set R"
    "owner_input ops cx x key F w2 (fold Select R (null_coin_control\<lparr>fAllowOtherInputs := True, nMinimumTotalFee := m\<rparr>)) = Some cc"
    "wo_CreateTransaction ops (w2\<lparr>setLockedCoins := setLockedCoins w2 \<union> F\<rparr>) recs (Some cc) = (Inr tx, i)"
    "set R \<subseteq> CollectSpendableTrackedBondOutpoints ops rn w2"
  shows "{p \<in> spends tx. ReadNicknameByBondOutpoint db p \<noteq> None} = set R"
proof -
  define A where "A = co_outpoint ` set (filter fSpendable (AvailableCoins ops w2))"
  define T where "T = {p. ReadNicknameByBondOutpoint db p \<noteq> None}"
  have c: "setSelected cc \<subseteq> spends tx" "spends tx \<subseteq> setSelected cc \<union> (A - F)"
    using creates_as_askedD(1,2) [OF assms(1,5)] unfolding available_locked A_def .
  have o: "set R \<subseteq> setSelected cc" "setSelected cc \<subseteq> set R \<union> (A - F)"
    using owner_input_selected [OF assms(4)] by (simp_all add: Select_fold null_coin_control_def A_def)
  have k: "CollectSpendableTrackedBondOutpoints ops rn w2 = A \<inter> T"
    using Collect_iff [OF assms(2), of _ ops w2] unfolding A_def T_def by blast
  have "spends tx \<inter> T = set R" using c o assms(3,6) unfolding k by blast
  then show ?thesis by (simp add: T_def Collect_conj_eq)
qed

subsection \<open>The outputs of a plan\<close>

text \<open>The outputs that look like a nickname operation.\<close>

definition op_outputs :: "NicknameContext \<Rightarrow> CTxOut list \<Rightarrow> CTxOut list" where
  "op_outputs cx = filter (\<lambda>out. ParseNicknameOpScript cx (scriptPubKey out) \<noteq> Inr None)"

lemma extract_op_outputs: "extract_from_outputs cx found outs = extract_from_outputs cx found (op_outputs cx outs)"
  unfolding op_outputs_def
  by (induction outs arbitrary: found) (auto simp: rbind_def split: sum.splits option.splits)

lemma extract_found:
  assumes "ExtractNicknameOperationFromTx cx tx = Inr r" "out \<in> set (vout tx)"
    and "ParseNicknameOpScript cx (scriptPubKey out) = Inr (Some y)"
  shows "r = Some y"
proof -
  have e: "extract_from_outputs cx None (op_outputs cx (vout tx)) = Inr r"
    using assms(1) extract_op_outputs [of cx None "vout tx"] by (simp add: ExtractNicknameOperationFromTx_def)
  have "out \<in> set (op_outputs cx (vout tx))" using assms(2,3) by (simp add: op_outputs_def)
  moreover have "ParseNicknameOpScript cx (scriptPubKey o') \<noteq> Inr None" if "o' \<in> set (op_outputs cx (vout tx))" for o'
    using that by (simp add: op_outputs_def)
  ultimately show ?thesis using e assms(3)
    by (cases "op_outputs cx (vout tx)"; cases "tl (op_outputs cx (vout tx))")
      (fastforce simp: rbind_Inr_iff split: option.splits if_splits)+
qed

lemma length_bond_matches:
  "length (bond_matches tx script amount) = length (filter (\<lambda>out. nValue out = amount \<and> scriptPubKey out = script) (vout tx))"
proof -
  let ?P = "\<lambda>out. nValue out = amount \<and> scriptPubKey out = script"
  have "filter ?P (vout tx) = filter ?P (map ((!) (vout tx)) [0..<length (vout tx)])" by (simp add: map_nth)
  then show ?thesis by (simp add: bond_matches_def filter_map comp_def)
qed

lemma FindUnique_iff:
  "(\<exists>v. FindUniqueBondOutput tx script amount = Inr v) \<longleftrightarrow>
   length (filter (\<lambda>out. nValue out = amount \<and> scriptPubKey out = script) (vout tx)) = 1"
  unfolding length_bond_matches [symmetric] FindUniqueBondOutput_eq
  by (auto simp: length_Suc_conv split: list.splits)

lemma pays_dest_scripts:
  assumes "d \<noteq> CNoDestination"
  shows "ParseNicknameOpScript cx (GetScriptForDestination d) = Inr None"
    "length key = COMPRESSED_SIZE \<Longrightarrow> GetScriptForDestination d \<noteq> GetScriptForRawPubKey key"
proof -
  have "byte 118 \<noteq> byte 33" "byte 169 \<noteq> byte 33" by (simp_all add: byte_def)
  then have d: "\<exists>n pc. GetScriptForDestination d = byte n # pc \<and> 78 < n \<and> n < 256 \<and> n \<noteq> OP_RETURN \<and> byte n \<noteq> byte 33"
    using assms by (cases d) (force simp del: GetScriptForDestination.simps simp: P2PKH_bytes P2SH_bytes OP_RETURN_def)+
  then show "ParseNicknameOpScript cx (GetScriptForDestination d) = Inr None"
    using GetOp2_plain by (auto simp: ParseNicknameOpScript_def)
  assume "length key = COMPRESSED_SIZE"
  then have "GetScriptForRawPubKey key = byte 33 # key @ [byte OP_CHECKSIG]"
    by (simp add: GetScriptForRawPubKey_def push_short push_opcode_def COMPRESSED_SIZE_def)
  then show "GetScriptForDestination d \<noteq> GetScriptForRawPubKey key" using d by auto
qed

text \<open>The operation and the bond in a transaction that has the outputs of a plan and change.\<close>

lemma change_filter:
  assumes "with_change recs tx" "\<And>d out. d \<noteq> CNoDestination \<Longrightarrow> scriptPubKey out = GetScriptForDestination d \<Longrightarrow> \<not> P out"
  shows "filter P (vout tx) = filter P (map recipient_out recs)"
proof -
  obtain a b change where v: "vout tx = a @ change @ b" "map recipient_out recs = a @ b"
    "\<forall>out \<in> set change. \<exists>d. d \<noteq> CNoDestination \<and> scriptPubKey out = GetScriptForDestination d"
    using assms(1) by (auto simp: with_change_def)
  then have "filter P change = []" using assms(2) by (auto simp: filter_empty_conv)
  then show ?thesis by (simp add: v)
qed

lemma op_script_parses:
  assumes "BuildNicknameOpScript (cx_Hash cx) (cx_prefixes cx) x = Inr s"
  shows "ParseNicknameOpScript cx s = Inr (Some (received (cx_Hash cx) (cx_prefixes cx) x))"
  using Parse_built [of cx x] assms by (simp add: BuildNicknameOpScript_iff)

lemma bond_plan_extract:
  assumes "BuildNicknameOpScript (cx_Hash cx) (cx_prefixes cx) x = Inr s" "length key = COMPRESSED_SIZE"
    and "with_change (vecSend (bond_plan s required (GetScriptForRawPubKey key) amount)) tx"
  shows "ExtractNicknameOperationFromTx cx tx = Inr (Some (received (cx_Hash cx) (cx_prefixes cx) x))"
    "(\<exists>v. FindUniqueBondOutput tx (GetScriptForRawPubKey key) amount = Inr v)"
    "amount' \<noteq> amount \<Longrightarrow> \<not> (\<exists>v. FindUniqueBondOutput tx (GetScriptForRawPubKey key) amount' = Inr v)"
proof -
  note parse = op_script_parses [OF assms(1)] Parse_P2PK [OF assms(2), of cx]
  have "op_outputs cx (vout tx) = [\<lparr>nValue = 0, scriptPubKey = s\<rparr>]"
    unfolding op_outputs_def
    by (subst change_filter [OF assms(3)]) (auto simp: pays_dest_scripts(1) bond_plan_def recipient_out_def parse)
  then show "ExtractNicknameOperationFromTx cx tx = Inr (Some (received (cx_Hash cx) (cx_prefixes cx) x))"
    unfolding ExtractNicknameOperationFromTx_def extract_op_outputs [of cx None "vout tx"] by (simp add: parse)
  have s: "s \<noteq> GetScriptForRawPubKey key" using parse by auto
  have f: "filter (\<lambda>out. nValue out = n \<and> scriptPubKey out = GetScriptForRawPubKey key) (vout tx) =
      (if n = amount then [\<lparr>nValue = amount, scriptPubKey = GetScriptForRawPubKey key\<rparr>] else [])" for n
    by (subst change_filter [OF assms(3)]) (use s in \<open>auto simp: pays_dest_scripts(2) [OF _ assms(2)] bond_plan_def recipient_out_def\<close>)
  show "\<exists>v. FindUniqueBondOutput tx (GetScriptForRawPubKey key) amount = Inr v"
    "amount' \<noteq> amount \<Longrightarrow> \<not> (\<exists>v. FindUniqueBondOutput tx (GetScriptForRawPubKey key) amount' = Inr v)"
    unfolding FindUnique_iff f by simp_all
qed

subsection \<open>A sent transaction before the mempool\<close>

text \<open>The coins of the wallet are unspent outputs in the coins view, and a created transaction pays the fee it was asked to.\<close>

definition coins_in_view :: "'w WalletOps \<Rightarrow> coins_view \<Rightarrow> bool" where
  "coins_in_view ops view \<longleftrightarrow>
     (\<forall>i out txin. out \<in> set (wo_coins ops i) \<longrightarrow> prevout txin = co_outpoint out \<longrightarrow>
        \<not> OutPoint_IsNull (prevout txin) \<and> spent_script view txin = Some (scriptPubKey (co_txout out)))"

definition pays_minimum_fee :: "'w WalletOps \<Rightarrow> (CTransaction \<Rightarrow> CAmount) \<Rightarrow> bool" where
  "pays_minimum_fee ops fee \<longleftrightarrow>
     (\<forall>w recs cc tx i. wo_CreateTransaction ops w recs (Some cc) = (Inr tx, i) \<longrightarrow> nMinimumTotalFee cc \<le> fee tx)"

lemma usable_key: "pubkey_usable cx key \<Longrightarrow> CPubKey key = key \<and> length key = COMPRESSED_SIZE"
  using CPubKey_cases [of key] by (auto simp: pubkey_usable_def PubKey_IsCompressed_def COMPRESSED_SIZE_def)

lemma coins_in_viewD:
  assumes "coins_in_view ops view" "out \<in> set (wo_coins ops i)" "prevout txin = co_outpoint out"
  shows "\<not> OutPoint_IsNull (prevout txin)" "spent_script view txin = Some (scriptPubKey (co_txout out))"
  using assms(1) [unfolded coins_in_view_def, rule_format, OF assms(2,3)] by simp_all

lemma find_found: "find P xs = Some x \<Longrightarrow> x \<in> set xs \<and> P x"
  by (induction xs) (auto split: if_splits)

lemma not_coinbase:
  assumes "coins_in_view ops view" "p \<in> spends tx" "p \<in> co_outpoint ` set (filter fSpendable (AvailableCoins ops w))"
  shows "\<not> IsCoinBase tx"
proof -
  obtain txin where t: "txin \<in> set (vin tx)" "prevout txin = p" using assms(2) by (auto simp: spends_def)
  obtain out where o: "out \<in> set (wo_coins ops (w_inner w))" "co_outpoint out = p"
    using assms(3) by (auto simp: AvailableCoins_def)
  have "\<not> OutPoint_IsNull (prevout txin)" using coins_in_viewD(1) [OF assms(1) o(1), of txin] t(2) o(2) by simp
  then show ?thesis using t(1) by (cases "vin tx") (auto simp: IsCoinBase_def)
qed

lemma spent_in_mempool_again:
  assumes "ReadNicknameByBondOutpoint db q = Some n" "\<forall>t \<in> set ins. prevout t = q \<or> ReadNicknameByBondOutpoint db (prevout t) = None"
  shows "spent_in_mempool db ins [(n, q)] = Inr [(n, q)]"
  using assms(2)
proof (induction ins)
  case (Cons t ins)
  then show ?case using assms(1) by (cases "prevout t = q") (simp_all add: emplace_spent_def)
qed simp

lemma spent_in_mempool_known:
  assumes "ReadNicknameByBondOutpoint db q = Some n" "\<forall>t \<in> set ins. prevout t = q \<or> ReadNicknameByBondOutpoint db (prevout t) = None"
  shows "spent_in_mempool db ins [] = Inr (if q \<in> prevout ` set ins then [(n, q)] else [])"
  using assms(2)
proof (induction ins)
  case (Cons t ins)
  have r: "spent_in_mempool db ins [(n, q)] = Inr [(n, q)]" using spent_in_mempool_again [OF assms(1), of ins] Cons.prems by simp
  show ?case using assms(1) r Cons by (cases "prevout t = q") (auto simp: emplace_spent_def)
qed simp

lemma spent_in_mempool_plain:
  "\<forall>p \<in> prevout ` set ins. ReadNicknameByBondOutpoint db p = None \<Longrightarrow> spent_in_mempool db ins [] = Inr []"
  by (induction ins) auto

lemma spent_required:
  assumes "{p \<in> spends tx. ReadNicknameByBondOutpoint db p \<noteq> None} = set R"
  shows "R = [] \<Longrightarrow> spent_in_mempool db (vin tx) [] = Inr []"
    "R = [q] \<Longrightarrow> ReadNicknameByBondOutpoint db q = Some n \<Longrightarrow> spent_in_mempool db (vin tx) [] = Inr [(n, q)]"
proof -
  show "R = [] \<Longrightarrow> spent_in_mempool db (vin tx) [] = Inr []"
    using assms by (intro spent_in_mempool_plain) (auto simp: spends_def)
  assume "R = [q]" "ReadNicknameByBondOutpoint db q = Some n"
  moreover from this have s: "\<forall>t \<in> set (vin tx). prevout t = q \<or> ReadNicknameByBondOutpoint db (prevout t) = None"
      "q \<in> prevout ` set (vin tx)" using assms unfolding spends_def by auto
  ultimately show "spent_in_mempool db (vin tx) [] = Inr [(n, q)]"
    using s spent_in_mempool_known [of db q n "vin tx"] by auto
qed

text \<open>A transaction that spends a coin of the owner is authorised by the owner.\<close>

lemma coin_authorises:
  assumes "coins_in_view ops view" "out \<in> set (wo_coins ops i)" "co_outpoint out \<in> spends tx"
    and "scriptPubKey (co_txout out) \<in> set (owner_scripts cx key)" "pubkey_usable cx key"
  shows "TxHasOwnerAuthorizationInputFromView cx tx view key = Inr ()"
proof -
  obtain txin where t: "txin \<in> set (vin tx)" "prevout txin = co_outpoint out" using assms(3) by (auto simp: spends_def)
  then have "spent_script view txin = Some (scriptPubKey (co_txout out))" using coins_in_viewD(2) [OF assms(1,2)] by simp
  then have "list_ex (\<lambda>txin. case spent_script view txin of None \<Rightarrow> False | Some s \<Rightarrow> s \<in> set (owner_scripts cx key)) (vin tx)"
    using assms(4) t(1) unfolding list_ex_iff by (intro bexI [of _ txin]) simp_all
  then show ?thesis using assms(5) usable_key [OF assms(5)] by (simp add: TxHasOwnerAuthorizationInputFromView_def)
qed

lemma owner_coin_authorises:
  assumes "coins_in_view ops view" "owner_input ops cx x key F w cc0 = Some cc" "setSelected cc \<subseteq> spends tx"
    and "op_type x \<notin> {TRANSFER, RENEW, CLAIM_BOND}" "pubkey_usable cx key"
  shows "TxHasOwnerAuthorizationInputFromView cx tx view key = Inr ()" "\<not> IsCoinBase tx"
proof -
  obtain out where o: "out \<in> set (AvailableCoins ops w)" "fSpendable out"
      "scriptPubKey (co_txout out) \<in> set (owner_scripts cx key)" "co_outpoint out \<in> setSelected cc"
    using assms(2,4) by (auto simp: owner_input_def SelectOwnerInput_def Select_def dest!: find_found)
  have s: "co_outpoint out \<in> spends tx" using o(4) assms(3) by blast
  have "out \<in> set (wo_coins ops (w_inner w))" using o(1) by (simp add: AvailableCoins_def)
  from coin_authorises [OF assms(1) this s o(3) assms(5)] show "TxHasOwnerAuthorizationInputFromView cx tx view key = Inr ()" .
  show "\<not> IsCoinBase tx" using not_coinbase [OF assms(1) s, of w] o by auto
qed

lemma bond_coin_authorises:
  assumes "coins_in_view ops view" "p \<in> co_outpoint ` set (filter fSpendable (AvailableCoins ops w))" "p \<in> spends tx" "pubkey_usable cx key"
    and "\<And>i out. out \<in> set (wo_coins ops i) \<Longrightarrow> co_outpoint out = p \<Longrightarrow> scriptPubKey (co_txout out) = GetScriptForRawPubKey key"
  shows "TxHasOwnerAuthorizationInputFromView cx tx view key = Inr ()" "\<not> IsCoinBase tx"
proof -
  obtain out where o: "out \<in> set (wo_coins ops (w_inner w))" "co_outpoint out = p" using assms(2) by (auto simp: AvailableCoins_def)
  have "scriptPubKey (co_txout out) \<in> set (owner_scripts cx key)"
    using assms(5) [OF o] usable_key [OF assms(4)] by (simp add: owner_scripts_def Let_def)
  from coin_authorises [OF assms(1) o(1) _ this assms(4)] show "TxHasOwnerAuthorizationInputFromView cx tx view key = Inr ()"
    using assms(3) o(2) by simp
  show "\<not> IsCoinBase tx" using not_coinbase [OF assms(1,3,2)] .
qed

text \<open>No transaction of the mempool has an operation on the name.\<close>

definition no_pending :: "NicknameContext \<Rightarrow> string \<Rightarrow> CTransaction list \<Rightarrow> bool" where
  "no_pending cx name mempool \<longleftrightarrow>
     (\<forall>t \<in> set mempool. \<forall>y. ExtractNicknameOperationFromTx cx t = Inr (Some y) \<longrightarrow> op_nickname y \<noteq> name)"

lemma no_pending_ok: "no_pending cx (op_nickname y) mempool \<Longrightarrow> check_pending cx tx y mempool = Inr ()"
  unfolding no_pending_def by (induction mempool) (auto simp: Let_def split: sum.splits option.splits)

lemma multiplier_read: "rn_db rn = Some db \<Longrightarrow> fst (ReadPricingMultiplierPermille db) = rpc_multiplier rn"
  by (simp add: rpc_multiplier_def)

lemma owner_input_fee: "owner_input ops cx x key F w cc0 = Some cc \<Longrightarrow> nMinimumTotalFee cc = nMinimumTotalFee cc0"
  by (auto simp: owner_input_def SelectOwnerInput_def Select_def split: if_splits)

lemma Select_fold_fee: "nMinimumTotalFee (fold Select xs cc) = nMinimumTotalFee cc"
  by (induction xs arbitrary: cc) (simp_all add: Select_def)

definition registrable :: "NicknameStateDB \<Rightarrow> string \<Rightarrow> int \<Rightarrow> bool" where
  "registrable db name height \<longleftrightarrow>
     (case ReadNickname db name of None \<Rightarrow> True
      | Some info \<Rightarrow> info_GetStatus info height \<in> {EXPIRED_AVAILABLE, RELEASED, BOND_CLAIMABLE})"

lemma register_check:
  assumes x: "op_type x = REGISTER" "ownerPubKey x = key" "NormalizeNickname (op_nickname x) = op_nickname x" "pubkey_usable cx key"
    and plan: "send_plan cx rn x key info claim = Inr plan" "with_change (vecSend plan) tx" and db: "rn_db rn = Some db"
    and tx: "spent_in_mempool db (vin tx) [] = Inr []" "TxHasOwnerAuthorizationInputFromView cx tx view key = Inr ()" "\<not> IsCoinBase tx"
    and fee: "GetRequiredNicknameFeeForRPC rn x \<le> fee"
    and name: "registrable db (op_nickname x) height" "no_pending cx (op_nickname x) mempool"
  shows "CheckNicknameOperationForMempool cx (Some db) mempool tx view height fee = Inr ()"
proof -
  let ?y = "received (cx_Hash cx) (cx_prefixes cx) x"
  obtain s where s: "BuildNicknameOpScript (cx_Hash cx) (cx_prefixes cx) x = Inr s"
    and p: "plan = bond_plan s [] (GetScriptForRawPubKey key) (bondAmount (GetPricing (length (op_nickname x)) (rpc_multiplier rn)))"
    using plan(1) x(1) by (auto simp: send_plan_def split: sum.splits)
  note key = usable_key [OF x(4)]
  note out = bond_plan_extract(1,2) [OF s conjunct2 [OF key] plan(2) [unfolded p]]
  have y: "op_type ?y = REGISTER" "op_nickname ?y = op_nickname x" "ownerPubKey ?y = key" using x by (simp_all add: received_def)
  have f: "require_fee ?y (rpc_multiplier rn) fee = Inr ()"
    using fee by (simp add: require_fee_def GetRequiredNicknameFee_def y GetRequiredNicknameFeeForRPC_def x)
  obtain v where v: "FindUniqueBondOutput tx (GetScriptForRawPubKey key)
      (bondAmount (GetPricing (length (op_nickname x)) (rpc_multiplier rn))) = Inr v" using out(2) by blast
  have c: "check_pending cx tx ?y mempool = Inr ()" using no_pending_ok [of cx ?y] name(2) y(2) by simp
  show ?thesis using name(1)
    by (simp add: CheckNicknameOperationForMempool_def out(1) tx y f c v multiplier_read [OF db] require_own_bond_def check_register_def
        x(4) key registrable_def split: option.splits)
qed

text \<open>A renewal and a transfer, which move the bond of the name they are on.\<close>

lemma moved_bond_check:
  assumes x: "op_type x = RENEW \<or> op_type x = TRANSFER" "NormalizeNickname (op_nickname x) = op_nickname x"
    and plan: "send_plan cx rn x (info_ownerPubKey info) (Some info) None = Inr plan" "with_change (vecSend plan) tx"
    and db: "rn_db rn = Some db" "ReadNickname db (op_nickname x) = Some info" "pubkey_usable cx (info_ownerPubKey info)"
    and tx: "spent_in_mempool db (vin tx) [] = Inr [(op_nickname x, GetBondOutpoint info)]"
      "TxHasOwnerAuthorizationInputFromView cx tx view (info_ownerPubKey info) = Inr ()" "\<not> IsCoinBase tx"
    and fee: "0 \<le> fee"
    and name: "IsMutableNicknameStatus (info_GetStatus info height)" "no_pending cx (op_nickname x) mempool"
  shows "CheckNicknameOperationForMempool cx (Some db) mempool tx view height fee = Inr ()"
proof -
  let ?y = "received (cx_Hash cx) (cx_prefixes cx) x"
  let ?inc = "GetRenewalBondIncrease (length (op_nickname x)) (rpc_multiplier rn)"
  obtain s key amount where s: "BuildNicknameOpScript (cx_Hash cx) (cx_prefixes cx) x = Inr s" and bond: "HasBondOutpoint info"
    and p: "plan = bond_plan s [GetBondOutpoint info] (GetScriptForRawPubKey key) amount" "pubkey_usable cx key"
    and t: "op_type x = TRANSFER \<Longrightarrow> key = newOwnerPubKey x \<and> amount = info_bondAmount info"
    and r: "op_type x = RENEW \<Longrightarrow> key = info_ownerPubKey info \<and> amount = info_bondAmount info + ?inc \<and>
      \<not> (?inc < 0 \<or> info_bondAmount info > MAX_MONEY - ?inc)"
    using plan(1) x(1) db(3) usable_key
    by (auto simp: send_plan_def active_bond_def rbind_throw_iff Let_def split: sum.splits)
  note key = usable_key [OF p(2)] usable_key [OF db(3)]
  note out = bond_plan_extract(1,2) [OF s conjunct2 [OF key(1)] plan(2) [unfolded p(1)]]
  obtain v where v: "FindUniqueBondOutput tx (GetScriptForRawPubKey key) amount = Inr v" using out(2) by blast
  have y: "op_type ?y = op_type x" "op_nickname ?y = op_nickname x" "op_type x = TRANSFER \<Longrightarrow> newOwnerPubKey ?y = newOwnerPubKey x"
    using x by (auto simp: received_def)
  have f: "require_fee ?y (rpc_multiplier rn) fee = Inr ()"
    using fee x(1) by (auto simp: require_fee_def GetRequiredNicknameFee_def y)
  have c: "check_pending cx tx ?y mempool = Inr ()" using no_pending_ok [of cx ?y] name(2) y(2) by simp
  have o: "spends_one ?y [(op_nickname x, GetBondOutpoint info)]" "require_own_bond ?y [(op_nickname x, GetBondOutpoint info)] = Inr ()"
    by (simp_all add: spends_one_def require_own_bond_def y)
  have e: "check_transfer cx view tx ?y [(op_nickname x, GetBondOutpoint info)] (Some info) (info_GetStatus info height) = Inr ()"
    if "op_type x = TRANSFER"
    using t [OF that] key v p(2) by (simp add: check_transfer_def o tx y that name bond)
  have e': "check_renew cx view (rpc_multiplier rn) tx ?y [(op_nickname x, GetBondOutpoint info)] (Some info)
      (info_GetStatus info height) = Inr ()" if "op_type x = RENEW"
    using r [OF that] key v db(3) by (simp add: check_renew_def o tx y that name bond Let_def)
  show ?thesis using x(1) e e'
    by (auto simp: CheckNicknameOperationForMempool_def out(1) tx y f c o multiplier_read [OF db(1)] db(2) Let_def)
qed

subsection \<open>From the commands\<close>

lemma wallet_command_Inr:
  assumes "fst (wallet_command ops rn cmd k False params body (Some w)) = Inr r" "rn_db rn = Some db"
  obtains txid where "fst (body db w) = Inr txid" "r = VSTR txid"
proof -
  have "rbind (fst (body db w)) (\<lambda>txid. Inr (VSTR txid)) = Inr r"
    using assms by (auto simp: wallet_command_def split: if_splits prod.splits)
  then show thesis using that by (auto simp: rbind_Inr_iff)
qed

lemma checked_Inr: "fst (checked c f w) = Inr r \<longleftrightarrow> (\<exists>y. c = Inr y \<and> fst (f y w) = Inr r)"
  by (cases c) (auto simp: checked_def)

lemma register_command:
  assumes "fst (registernickname ops cx rn False [VSTR name, VSTR keyHex, VSTR payout] (Some w)) = Inr r" "rn_db rn = Some db"
  obtains key txid where "pubkey_usable cx key" "r = VSTR txid"
    "fst (SendNicknameOperationTx ops cx rn
       (empty_operation\<lparr>op_type := REGISTER, op_nickname := name, payoutAddress := payout, ownerPubKey := key\<rparr>) key None None w) = Inr txid"
proof -
  obtain txid y where "r = VSTR txid" "DecodeOwnedPubKeyHex ops cx w keyHex = Inr y"
    and s: "fst (SendNicknameOperationTx ops cx rn
       (empty_operation\<lparr>op_type := REGISTER, op_nickname := name, payoutAddress := payout, ownerPubKey := y\<rparr>) y None None w) = Inr txid"
    using assms(1) unfolding registernickname_def
    by (rule wallet_command_Inr [OF _ assms(2)]) (auto simp: checked_Inr rbind_Inr_iff get_str_def)
  moreover from this have "pubkey_usable cx (ParseHex keyHex)" "y = CPubKey (ParseHex keyHex)"
    by (auto simp: DecodeOwnedPubKeyHex_def DecodeCompressedPubKeyHex_def Let_def rbind_Inr_iff rbind_throw_iff)
  ultimately show thesis using that [of y txid] usable_key by simp
qed

lemma mutable_info_Inr:
  assumes "mutable_info cx rn db (VSTR name) reason = Inr i" "ReadNickname db name = Some info"
  shows "i = info" "pubkey_usable cx (info_ownerPubKey info)"
  using assms by (auto simp: mutable_info_def read_info_def get_str_def rbind_Inr_iff rbind_throw_iff)

lemma move_command:
  assumes "cmd = renewnickname \<or> cmd = transfernickname" "fst (cmd ops cx rn False (VSTR name # params) (Some w)) = Inr r"
    and "rn_db rn = Some db" "ReadNickname db name = Some info"
  obtains x txid where "op_type x = RENEW \<or> op_type x = TRANSFER" "op_nickname x = info_nickname info"
    "pubkey_usable cx (info_ownerPubKey info)" "r = VSTR txid"
    "fst (SendNicknameOperationTx ops cx rn x (info_ownerPubKey info) (Some info) None w) = Inr txid"
  using assms(1)
proof
  assume cmd: "cmd = renewnickname"
  let ?x = "empty_operation\<lparr>op_type := RENEW, op_nickname := info_nickname info\<rparr>"
  obtain txid where u: "pubkey_usable cx (info_ownerPubKey info)" and t: "r = VSTR txid"
      "fst (SendNicknameOperationTx ops cx rn ?x (CPubKey (info_ownerPubKey info)) (Some info) None w) = Inr txid"
    using assms(2) unfolding cmd renewnickname_def
    by (rule wallet_command_Inr [OF _ assms(3)]) (auto simp: checked_Inr dest: mutable_info_Inr [OF _ assms(4)])
  then show thesis using that [of ?x txid] usable_key [OF u] by simp
next
  assume cmd: "cmd = transfernickname"
  obtain txid key where u: "pubkey_usable cx (info_ownerPubKey info)" and t: "r = VSTR txid"
      "fst (SendNicknameOperationTx ops cx rn (empty_operation\<lparr>op_type := TRANSFER, op_nickname := info_nickname info, newOwnerPubKey := key\<rparr>)
         (CPubKey (info_ownerPubKey info)) (Some info) None w) = Inr txid"
    using assms(2) unfolding cmd transfernickname_def
    by (rule wallet_command_Inr [OF _ assms(3)]) (auto simp: checked_Inr rbind_Inr_iff dest: mutable_info_Inr [OF _ assms(4)])
  then show thesis
    using that [of "empty_operation\<lparr>op_type := TRANSFER, op_nickname := info_nickname info, newOwnerPubKey := key\<rparr>" txid] usable_key [OF u]
    by simp
qed

text \<open>What the wallet gives back for an operation, in the terms of the mempool.\<close>

lemma sent_transaction:
  assumes "creates_as_asked ops" "pays_minimum_fee ops fee" "rn_db rn = Some db"
    and "fst (SendNicknameOperationTx ops cx rn x key info claim w) = Inr txid"
  obtains plan tx w2 F cc0 cc where "send_plan cx rn x key info claim = Inr plan" "with_change (vecSend plan) tx"
    "{p \<in> spends tx. ReadNicknameByBondOutpoint db p \<noteq> None} = set (requiredInputs plan)"
    "GetRequiredNicknameFeeForRPC rn x \<le> fee tx" "txid = GetHex (tx_hash tx)"
    "owner_input ops cx x key F w2 cc0 = Some cc" "setSelected cc \<subseteq> spends tx"
    "set (requiredInputs plan) \<subseteq> co_outpoint ` set (filter fSpendable (AvailableCoins ops w2))"
    "\<exists>w' recs cc i. wo_CreateTransaction ops w' recs (Some cc) = (Inr tx, i)"
proof -
  obtain plan w2 F cc tx i where p: "send_plan cx rn x key info claim = Inr plan"
    and r: "set (requiredInputs plan) \<subseteq> CollectSpendableTrackedBondOutpoints ops rn w2"
    and F: "F = CollectSpendableTrackedBondOutpoints ops rn w2 - set (requiredInputs plan)"
    and cc: "owner_input ops cx x key F w2 (fold Select (requiredInputs plan)
      (null_coin_control\<lparr>fAllowOtherInputs := True, nMinimumTotalFee := GetRequiredNicknameFeeForRPC rn x\<rparr>)) = Some cc"
    and tx: "wo_CreateTransaction ops (w2\<lparr>setLockedCoins := setLockedCoins w2 \<union> F\<rparr>) (vecSend plan) (Some cc) = (Inr tx, i)"
    and t: "txid = GetHex (tx_hash tx)"
    using assms(4) by (rule Send_success)
  have f: "nMinimumTotalFee cc \<le> fee tx" using assms(2) tx unfolding pays_minimum_fee_def by blast
  have f': "GetRequiredNicknameFeeForRPC rn x \<le> fee tx" using f owner_input_fee [OF cc] by (simp add: Select_fold_fee)
  have a: "set (requiredInputs plan) \<subseteq> co_outpoint ` set (filter fSpendable (AvailableCoins ops w2))"
    using r Collect_iff [OF assms(3), of _ ops w2] by (simp add: subset_iff)
  show thesis
    by (rule that [OF p creates_as_askedD(3) [OF assms(1) tx] spent_bonds_required [OF assms(1,3) F cc tx r] f' t cc
        creates_as_askedD(1) [OF assms(1) tx] a]) (use tx in blast)
qed

subsection \<open>An example wallet\<close>

text \<open>
  A wallet with given coins, all of one key: a transaction spends the selected ones and has the outputs it is asked for. The answer
  of the mempool is an argument.
\<close>

definition example_coin :: "COutPoint \<Rightarrow> COutput" where
  "example_coin p = \<lparr>co_outpoint = p, co_txout = \<lparr>nValue = 1, scriptPubKey = GetScriptForRawPubKey alice_key\<rparr>, fSpendable = True\<rparr>"

definition example_create :: "COutPoint list \<Rightarrow> CRecipient list \<Rightarrow> CCoinControl option \<Rightarrow> string \<times> CAmount + CTransaction" where
  "example_create ps recs coinControl =
     (case coinControl of
        None \<Rightarrow> Inr (example_tx 7 (hd ps) (map recipient_out recs))
      | Some cc \<Rightarrow>
          if setSelected cc \<subseteq> set ps \<and> nMinimumTotalFee cc \<le> 100 * COIN
          then Inr ((example_tx 7 null_outpoint (map recipient_out recs))\<lparr>vin :=
            map (\<lambda>p. \<lparr>prevout = p, scriptSig = [], nSequence = 0, scriptWitness = []\<rparr>) (filter (\<lambda>p. p \<in> setSelected cc) ps)\<rparr>)
          else Inl (''Insufficient funds'', 0))"

definition example_ops :: "COutPoint list \<Rightarrow> commit_result \<Rightarrow> CTransaction list WalletOps" where
  "example_ops ps c =
     \<lparr>wo_coins = (\<lambda>_. map example_coin ps),
      wo_IsLocked = (\<lambda>_. False), wo_HaveKey = (\<lambda>_ _. True), wo_GetBalance = (\<lambda>_. 1000 * COIN), wo_p2p_missing = (\<lambda>_. False),
      wo_GetSpendsForOutpoint = (\<lambda>_ _. []), wo_inactive = (\<lambda>_ _. False), wo_AbandonTransaction = (\<lambda>i _. (False, i)),
      wo_CreateTransaction = (\<lambda>w recs cc. (example_create ps recs cc, w_inner w)),
      wo_CommitTransaction = (\<lambda>i _ tx. (c, tx # i))\<rparr>"

text \<open>A node that tracks a bond, in a wallet with that bond and an ordinary coin.\<close>

definition two_coins :: "COutPoint list" where
  "two_coins = [COutPoint 9 0, COutPoint 5 0]"

definition bonded_node :: RpcNode where
  "bonded_node = \<lparr>rn_db = Some (empty_db\<lparr>db_bond := Mapping.update (COutPoint 9 0) ''bobby'' (db_bond empty_db)\<rparr>), rn_height = 0\<rparr>"

definition example_wallet :: "CTransaction list RpcWallet" where
  "example_wallet = \<lparr>setLockedCoins = {COutPoint 8 0}, w_inner = []\<rparr>"

lemma example_ops_parts:
  "wo_coins (example_ops ps c) i = map example_coin ps" "wo_IsLocked (example_ops ps c) i = False"
  "wo_HaveKey (example_ops ps c) i k = True"
  "wo_p2p_missing (example_ops ps c) i = False" "wo_inactive (example_ops ps c) i t = False"
  "wo_CreateTransaction (example_ops ps c) w recs cc = (example_create ps recs cc, w_inner w)"
  "wo_CommitTransaction (example_ops ps c) i m tx = (c, tx # i)"
  by (simp_all add: example_ops_def)

lemma example_creates: "creates_as_asked (example_ops ps c)"
  unfolding creates_as_asked_def
proof (intro allI impI)
  fix w recs cc tx i assume a: "wo_CreateTransaction (example_ops ps c) w recs (Some cc) = (Inr tx, i)"
  then have s: "setSelected cc \<subseteq> set ps" and v: "spends tx = set ps \<inter> setSelected cc" "vout tx = map recipient_out recs"
    by (auto simp: example_ops_parts example_create_def Let_def example_tx_def spends_def image_image split: if_splits)
  then show "setSelected cc \<subseteq> spends tx \<and>
        spends tx \<subseteq> setSelected cc \<union> co_outpoint ` set (filter fSpendable (AvailableCoins (example_ops ps c) w)) \<and>
        with_change recs tx"
    by (auto simp: with_change_def intro: exI [of _ "[]"])
qed

lemma example_fee: "pays_minimum_fee (example_ops ps c) (\<lambda>_. 100 * COIN)"
  by (auto simp: pays_minimum_fee_def example_ops_parts example_create_def split: if_splits)

lemma example_coins_view:
  assumes "\<And>p. p \<in> set ps \<Longrightarrow> unat (out_n p) < 2"
  shows "coins_in_view (example_ops ps c) example_view"
proof -
  have "out_n p \<noteq> - 1" if "p \<in> set ps" for p using assms [OF that] by (auto simp: unsigned_minus_1_eq_mask mask_eq_exp_minus_1)
  moreover have "spent_script example_view txin = Some (GetScriptForRawPubKey alice_key)" if "unat (out_n (prevout txin)) < 2" for txin
    using that by (simp add: spent_script_def example_view_def IsAvailable_def TxOut_IsNull_def Let_def)
  ultimately show ?thesis using assms
    by (auto simp: coins_in_view_def example_ops_parts example_coin_def OutPoint_IsNull_def)
qed

lemma bonded_reads:
  "rn_db bonded_node = Some (empty_db\<lparr>db_bond := Mapping.update (COutPoint 9 0) ''bobby'' (db_bond empty_db)\<rparr>)"
  "ReadNicknameByBondOutpoint (empty_db\<lparr>db_bond := Mapping.update (COutPoint 9 0) ''bobby'' (db_bond empty_db)\<rparr>) p =
     (if p = COutPoint 9 0 then Some ''bobby'' else None)"
  by (simp_all add: bonded_node_def ReadNicknameByBondOutpoint_def empty_db_def Mapping.lookup_update' Mapping.lookup_empty)

lemma example_collect:
  "CollectSpendableTrackedBondOutpoints (example_ops two_coins c) bonded_node \<lparr>setLockedCoins = L, w_inner = i\<rparr> = {COutPoint 9 0} - L"
  by (auto simp: CollectSpendableTrackedBondOutpoints_def bonded_reads AvailableCoins_def IsLockedCoin_def example_ops_parts example_coin_def two_coins_def)

lemma example_plan:
  "send_plan example_context rn (example_register\<lparr>op_nickname := name\<rparr>) key info claim =
     (case BuildNicknameOpScript (\<lambda>_. 0) main_prefixes (example_register\<lparr>op_nickname := name\<rparr>) of
        Inl e \<Rightarrow> Inl (JSONRPCError RPC_INVALID_PARAMETER (''Failed to encode nickname operation: '' @ e))
      | Inr opScript \<Rightarrow> Inr (bond_plan opScript [] (GetScriptForRawPubKey key) (bondAmount (GetPricing (length name) (rpc_multiplier rn)))))"
  by (simp add: send_plan_def example_context_def example_register_def split: sum.splits)

lemma example_bonded_multiplier: "rpc_multiplier bonded_node = 1000"
  using example_multiplier
  by (simp add: rpc_multiplier_def bonded_node_def ReadPricingMultiplierPermille_def ReadNicknamePricingState_def)

lemma example_registration_fee: "registrationFee (GetPricing 7 1000) \<le> 100 * COIN"
  by code_simp

lemma example_send:
  "fst (SendNicknameOperationTx (example_ops two_coins c) example_context bonded_node example_register alice_key None None example_wallet) =
   (case c of Not_committed r \<Rightarrow> tx_rejected r
    | Committed (Some r) \<Rightarrow> tx_rejected (if r = [] then ''unknown reason'' else r)
    | Committed None \<Rightarrow> Inr (GetHex 7))"
proof -
  obtain s where s: "BuildNicknameOpScript (\<lambda>_. 0) main_prefixes example_register = Inr s"
    using example_register_sendable BuildNicknameOpScript_iff by blast
  then have p: "send_plan example_context bonded_node example_register alice_key None None =
      Inr (bond_plan s [] (GetScriptForRawPubKey alice_key) (bondAmount (GetPricing 7 (rpc_multiplier bonded_node))))"
    using example_plan [of bonded_node "''alice_7''"] by (simp add: example_register_def eval_nat_numeral)
  have o: "GetScriptForRawPubKey alice_key \<in> set (owner_scripts example_context alice_key)"
    using example_keys(1) by (simp add: owner_scripts_def Let_def)
  have f: "GetRequiredNicknameFeeForRPC bonded_node example_register \<le> 100 * COIN"
    using example_registration_fee unfolding GetRequiredNicknameFeeForRPC_def example_bonded_multiplier by (simp add: example_register_def eval_nat_numeral)
  show ?thesis
    using o f unfolding SendNicknameOperationTx_def p
    by (simp add: bond_plan_def ScopedCoinRelocker_parts send_selected_def example_wallet_def example_collect [unfolded two_coins_def] ScopedCoinLocker_parts
        owner_input_def SelectOwnerInput_def AvailableCoins_def IsLockedCoin_def example_register_def Select_def null_coin_control_def
        send_created_def send_committed_def example_create_def example_ops_parts example_coin_def example_tx_def two_coins_def Let_def
        split: commit_result.split option.split)
qed

subsection \<open>Properties\<close>

text \<open>C16. A send that fails leaves no trace in the locks: whatever makes \<^verbatim>\<open>SendNicknameOperationTx\<close> fail, at any stage, exactly the
  coins that were locked before the call are locked after it. The bond that was unlocked for the send is locked again, and the
  other bonds that were locked meanwhile are unlocked.\<close>

theorem failed_send_restores_locks:
  assumes "fst (SendNicknameOperationTx ops cx rn x key info claim w) = Inl e"
  shows "setLockedCoins (snd (SendNicknameOperationTx ops cx rn x key info claim w)) = setLockedCoins w"
proof (cases "wo_p2p_missing ops (w_inner w) \<or> (\<exists>e. send_plan cx rn x key info claim = Inl e)")
  case True
  then show ?thesis by (auto simp: SendNicknameOperationTx_def)
next
  case False
  then obtain plan where p: "send_plan cx rn x key info claim = Inr plan" by (cases "send_plan cx rn x key info claim") auto
  let ?R = "requiredInputs plan" and ?f = "send_selected ops cx rn x key plan"
  let ?w = "fold UnlockCoin (filter (IsLockedCoin w) ?R) w"
  have s: "SendNicknameOperationTx ops cx rn x key info claim w = ScopedCoinRelocker ?R ?f w"
    using p False by (simp add: SendNicknameOperationTx_def)
  have f: "fst (?f ?w) = Inl e" using assms unfolding s ScopedCoinRelocker_parts .
  have "setLockedCoins (snd (?f ?w)) = setLockedCoins w - set ?R"
    using keeps_locks_error [OF send_selected_locks f] unlocked_required [of w ?R] by simp
  then show ?thesis unfolding s by (subst ScopedCoinRelocker_parts(3) [where f = ?f, OF f]) blast
qed

theorem failed_send_restores_locks_witness:
  "setLockedCoins (snd (SendNicknameOperationTx (example_ops two_coins (Committed (Some ''insufficient priority''))) example_context bonded_node
     example_register alice_key None None example_wallet)) = {COutPoint 8 0}"
  using failed_send_restores_locks [OF example_send [of "Committed (Some ''insufficient priority'')", unfolded tx_rejected_def, simplified]]
  by (simp add: example_wallet_def)

text \<open>C15. A command spends the bonds it has to and no other: of the tracked bonds, the transaction that a successful send created
  spends exactly those the plan requires. The wallet is assumed to create transactions that spend the selected coins
  and otherwise only available ones.\<close>

theorem send_spends_required_bonds:
  assumes "creates_as_asked ops" "rn_db rn = Some db"
    and "fst (SendNicknameOperationTx ops cx rn x key info claim w) = Inr txid"
  shows "\<exists>plan tx. send_plan cx rn x key info claim = Inr plan \<and>
    (\<exists>w' cc i. wo_CreateTransaction ops w' (vecSend plan) (Some cc) = (Inr tx, i)) \<and> txid = GetHex (tx_hash tx) \<and>
    {p \<in> spends tx. ReadNicknameByBondOutpoint db p \<noteq> None} = set (requiredInputs plan)"
proof -
  obtain plan w2 F cc tx i where p: "send_plan cx rn x key info claim = Inr plan"
    and r: "set (requiredInputs plan) \<subseteq> CollectSpendableTrackedBondOutpoints ops rn w2"
    and F: "F = CollectSpendableTrackedBondOutpoints ops rn w2 - set (requiredInputs plan)"
    and cc: "owner_input ops cx x key F w2 (fold Select (requiredInputs plan)
      (null_coin_control\<lparr>fAllowOtherInputs := True, nMinimumTotalFee := GetRequiredNicknameFeeForRPC rn x\<rparr>)) = Some cc"
    and tx: "wo_CreateTransaction ops (w2\<lparr>setLockedCoins := setLockedCoins w2 \<union> F\<rparr>) (vecSend plan) (Some cc) = (Inr tx, i)"
    and t: "txid = GetHex (tx_hash tx)"
    using assms(3) by (rule Send_success)
  show ?thesis using p tx t spent_bonds_required [OF assms(1,2) F cc tx r] by blast
qed

theorem send_spends_required_bonds_witness:
  "\<exists>plan tx. send_plan example_context bonded_node example_register alice_key None None = Inr plan \<and> GetHex 7 = GetHex (tx_hash tx) \<and>
     {p \<in> spends tx. ReadNicknameByBondOutpoint (the (rn_db bonded_node)) p \<noteq> None} = set (requiredInputs plan)"
proof -
  have s: "fst (SendNicknameOperationTx (example_ops two_coins (Committed None)) example_context bonded_node example_register alice_key None None
      example_wallet) = Inr (GetHex 7)" by (simp add: example_send)
  have "rn_db bonded_node = Some (the (rn_db bonded_node))" by (simp add: bonded_node_def)
  from send_spends_required_bonds [OF example_creates this s] show ?thesis by blast
qed

text \<open>C40. The command that registers, updates or releases a name leaves every other tracked bond that was unlocked unlocked: the
  call that locks all spendable bonds runs while the scoped locker still holds them, and the locker unlocks them when it goes
  out of scope. They stay open to ordinary coin selection.\<close>

theorem send_leaves_bonds_unlocked:
  assumes "op_type x \<in> {REGISTER, UPDATE, RELEASE}"
    and "fst (SendNicknameOperationTx ops cx rn x key info claim w) = Inr txid"
  shows "CollectSpendableTrackedBondOutpoints ops rn w \<inter>
    setLockedCoins (snd (SendNicknameOperationTx ops cx rn x key info claim w)) = {}"
proof -
  let ?L = "setLockedCoins (snd (SendNicknameOperationTx ops cx rn x key info claim w))"
  obtain plan w2 F cc where p: "send_plan cx rn x key info claim = Inr plan"
    and w2: "setLockedCoins w2 = setLockedCoins w - set (requiredInputs plan)" "set (requiredInputs plan) = {} \<longrightarrow> w_inner w2 = w_inner w"
    and F: "F = CollectSpendableTrackedBondOutpoints ops rn w2 - set (requiredInputs plan)"
    and u: "?L \<inter> (F - setLockedCoins w2) = {}"
    using assms(2) by (rule Send_success)
  have "requiredInputs plan = []" using p assms(1) by (auto simp: send_plan_def bond_plan_def plain_plan_def split: sum.splits)
  then have e: "w2 = w" "F = CollectSpendableTrackedBondOutpoints ops rn w2" using w2 F by simp_all
  have "CollectSpendableTrackedBondOutpoints ops rn w \<inter> setLockedCoins w = {}"
    by (auto simp: CollectSpendableTrackedBondOutpoints_def AvailableCoins_def IsLockedCoin_def split: option.splits)
  then show ?thesis using u unfolding e by blast
qed

theorem send_leaves_bonds_unlocked_witness:
  "CollectSpendableTrackedBondOutpoints (example_ops two_coins (Committed None)) bonded_node example_wallet = {COutPoint 9 0} \<and>
   COutPoint 9 0 \<notin> setLockedCoins (snd (SendNicknameOperationTx (example_ops two_coins (Committed None)) example_context bonded_node
     example_register alice_key None None example_wallet))"
proof -
  have c: "CollectSpendableTrackedBondOutpoints (example_ops two_coins (Committed None)) bonded_node example_wallet = {COutPoint 9 0}"
    by (simp add: example_wallet_def example_collect)
  have s: "fst (SendNicknameOperationTx (example_ops two_coins (Committed None)) example_context bonded_node example_register alice_key None None
      example_wallet) = Inr (GetHex 7)" by (simp add: example_send)
  have "op_type example_register \<in> {REGISTER, UPDATE, RELEASE}" by (simp add: example_register_def)
  from send_leaves_bonds_unlocked [OF this s] c show ?thesis by auto
qed


lemma example_register_sent:
  "fst (registernickname (example_ops two_coins (Committed None)) example_context bonded_node False
     [VSTR ''alice_7'', VSTR (HexStr alice_key), VSTR (payoutAddress example_register)] (Some example_wallet)) = Inr (VSTR (GetHex 7))"
proof -
  have x: "empty_operation\<lparr>op_type := REGISTER, op_nickname := ''alice_7'', payoutAddress := payoutAddress example_register,
      ownerPubKey := alice_key\<rparr> = example_register" by (simp add: empty_operation_def example_register_def alice_key_def)
  have k: "DecodeOwnedPubKeyHex (example_ops two_coins (Committed None)) example_context example_wallet (HexStr alice_key) = Inr alice_key"
    using example_keys(1,3,5)
    by (simp add: DecodeOwnedPubKeyHex_def DecodeCompressedPubKeyHex_def Let_def example_ops_parts COMPRESSED_SIZE_def)
      (simp add: alice_key_def)
  obtain w' where "SendNicknameOperationTx (example_ops two_coins (Committed None)) example_context bonded_node example_register
      alice_key None None example_wallet = (Inr (GetHex 7), w')"
    using example_send [of "Committed None"] by (cases "SendNicknameOperationTx (example_ops two_coins (Committed None)) example_context
      bonded_node example_register alice_key None None example_wallet") simp
  then show ?thesis
    by (simp add: registernickname_def wallet_command_def bonded_reads(1) example_ops_parts checked_def get_str_def k x)
qed


text \<open>C39. A registration of a name as it was typed: the command takes the price from the length of the text, the rules from the length
  of the normalised name. Where the two prices differ, a transaction with the outputs of the command's plan is rejected by
  the mempool, whatever inputs it has; an at sign before a name of seven characters is enough.\<close>

theorem registration_as_typed_rejected:
  assumes "op_type x = REGISTER" "pubkey_usable cx (ownerPubKey x)" "rn_db rn = Some db"
    and "send_plan cx rn x (ownerPubKey x) None None = Inr plan" "with_change (vecSend plan) tx"
    and "bondAmount (GetPricing (length (NormalizeNickname (op_nickname x))) (rpc_multiplier rn)) \<noteq>
      bondAmount (GetPricing (length (op_nickname x)) (rpc_multiplier rn))"
  shows "\<exists>e. CheckNicknameOperationForMempool cx (Some db) mempool tx view height fee = Inl e"
proof (cases "CheckNicknameOperationForMempool cx (Some db) mempool tx view height fee")
  case (Inr u)
  let ?y = "received (cx_Hash cx) (cx_prefixes cx) x"
  obtain s where s: "BuildNicknameOpScript (cx_Hash cx) (cx_prefixes cx) x = Inr s"
    and p: "plan = bond_plan s [] (GetScriptForRawPubKey (ownerPubKey x))
      (bondAmount (GetPricing (length (op_nickname x)) (rpc_multiplier rn)))"
    using assms(1,4) by (auto simp: send_plan_def split: sum.splits)
  note key = usable_key [OF assms(2)]
  have y: "op_type ?y = REGISTER" "op_nickname ?y = NormalizeNickname (op_nickname x)" "ownerPubKey ?y = ownerPubKey x"
    using assms(1) by (simp_all add: received_def)
  have "\<exists>v. FindUniqueBondOutput tx (GetScriptForRawPubKey (ownerPubKey x))
      (bondAmount (GetPricing (length (NormalizeNickname (op_nickname x))) (rpc_multiplier rn))) = Inr v"
    using Inr bond_plan_extract(1) [OF s conjunct2 [OF key] assms(5) [unfolded p]] key
    by (auto simp: CheckNicknameOperationForMempool_def check_register_def y multiplier_read [OF assms(3)] rbind_Inr_iff Let_def)
  then show ?thesis using bond_plan_extract(3) [OF s conjunct2 [OF key] assms(5) [unfolded p] assms(6)] by blast
qed blast

theorem registration_as_typed_rejected_witness:
  "\<exists>plan e. send_plan example_context bonded_node (example_register\<lparr>op_nickname := ''@alice_7''\<rparr>) alice_key None None = Inr plan \<and>
     CheckNicknameOperationForMempool example_context (rn_db bonded_node) []
       (example_tx 7 (COutPoint 5 0) (map recipient_out (vecSend plan))) example_view 1 (100 * COIN) = Inl e"
proof -
  let ?x = "example_register\<lparr>op_nickname := ''@alice_7''\<rparr>"
  have n: "NormalizeNickname ''@alice_7'' = ''alice_7''" "valid_nickname ''alice_7''" by code_simp+
  then have "sendable (\<lambda>_. 0) main_prefixes ?x" using example_register_sendable by (simp add: sendable_def example_register_def pays_def)
  then obtain s where "BuildNicknameOpScript (\<lambda>_. 0) main_prefixes ?x = Inr s" using BuildNicknameOpScript_iff by blast
  then obtain plan where p: "send_plan example_context bonded_node ?x alice_key None None = Inr plan" by (simp add: example_plan)
  have k: "op_type ?x = REGISTER" "ownerPubKey ?x = alice_key" by (simp_all add: example_register_def alice_key_def)
  have "bondAmount (GetPricing 7 1000) \<noteq> bondAmount (GetPricing 8 1000)" by code_simp
  then have b: "bondAmount (GetPricing (length (NormalizeNickname (op_nickname ?x))) (rpc_multiplier bonded_node)) \<noteq>
      bondAmount (GetPricing (length (op_nickname ?x)) (rpc_multiplier bonded_node))"
    by (simp add: n example_bonded_multiplier eval_nat_numeral)
  have "with_change (vecSend plan) (example_tx 7 (COutPoint 5 0) (map recipient_out (vecSend plan)))"
    unfolding with_change_def
    by (rule exI [of _ "[]"], rule exI [of _ "map recipient_out (vecSend plan)"], rule exI [of _ "[]"]) (simp add: example_tx_def)
  from registration_as_typed_rejected [OF k(1) _ bonded_reads(1) _ this b] p k(2) example_keys(5) show ?thesis
    unfolding bonded_reads(1) by auto
qed

text \<open>C9. A renewal or a transfer that the command reports as sent passes the nickname rules of the mempool for the next block, on the
  database of any node: it spends the bond of the name and no other, makes the new bond of the right amount and
  key, and the bond it spends authorises it. The name can be changed in the next block and has no operation in the
  mempool; the wallet's coin at the bond pays the owner's key.\<close>

theorem moved_bond_reaches_mempool:
  assumes "creates_as_asked ops" "pays_minimum_fee ops fee" "coins_in_view ops view" "rn_db rn = Some db" "node cx bs db"
    and "cmd = renewnickname \<or> cmd = transfernickname" "fst (cmd ops cx rn False (VSTR name # params) (Some w)) = Inr r"
    and "ReadNickname db name = Some info" "IsMutableNicknameStatus (info_GetStatus info (rn_height rn + 1))"
    and "no_pending cx (info_nickname info) mempool"
    and "\<And>i out. out \<in> set (wo_coins ops i) \<Longrightarrow> co_outpoint out = GetBondOutpoint info \<Longrightarrow>
      scriptPubKey (co_txout out) = GetScriptForRawPubKey (info_ownerPubKey info)"
  shows "\<exists>tx. r = VSTR (GetHex (tx_hash tx)) \<and> (\<exists>w' recs cc i. wo_CreateTransaction ops w' recs (Some cc) = (Inr tx, i)) \<and>
    CheckNicknameOperationForMempool cx (Some db) mempool tx view (rn_height rn + 1) (fee tx) = Inr ()"
proof -
  obtain x txid where x: "op_type x = RENEW \<or> op_type x = TRANSFER" "op_nickname x = info_nickname info"
    and u: "pubkey_usable cx (info_ownerPubKey info)" and r: "r = VSTR txid"
    and send: "fst (SendNicknameOperationTx ops cx rn x (info_ownerPubKey info) (Some info) None w) = Inr txid"
    using assms(6,7,4,8) by (rule move_command)
  obtain plan tx w2 F cc0 cc where p: "send_plan cx rn x (info_ownerPubKey info) (Some info) None = Inr plan" "with_change (vecSend plan) tx"
    and b: "{p \<in> spends tx. ReadNicknameByBondOutpoint db p \<noteq> None} = set (requiredInputs plan)"
    and f: "GetRequiredNicknameFeeForRPC rn x \<le> fee tx" and t: "txid = GetHex (tx_hash tx)"
    and a: "set (requiredInputs plan) \<subseteq> co_outpoint ` set (filter fSpendable (AvailableCoins ops w2))"
    and c: "\<exists>w' recs cc i. wo_CreateTransaction ops w' recs (Some cc) = (Inr tx, i)"
    by (rule sent_transaction [OF assms(1,2,4) send])
  have q: "requiredInputs plan = [GetBondOutpoint info]" "HasBondOutpoint info"
    using p(1) x(1) by (auto simp: send_plan_def active_bond_def bond_plan_def rbind_Inr_iff rbind_throw_iff Let_def split: sum.splits)
  have "records_ok db" using node_ok(1) [OF assms(5)] by (simp add: db_ok_def)
  then have n: "NormalizeNickname (info_nickname info) = info_nickname info" "get_bond db (GetBondOutpoint info) = Some (info_nickname info)"
      "ReadNickname db (info_nickname info) = Some info"
    using assms(8) q(2) unfolding records_ok_def ReadNickname_def NormalizeKeyName_def by metis+
  have s: "spent_in_mempool db (vin tx) [] = Inr [(info_nickname info, GetBondOutpoint info)]"
    using spent_required(2) [OF b q(1)] n(2) by (simp add: ReadNicknameByBondOutpoint_def)
  have i: "GetBondOutpoint info \<in> co_outpoint ` set (filter fSpendable (AvailableCoins ops w2))" "GetBondOutpoint info \<in> spends tx"
    using a b q(1) by auto
  have "0 \<le> fee tx" using f x(1) by (auto simp: GetRequiredNicknameFeeForRPC_def)
  then have "CheckNicknameOperationForMempool cx (Some db) mempool tx view (rn_height rn + 1) (fee tx) = Inr ()"
    using moved_bond_check [OF x(1) _ p assms(4)] bond_coin_authorises [OF assms(3) i u assms(11)] x(2) n s u assms(9,10) by simp
  then show ?thesis using r t c by blast
qed

lemma example_renew_sent:
  assumes "node example_context [first_block] db1" "get_nick db1 ''alice_7'' = Some alice_record" "fst (ReadPricingMultiplierPermille db1) = 1000"
  shows "fst (renewnickname (example_ops [COutPoint 7 1] (Committed None)) example_context \<lparr>rn_db = Some db1, rn_height = 1\<rparr> False
    [VSTR ''alice_7''] (Some \<lparr>setLockedCoins = {COutPoint 7 1}, w_inner = []\<rparr>)) = Inr (VSTR (GetHex 7))"
proof -
  let ?ops = "example_ops [COutPoint 7 1] (Committed None)" and ?rn = "\<lparr>rn_db = Some db1, rn_height = 1\<rparr>"
  let ?x = "empty_operation\<lparr>op_type := RENEW, op_nickname := ''alice_7''\<rparr>"
  have n: "NormalizeNickname ''alice_7'' = ''alice_7''" "valid_nickname ''alice_7''" by code_simp+
  have "info_GetStatus alice_record 1 = ACTIVE"
    by (simp add: info_GetStatus_def GetStatus_def alice_record_def ActiveBlocks_def ACTIVE_BLOCKS_def example_context_def)
  then have m: "mutable_info example_context ?rn db1 (VSTR ''alice_7'') e = Inr alice_record" for e
    using assms(2) n example_keys(5)
    by (simp add: mutable_info_def get_str_def read_info_def ReadNickname_def NormalizeKeyName_def IsMutableNicknameStatus_def)
      (simp add: alice_record_def)
  have "sendable (\<lambda>_. 0) main_prefixes ?x" using n by (simp add: sendable_def pays_def empty_operation_def)
  then obtain s where s: "BuildNicknameOpScript (\<lambda>_. 0) main_prefixes ?x = Inr s" using BuildNicknameOpScript_iff by blast
  have a: "0 < bondAmount (GetPricing 7 1000)" "\<not> (GetRenewalBondIncrease 7 1000 < 0 \<or>
      bondAmount (GetPricing 7 1000) > MAX_MONEY - GetRenewalBondIncrease 7 1000)" by code_simp+
  have l: "length ''alice_7'' = 7" by simp
  have mult: "rpc_multiplier ?rn = 1000" using assms(3) by (simp add: rpc_multiplier_def)
  have p: "send_plan example_context ?rn ?x alice_key (Some alice_record) None =
      Inr (bond_plan s [COutPoint 7 1] (GetScriptForRawPubKey alice_key) (bondAmount (GetPricing 7 1000) + GetRenewalBondIncrease 7 1000))"
    using s a unfolding send_plan_def mult
    by (simp add: example_context_def empty_operation_def active_bond_def alice_bond l del: list.size) (simp add: alice_record_def)
  have b: "ReadNicknameByBondOutpoint db1 (COutPoint 7 1) = Some ''alice_7''"
    using db_bond_name [OF node_ok(1) [OF assms(1)], of "''alice_7''"] assms(2) alice_bond(3) by (simp add: ReadNicknameByBondOutpoint_def)
  have "fst (SendNicknameOperationTx ?ops example_context ?rn ?x alice_key (Some alice_record) None
      \<lparr>setLockedCoins = {COutPoint 7 1}, w_inner = []\<rparr>) = Inr (GetHex 7)"
    using b unfolding SendNicknameOperationTx_def p
    by (simp add: bond_plan_def ScopedCoinRelocker_parts IsLockedCoin_def UnlockCoin_def send_selected_def
        CollectSpendableTrackedBondOutpoints_def AvailableCoins_def ScopedCoinLocker_parts owner_input_def empty_operation_def
        GetRequiredNicknameFeeForRPC_def Select_def null_coin_control_def send_created_def send_committed_def
        example_create_def example_ops_parts example_coin_def example_tx_def COIN_def Let_def)
  then show ?thesis using example_keys(1)
    by (cases "SendNicknameOperationTx ?ops example_context ?rn ?x alice_key (Some alice_record) None
          \<lparr>setLockedCoins = {COutPoint 7 1}, w_inner = []\<rparr>")
      (simp add: renewnickname_def wallet_command_def example_ops_parts checked_def m alice_record_def)
qed

theorem moved_bond_reaches_mempool_witness:
  "\<exists>db tx. node example_context [first_block] db \<and> GetHex 7 = GetHex (tx_hash tx) \<and>
     CheckNicknameOperationForMempool example_context (Some db) [] tx example_view 2 (100 * COIN) = Inr ()"
proof -
  obtain db1 where c: "ConnectBlock example_context empty_db first_block = Inr db1"
    and L: "get_nick db1 = (\<lambda>_. None)(''alice_7'' := Some alice_record)" using first_connect by blast
  have node: "node example_context [first_block] db1" using node.Connect [OF node.Start example_new(1) c] .
  have L': "get_nick db1 ''alice_7'' = Some alice_record" by (simp add: L)
  have r: "ReadNickname db1 ''alice_7'' = Some alice_record"
  proof -
    have "NormalizeNickname ''alice_7'' = ''alice_7''" by code_simp
    then show ?thesis using L' by (simp add: ReadNickname_def NormalizeKeyName_def)
  qed
  have v: "coins_in_view (example_ops [COutPoint 7 1] (Committed None)) example_view" by (rule example_coins_view) auto
  let ?ops = "example_ops [COutPoint 7 1] (Committed None)" and ?rn = "\<lparr>rn_db = Some db1, rn_height = 1\<rparr>"
  have st: "IsMutableNicknameStatus (info_GetStatus alice_record (rn_height ?rn + 1))"
    by (simp add: IsMutableNicknameStatus_def alice_bond(4))
  have k: "info_ownerPubKey alice_record = alice_key" by (simp add: alice_record_def)
  have "\<exists>tx. VSTR (GetHex 7) = VSTR (GetHex (tx_hash tx)) \<and>
      (\<exists>w' recs cc i. wo_CreateTransaction ?ops w' recs (Some cc) = (Inr tx, i)) \<and>
      CheckNicknameOperationForMempool example_context (Some db1) [] tx example_view (rn_height ?rn + 1) (100 * COIN) = Inr ()"
    by (rule moved_bond_reaches_mempool [where cmd = renewnickname, OF example_creates example_fee v _ node _
          example_renew_sent [OF node L' first_multiplier [OF c]] r st])
      (simp_all add: no_pending_def example_ops_parts example_coin_def k)
  then show ?thesis using node by auto
qed

subsection \<open>Payments\<close>

lemma Resolve_Inr:
  assumes "ResolveActiveNicknameAddress cx rn input = Inr (a, n)" "rn_db rn = Some db"
  shows "n = NormalizeNickname (if input \<noteq> [] \<and> input ! 0 = CHR ''@'' then drop 1 input else input)"
    "\<exists>info. ReadNickname db n = Some info \<and> info_GetStatus info (rn_height rn) = ACTIVE \<and>
       Address_Get (cx_prefixes cx) a = address_dest (cx_Hash cx) (cx_prefixes cx) (info_payoutAddress info)"
    "Address_Get (cx_prefixes cx) a \<noteq> CNoDestination"
  using assms
  by (auto simp: ResolveActiveNicknameAddress_def with_nickname_db_def read_info_def Let_def rbind_Inr_iff rbind_throw_iff
      address_dest_def Address_Get_def Address_IsValid_def split: option.splits)

lemma memo_recipients_Inr:
  assumes "memo_recipients params = Inr (recs, values)"
  obtains data where "text_param params 5 = Inr data"
    "if data = [] then recs = [] else \<exists>payload d. recs = [\<lparr>rc_scriptPubKey = memo_script payload, rc_nAmount = 0, fSubtractFeeFromAmount = False\<rparr>] \<and>
       DecodeNicknameMemoPayload payload = Inr d \<and> memo_data d = data"
proof -
  obtain data where t: "text_param params 5 = Inr data" using assms by (auto simp: memo_recipients_def rbind_Inr_iff)
  show thesis
  proof (cases "data = []")
    case True
    then show thesis using that [OF t] assms t by (simp add: memo_recipients_def)
  next
    case False
    then obtain name type payload where "BuildNicknameMemoPayload data type = Inr payload"
        "recs = [\<lparr>rc_scriptPubKey = memo_script payload, rc_nAmount = 0, fSubtractFeeFromAmount = False\<rparr>]"
      using assms t by (auto simp: memo_recipients_def rbind_Inr_iff BuildNicknameMemoScript_def split: if_splits)
    then show thesis using that [OF t] False Decode_Build by fastforce
  qed
qed

lemma SendMoney_Inr:
  assumes "fst (SendMoney ops dest amount sub vals extra w) = Inr tx"
  shows "0 < amount" "\<exists>i. wo_CreateTransaction ops w
    (\<lparr>rc_scriptPubKey = GetScriptForDestination dest, rc_nAmount = amount, fSubtractFeeFromAmount = sub\<rparr> # extra) None = (Inr tx, i)"
  using assms by (auto simp: SendMoney_def Let_def split: if_splits prod.splits sum.splits commit_result.splits)



end
