(* ===== verification/JS_Core.thy ===== *)
theory JS_Core
  imports Complex_Main Kubu_Prelude
begin

text \<open>
  The part of JavaScript that the web front end uses (\<^verbatim>\<open>src/www\<close>, \<^verbatim>\<open>src/Client-Side\<close>, \<^verbatim>\<open>src/vendors\<close>):
  strings as lists of UTF-16 code units, values as they come from JSON and YAML, property access,
  truthiness, conversion to strings and the string methods the sources call. Behaviour the model
  does not describe, such as properties found on a prototype, is the error \<open>Outside\<close>, about which
  nothing is claimed. The decimal notation of a number is an argument.
\<close>

type_synonym jsstring = "16 word list"

definition js :: "string \<Rightarrow> jsstring" where
  "js s = map (\<lambda>c. word_of_nat (of_char c)) s"

datatype Number = NaN | PosInfinity | NegInfinity | Finite rat

datatype JsValue =
  JUndefined | JNull | JBool bool | JNum Number | JStr jsstring
| JArr "JsValue list" | JObj "(jsstring \<times> JsValue) list"

datatype js_error = TypeError | Outside

fun truthy :: "JsValue \<Rightarrow> bool" where
  "truthy JUndefined = False"
| "truthy JNull = False"
| "truthy (JBool b) = b"
| "truthy (JNum NaN) = False"
| "truthy (JNum (Finite q)) = (q \<noteq> 0)"
| "truthy (JNum PosInfinity) = True"
| "truthy (JNum NegInfinity) = True"
| "truthy (JStr s) = (s \<noteq> [])"
| "truthy (JArr xs) = True"
| "truthy (JObj kvs) = True"

subsection \<open>Objects\<close>

text \<open>An object lists its own properties in the order of their creation, each name once.\<close>

fun obj_set :: "'k \<Rightarrow> 'v \<Rightarrow> ('k \<times> 'v) list \<Rightarrow> ('k \<times> 'v) list" where
  "obj_set k v [] = [(k, v)]"
| "obj_set k v ((k', v') # kvs) = (if k' = k then (k, v) # kvs else (k', v') # obj_set k v kvs)"

definition object_prototype :: "jsstring list" where
  "object_prototype = map js [''constructor'', ''__defineGetter__'', ''__defineSetter__'',
     ''hasOwnProperty'', ''__lookupGetter__'', ''__lookupSetter__'', ''isPrototypeOf'',
     ''propertyIsEnumerable'', ''toString'', ''valueOf'', ''__proto__'', ''toLocaleString'']"

text \<open>The property names the sources read that no prototype of a built-in type defines.\<close>

definition plain_names :: "jsstring list" where
  "plain_names = map js [''href'', ''class'', ''children'', ''params'', ''id'', ''script'', ''code'',
     ''rel'', ''template'', ''main'', ''error'', ''message'', ''result'', ''address'']"

definition unit_digit :: "16 word \<Rightarrow> bool" where
  "unit_digit u \<longleftrightarrow> 48 \<le> u \<and> u \<le> 57"

definition index_value :: "jsstring \<Rightarrow> nat" where
  "index_value k = foldl (\<lambda>n u. 10 * n + (unat u - 48)) 0 k"

definition is_index :: "jsstring \<Rightarrow> bool" where
  "is_index k \<longleftrightarrow> k \<noteq> [] \<and> list_all unit_digit k \<and> (hd k \<noteq> 48 \<or> length k = 1) \<and>
     index_value k < 2 ^ 32 - 1"

definition get_prop :: "JsValue \<Rightarrow> jsstring \<Rightarrow> js_error + JsValue" where
  "get_prop v k =
     (case v of
        JUndefined \<Rightarrow> Inl TypeError
      | JNull \<Rightarrow> Inl TypeError
      | JObj kvs \<Rightarrow>
          (case map_of kvs k of
             Some x \<Rightarrow> Inr x
           | None \<Rightarrow> if k \<in> set object_prototype then Inl Outside else Inr JUndefined)
      | JArr xs \<Rightarrow>
          if is_index k then Inr (if index_value k < length xs then xs ! index_value k else JUndefined)
          else if k \<in> set plain_names then Inr JUndefined else Inl Outside
      | JStr s \<Rightarrow>
          if is_index k then Inr (if index_value k < length s then JStr [s ! index_value k] else JUndefined)
          else if k \<in> set plain_names then Inr JUndefined else Inl Outside
      | _ \<Rightarrow> if k \<in> set plain_names then Inr JUndefined else Inl Outside)"

fun decimal :: "nat \<Rightarrow> jsstring" where
  "decimal n = (if n < 10 then [word_of_nat (48 + n)] else decimal (n div 10) @ [word_of_nat (48 + n mod 10)])"

declare decimal.simps [simp del]

text \<open>Own properties in the order of \<^verbatim>\<open>Object.entries\<close>: array indices ascending, then the others.\<close>

definition ordered_entries :: "(jsstring \<times> JsValue) list \<Rightarrow> (jsstring \<times> JsValue) list" where
  "ordered_entries kvs =
     sort_key (\<lambda>kv. index_value (fst kv)) (filter (\<lambda>kv. is_index (fst kv)) kvs) @
     filter (\<lambda>kv. \<not> is_index (fst kv)) kvs"

definition own_entries :: "JsValue \<Rightarrow> (jsstring \<times> JsValue) list" where
  "own_entries v =
     (case v of
        JObj kvs \<Rightarrow> ordered_entries kvs
      | JArr xs \<Rightarrow> zip (map decimal [0..<length xs]) xs
      | JStr s \<Rightarrow> zip (map decimal [0..<length s]) (map (\<lambda>u. JStr [u]) s)
      | _ \<Rightarrow> [])"

definition Object_entries :: "JsValue \<Rightarrow> js_error + (jsstring \<times> JsValue) list" where
  "Object_entries v =
     (if v = JUndefined \<or> v = JNull then Inl TypeError else Inr (own_entries v))"

text \<open>The object expression \<^verbatim>\<open>{...a, ...b}\<close>.\<close>

definition spread2 :: "JsValue \<Rightarrow> JsValue \<Rightarrow> (jsstring \<times> JsValue) list" where
  "spread2 a b = fold (\<lambda>(k, v). obj_set k v) (own_entries a @ own_entries b) []"

subsection \<open>Conversion to strings\<close>

fun to_str :: "(Number \<Rightarrow> jsstring) \<Rightarrow> JsValue \<Rightarrow> js_error + jsstring" where
  "to_str N JUndefined = Inr (js ''undefined'')"
| "to_str N JNull = Inr (js ''null'')"
| "to_str N (JBool b) = Inr (if b then js ''true'' else js ''false'')"
| "to_str N (JNum n) = Inr (N n)"
| "to_str N (JStr s) = Inr s"
| "to_str N (JArr xs) =
     rbind (rmap (\<lambda>x. if x = JUndefined \<or> x = JNull then Inr [] else to_str N x) xs) (\<lambda>ss.
       Inr (concat (case ss of [] \<Rightarrow> [] | s # rest \<Rightarrow> s # map (\<lambda>t. js '','' @ t) rest)))"
| "to_str N (JObj kvs) =
     (if js ''toString'' \<in> fst ` set kvs \<or> js ''valueOf'' \<in> fst ` set kvs then Inl Outside
      else Inr (js ''[object Object]''))"

subsection \<open>String methods\<close>

text \<open>The code units that \<^verbatim>\<open>trim\<close> removes: white space and line terminators.\<close>

definition js_space :: "16 word \<Rightarrow> bool" where
  "js_space u \<longleftrightarrow> u \<in> set ([9, 10, 11, 12, 13, 32, 0xA0, 0x1680] @ [0x2000, 0x2001, 0x2002, 0x2003,
     0x2004, 0x2005, 0x2006, 0x2007, 0x2008, 0x2009, 0x200A, 0x2028, 0x2029, 0x202F, 0x205F, 0x3000,
     0xFEFF])"

definition js_trim :: "jsstring \<Rightarrow> jsstring" where
  "js_trim s = rdropWhile js_space (dropWhile js_space s)"

definition startsWith :: "jsstring \<Rightarrow> jsstring \<Rightarrow> bool" where
  "startsWith s p \<longleftrightarrow> take (length p) s = p"

text \<open>\<^verbatim>\<open>s.replace(/^@/, '')\<close>.\<close>

definition strip_at_sign :: "jsstring \<Rightarrow> jsstring" where
  "strip_at_sign s = (if startsWith s (js ''@'') then drop 1 s else s)"

fun split_on :: "16 word \<Rightarrow> jsstring \<Rightarrow> jsstring list" where
  "split_on u [] = [[]]"
| "split_on u (c # s) =
     (if c = u then [] # split_on u s
      else case split_on u s of [] \<Rightarrow> [[c]] | w # ws \<Rightarrow> (c # w) # ws)"

definition join :: "jsstring \<Rightarrow> jsstring list \<Rightarrow> jsstring" where
  "join sep ws = concat (case ws of [] \<Rightarrow> [] | w # rest \<Rightarrow> w # map (\<lambda>x. sep @ x) rest)"

text \<open>
  \<^verbatim>\<open>GetSubstitution\<close> of the language for a match without captures: a dollar sign followed by another
  one, an ampersand, a backtick or an apostrophe stands for a dollar sign, the match, the text before
  the match and the text after it.
\<close>

fun expand :: "jsstring \<Rightarrow> jsstring \<Rightarrow> jsstring \<Rightarrow> jsstring \<Rightarrow> jsstring" where
  "expand matched before after [] = []"
| "expand matched before after [c] = [c]"
| "expand matched before after (c # d # r) =
     (if c = 36 \<and> d = 36 then 36 # expand matched before after r
      else if c = 36 \<and> d = 38 then matched @ expand matched before after r
      else if c = 36 \<and> d = 96 then before @ expand matched before after r
      else if c = 36 \<and> d = 39 then after @ expand matched before after r
      else c # expand matched before after (d # r))"

text \<open>\<^verbatim>\<open>replaceAll\<close> with a search string that is not empty, from the position after \<open>before\<close>.\<close>

function replace_from :: "jsstring \<Rightarrow> jsstring \<Rightarrow> jsstring \<Rightarrow> jsstring \<Rightarrow> jsstring" where
  "replace_from p v before s =
     (if s = [] then []
      else if p \<noteq> [] \<and> startsWith s p then
        expand p before (drop (length p) s) v @ replace_from p v (before @ p) (drop (length p) s)
      else hd s # replace_from p v (before @ [hd s]) (tl s))"
  by auto
termination by (relation "measure (\<lambda>(_, _, _, s). length s)") auto

declare replace_from.simps [simp del]

definition replaceAll :: "jsstring \<Rightarrow> jsstring \<Rightarrow> jsstring \<Rightarrow> jsstring" where
  "replaceAll s p v = replace_from p v [] s"

subsection \<open>Laws\<close>

lemma js_inject [simp]: "js a = js b \<longleftrightarrow> a = b"
proof
  have "inj (\<lambda>c :: char. word_of_nat (of_char c) :: 16 word)"
  proof (rule injI)
    fix c d :: char
    assume "word_of_nat (of_char c) = (word_of_nat (of_char d) :: 16 word)"
    then have "unat (word_of_nat (of_char c) :: 16 word) = unat (word_of_nat (of_char d) :: 16 word)" by simp
    moreover have "of_char e < (2 ^ 16 :: nat)" for e :: char
      using char_code_less [of e] unfolding char_code_def by (rule less_trans) simp
    ultimately have "of_char c = (of_char d :: nat)" by (simp add: unat_of_nat)
    then show "c = d" by simp
  qed
  then show "js a = js b \<Longrightarrow> a = b" by (simp add: js_def inj_map_eq_map)
qed simp

lemma js_in_names [simp]:
  "js a \<in> set object_prototype \<longleftrightarrow> a \<in> {''constructor'', ''__defineGetter__'', ''__defineSetter__'',
     ''hasOwnProperty'', ''__lookupGetter__'', ''__lookupSetter__'', ''isPrototypeOf'',
     ''propertyIsEnumerable'', ''toString'', ''valueOf'', ''__proto__'', ''toLocaleString''}"
  by (simp add: object_prototype_def)

lemma get_own: "map_of kvs k = Some v \<Longrightarrow> get_prop (JObj kvs) k = Inr v"
  by (simp add: get_prop_def)

lemma get_missing: "map_of kvs k = None \<Longrightarrow> k \<notin> set object_prototype \<Longrightarrow> get_prop (JObj kvs) k = Inr JUndefined"
  by (simp add: get_prop_def)

lemma ordered_entries_plain:
  "list_all (\<lambda>kv. \<not> is_index (fst kv)) kvs \<Longrightarrow> ordered_entries kvs = kvs"
  by (simp add: ordered_entries_def list_all_iff)

lemma ordered_entries_single [simp]: "ordered_entries [kv] = [kv]"
  by (simp add: ordered_entries_def)

lemma split_on_none: "u \<notin> set s \<Longrightarrow> split_on u s = [s]"
  by (induction s) auto

lemma split_on_two: "u \<notin> set a \<Longrightarrow> u \<notin> set b \<Longrightarrow> split_on u (a @ u # b) = [a, b]"
  by (induction a) (auto simp: split_on_none)

lemma map_obj_set: "map (\<lambda>(k, v). (k, f v)) (obj_set k v kvs) = obj_set k (f v) (map (\<lambda>(k, v). (k, f v)) kvs)"
  by (induction kvs) auto

lemma set_obj_set: "set (obj_set k v kvs) \<subseteq> insert (k, v) (set kvs)"
  by (induction kvs) (auto split: if_splits)

end
