(* ===== verification/Web4_Compiler.thy ===== *)
theory Web4_Compiler
  imports JS_Core
begin

text \<open>
  The page compiler \<^verbatim>\<open>src/www/kubucoin.org/default/compiler.cjs\<close>: a YAML manifest is turned into one HTML
  page. Arguments stand for what is not in the repository: the YAML reader \<open>yaml_load\<close>, the decimal
  notation of numbers \<open>N\<close>, and \<open>eval_output\<close>, which gives the value that the code of a data source
  leaves in \<^verbatim>\<open>output\<close> (the empty object when it prints nothing). The files read and written are the
  argument and the result.
\<close>

record Web4Manifest =
  formats :: "(jsstring \<times> JsValue) list"
  dataSources :: "(jsstring \<times> JsValue) list"
  extensions :: "(jsstring \<times> JsValue) list"

definition empty_manifest :: Web4Manifest where
  "empty_manifest = \<lparr>formats = [], dataSources = [], extensions = [(js ''headlink'', JArr [])]\<rparr>"

text \<open>The data source branch of the loop over the entries of the document.\<close>

definition process_source ::
  "(jsstring \<Rightarrow> js_error + JsValue) \<Rightarrow> Web4Manifest \<Rightarrow> jsstring \<Rightarrow> JsValue \<Rightarrow> js_error + Web4Manifest" where
  "process_source eval_output m sourceName v =
     rbind (get_prop v (js ''script'')) (\<lambda>script.
       if script = JStr (js ''javascript'') then
         rbind (get_prop v (js ''code'')) (\<lambda>code.
           if truthy code then
             (case code of
                JStr src \<Rightarrow>
                  rbind (eval_output src) (\<lambda>output.
                    Inr (m\<lparr>dataSources := obj_set sourceName output (dataSources m)\<rparr>))
              | _ \<Rightarrow> Inr (m\<lparr>dataSources := obj_set sourceName (JObj []) (dataSources m)\<rparr>))
           else Inr m)
       else Inr m)"

definition process_entry ::
  "(jsstring \<Rightarrow> js_error + JsValue) \<Rightarrow> Web4Manifest \<Rightarrow> jsstring \<times> JsValue \<Rightarrow> js_error + Web4Manifest" where
  "process_entry eval_output m entry =
     (case entry of (key, v) \<Rightarrow>
        if startsWith key (js ''^'') then Inr (m\<lparr>formats := obj_set (drop 1 key) v (formats m)\<rparr>)
        else if startsWith key (js ''$'') then process_source eval_output m (drop 1 key) v
        else if startsWith key (js ''+'') then Inr (m\<lparr>extensions := obj_set (drop 1 key) v (extensions m)\<rparr>)
        else Inr m)"

fun process_entries ::
  "(jsstring \<Rightarrow> js_error + JsValue) \<Rightarrow> Web4Manifest \<Rightarrow> (jsstring \<times> JsValue) list \<Rightarrow> js_error + Web4Manifest" where
  "process_entries eval_output m [] = Inr m"
| "process_entries eval_output m (e # es) =
     rbind (process_entry eval_output m e) (\<lambda>m. process_entries eval_output m es)"

subsection \<open>Components\<close>

definition or_empty :: "JsValue \<Rightarrow> JsValue" where
  "or_empty v = (if truthy v then v else JStr [])"

definition resolve_anchor :: "(Number \<Rightarrow> jsstring) \<Rightarrow> JsValue \<Rightarrow> js_error + jsstring" where
  "resolve_anchor N attrs =
     rbind (get_prop attrs (js ''href'')) (\<lambda>href. rbind (to_str N href) (\<lambda>href.
     rbind (get_prop attrs (js ''class'')) (\<lambda>cls. rbind (to_str N (or_empty cls)) (\<lambda>cls.
     rbind (get_prop attrs (js ''children'')) (\<lambda>ch. rbind (to_str N ch) (\<lambda>ch.
       Inr (js ''<a href=\"'' @ href @ js ''\" class=\"'' @ cls @ js ''\">'' @ ch @ js ''</a>'')))))))"

text \<open>One step of the loop that resolves parameters naming a data source.\<close>

definition resolve_param ::
  "(jsstring \<times> JsValue) list \<Rightarrow> JsValue \<Rightarrow> js_error + JsValue" where
  "resolve_param D pVal =
     (case pVal of
        JStr s \<Rightarrow>
          if startsWith s (js ''$'') then
            let pathParts = split_on 46 (drop 1 s) in
            rbind (get_prop (JObj D) (pathParts ! 0)) (\<lambda>src.
              if length pathParts > 1 then get_prop src (pathParts ! 1) else Inr src)
          else Inr pVal
      | _ \<Rightarrow> Inr pVal)"

fun resolve_params ::
  "(jsstring \<times> JsValue) list \<Rightarrow> (jsstring \<times> JsValue) list \<Rightarrow> js_error + (jsstring \<times> JsValue) list" where
  "resolve_params D [] = Inr []"
| "resolve_params D ((k, v) # kvs) =
     rbind (resolve_param D v) (\<lambda>v. rbind (resolve_params D kvs) (\<lambda>kvs. Inr ((k, v) # kvs)))"

definition placeholder :: "jsstring \<Rightarrow> jsstring" where
  "placeholder key = js ''${'' @ key @ js ''}''"

fun fill_params ::
  "(Number \<Rightarrow> jsstring) \<Rightarrow> (jsstring \<times> JsValue) list \<Rightarrow> jsstring \<Rightarrow> js_error + jsstring" where
  "fill_params N [] tpl = Inr tpl"
| "fill_params N ((k, v) # kvs) tpl =
     rbind (to_str N v) (\<lambda>s. fill_params N kvs (replaceAll tpl (placeholder k) s))"

definition fill_template ::
  "(Number \<Rightarrow> jsstring) \<Rightarrow> JsValue \<Rightarrow> (jsstring \<times> JsValue) list \<Rightarrow> jsstring \<Rightarrow> js_error + jsstring" where
  "fill_template N fmt params childrenHtml =
     rbind (get_prop fmt (js ''template'')) (\<lambda>tpl.
       case tpl of
         JStr tpl \<Rightarrow>
           rbind (fill_params N (ordered_entries params) tpl) (\<lambda>tpl.
             Inr (replaceAll tpl (placeholder (js ''children'')) childrenHtml))
       | _ \<Rightarrow> Inl TypeError)"

text \<open>The parameters of a component: the defaults of the format, overridden, then resolved.\<close>

definition component_params ::
  "(jsstring \<times> JsValue) list \<Rightarrow> JsValue \<Rightarrow> JsValue \<Rightarrow> js_error + (jsstring \<times> JsValue) list" where
  "component_params D fmt compBody =
     rbind (get_prop fmt (js ''params'')) (\<lambda>defaults.
     rbind (get_prop compBody (js ''params'')) (\<lambda>given.
       resolve_params D (ordered_entries
         (spread2 defaults (if truthy given then given else JObj [])))))"

text \<open>\<^verbatim>\<open>compBody.params && compBody.params.x ? ` x="..."` : ''\<close>.\<close>

definition tag_attr :: "(Number \<Rightarrow> jsstring) \<Rightarrow> JsValue \<Rightarrow> jsstring \<Rightarrow> js_error + jsstring" where
  "tag_attr N compBody name =
     rbind (get_prop compBody (js ''params'')) (\<lambda>ps.
       if truthy ps then
         rbind (get_prop ps name) (\<lambda>v.
           if truthy v then
             rbind (to_str N v) (\<lambda>s. Inr (js '' '' @ name @ js ''=\"'' @ s @ js ''\"''))
           else Inr [])
       else Inr [])"

definition element :: "jsstring \<Rightarrow> jsstring \<Rightarrow> jsstring \<Rightarrow> jsstring" where
  "element tag attrs body = js ''<'' @ tag @ attrs @ js ''>'' @ body @ js ''</'' @ tag @ js ''>''"

text \<open>\<^verbatim>\<open>compBody.children ? compBody.children.map(resolveNode).join('') : ''\<close>, in both places.\<close>

definition children_html :: "(JsValue \<Rightarrow> js_error + jsstring) \<Rightarrow> JsValue \<Rightarrow> js_error + jsstring" where
  "children_html f compBody =
     rbind (get_prop compBody (js ''children'')) (\<lambda>ch.
       if truthy ch then
         (case ch of
            JArr xs \<Rightarrow> rbind (rmap f xs) (\<lambda>hs. Inr (join [] hs))
          | _ \<Rightarrow> Inl TypeError)
       else Inr [])"

lemma children_html_cong [fundef_cong]:
  assumes "a = b" "\<And>xs x. get_prop b (js ''children'') = Inr (JArr xs) \<Longrightarrow> x \<in> set xs \<Longrightarrow> f x = g x"
  shows "children_html f a = children_html g b"
  unfolding children_html_def assms(1)
  by (rule rbind_cong [OF refl]) (auto split: JsValue.split intro!: arg_cong [of _ _ "\<lambda>r. rbind r _"] rmap_cong assms(2))

text \<open>The size facts for the recursion: children are inside the body, which is inside the node.\<close>

lemma size_map_of: "map_of kvs k = Some v \<Longrightarrow> size v < size (JObj kvs)"
  by (induction kvs) (auto split: if_splits)

lemma size_nth: "i < length xs \<Longrightarrow> size (xs ! i) < size (JArr xs)"
proof -
  assume "i < length xs"
  then have "xs ! i \<in> set xs" by simp
  then have "size (xs ! i) < Suc (size_list size xs)"
    by (metis less_Suc_eq_le size_list_estimation' order_refl)
  then show ?thesis by simp
qed

lemma size_elem: "x \<in> set xs \<Longrightarrow> size x < size (JArr xs)"
  by (auto simp: in_set_conv_nth dest: size_nth)

lemma size_own_entries:
  assumes "(k, b) \<in> set (own_entries node)" "\<forall>s. node \<noteq> JStr s"
  shows "size b < size node"
proof (cases node)
  case (JObj kvs)
  then have "(k, b) \<in> set kvs" using assms(1) by (auto simp: own_entries_def ordered_entries_def)
  then have "size b < Suc (size_list (size_prod (\<lambda>_. 0) size) kvs)"
    by (intro le_imp_less_Suc size_list_estimation' [of "(k, b)"]) auto
  then show ?thesis using JObj by simp
next
  case (JArr xs)
  then have "b \<in> set xs" using assms(1) by (auto simp: own_entries_def dest: set_zip_rightD)
  then show ?thesis using JArr size_elem by simp
qed (use assms in \<open>auto simp: own_entries_def\<close>)

lemma size_get_prop: "get_prop b k = Inr (JArr xs) \<Longrightarrow> x \<in> set xs \<Longrightarrow> size x < size b"
proof (cases b)
  case (JObj kvs)
  assume *: "get_prop b k = Inr (JArr xs)" "x \<in> set xs"
  then have "map_of kvs k = Some (JArr xs)"
    by (auto simp: JObj get_prop_def split: option.splits if_splits)
  then show ?thesis using size_map_of size_elem [OF *(2)] JObj less_trans by blast
next
  case (JArr ys)
  assume *: "get_prop b k = Inr (JArr xs)" "x \<in> set xs"
  then have "JArr xs = ys ! index_value k" "index_value k < length ys"
    by (auto simp: JArr get_prop_def split: if_splits)
  then show ?thesis using size_nth [of "index_value k" ys] size_elem [OF *(2)] JArr by simp
qed (auto simp: get_prop_def split: if_splits)

lemma size_children:
  "own_entries node = (k, b) # es \<Longrightarrow> get_prop b c = Inr (JArr xs) \<Longrightarrow> x \<in> set xs \<Longrightarrow>
   \<forall>s. node \<noteq> JStr s \<Longrightarrow> size x < size node"
  using size_own_entries [of k b node] size_get_prop [of b c xs x] by force

lemma own_entries_atom [simp]: "own_entries (JBool b) = []" "own_entries (JNum n) = []"
  by (simp_all add: own_entries_def)

lemmas size_simps = size_children [of "JObj kvs" for kvs, simplified] size_elem [simplified]

function resolveNode ::
  "(Number \<Rightarrow> jsstring) \<Rightarrow> Web4Manifest \<Rightarrow> JsValue \<Rightarrow> js_error + jsstring" where
  "resolveNode N m node =
     (case node of
        JStr s \<Rightarrow> Inr s
      | JArr xs \<Rightarrow> rbind (rmap (resolveNode N m) xs) (\<lambda>hs. Inr (join [] hs))
      | _ \<Rightarrow>
          rbind (Object_entries node) (\<lambda>es. case es of
            [] \<Rightarrow> Inl TypeError
          | (compName, compBody) # _ \<Rightarrow>
              if compName = js ''a'' then resolve_anchor N compBody
              else rbind (get_prop (JObj (formats m)) compName) (\<lambda>fmt.
                if truthy fmt then
                  rbind (component_params (dataSources m) fmt compBody) (\<lambda>params.
                  rbind (children_html (resolveNode N m) compBody) (\<lambda>childrenHtml.
                    fill_template N fmt params childrenHtml))
                else
                  rbind (tag_attr N compBody (js ''class'')) (\<lambda>classAttr.
                  rbind (tag_attr N compBody (js ''id'')) (\<lambda>idAttr.
                  rbind (children_html (resolveNode N m) compBody) (\<lambda>childrenHtml.
                    Inr (element compName (idAttr @ classAttr) childrenHtml)))))))"
  by pat_completeness auto
termination
  by (relation "measure (\<lambda>(_, _, node). size node)")
    (auto simp: Object_entries_def size_simps split: if_splits)

declare resolveNode.simps [simp del]

subsection \<open>The page\<close>

definition nl :: jsstring where
  "nl = [10]"

definition head_link :: "(Number \<Rightarrow> jsstring) \<Rightarrow> JsValue \<Rightarrow> js_error + jsstring" where
  "head_link N link =
     rbind (get_prop link (js ''rel'')) (\<lambda>rel. rbind (to_str N rel) (\<lambda>rel.
     rbind (get_prop link (js ''href'')) (\<lambda>href. rbind (to_str N href) (\<lambda>href.
       Inr (js ''<link rel=\"'' @ rel @ js ''\" href=\"'' @ href @ js ''\">'')))))"

definition full_html :: "jsstring \<Rightarrow> jsstring \<Rightarrow> jsstring" where
  "full_html headLinks mainHtml =
     join nl
       [js ''<!DOCTYPE html>'',
        js ''<html lang=\"en\">'',
        js ''<head>'',
        js ''  <meta charset=\"UTF-8\">'',
        js ''  <meta name=\"viewport\" content=\"width=device-width, initial-scale=1.0\">'',
        js ''  <title>Kubucoin (KUBU) - Native @Username Layer 1 Blockchain</title>'',
        js ''  '' @ headLinks,
        js ''</head>'',
        js ''<body>'',
        mainHtml,
        js ''  <script src=\"/assets/js/wallet-engine.js\"></script>'',
        js ''</body>'',
        js ''</html>'']"

text \<open>\<^verbatim>\<open>v.map(f)\<close>: only an array has the method.\<close>

definition map_method :: "(JsValue \<Rightarrow> js_error + 'a) \<Rightarrow> JsValue \<Rightarrow> js_error + 'a list" where
  "map_method f v = (case v of JArr xs \<Rightarrow> rmap f xs | _ \<Rightarrow> Inl TypeError)"

definition compileWeb4YamlToHtml ::
  "(jsstring \<Rightarrow> js_error + JsValue) \<Rightarrow> (jsstring \<Rightarrow> js_error + JsValue) \<Rightarrow> (Number \<Rightarrow> jsstring) \<Rightarrow>
   jsstring \<Rightarrow> js_error + jsstring" where
  "compileWeb4YamlToHtml yaml_load eval_output N fileContent =
     rbind (yaml_load fileContent) (\<lambda>doc.
     rbind (Object_entries doc) (\<lambda>es.
     rbind (process_entries eval_output empty_manifest es) (\<lambda>m.
     rbind (get_prop doc (js ''main'')) (\<lambda>main.
     rbind (map_method (resolveNode N m) main) (\<lambda>parts.
     rbind (get_prop (JObj (extensions m)) (js ''headlink'')) (\<lambda>links.
     rbind (map_method (head_link N) (if truthy links then links else JArr [])) (\<lambda>headLinks.
       Inr (full_html (join (nl @ js ''  '') headLinks) (join nl parts)))))))))"

subsection \<open>Replacement\<close>

text \<open>The text between the occurrences of a search string, found from left to right.\<close>

function split_str :: "jsstring \<Rightarrow> jsstring \<Rightarrow> jsstring list" where
  "split_str p s =
     (if s = [] then [[]]
      else if p \<noteq> [] \<and> startsWith s p then [] # split_str p (drop (length p) s)
      else case split_str p (tl s) of [] \<Rightarrow> [[hd s]] | w # ws \<Rightarrow> (hd s # w) # ws)"
  by auto
termination by (relation "measure (\<lambda>(_, s). length s)") auto

declare split_str.simps [simp del]

lemma split_str_ne [simp]: "split_str p s \<noteq> []"
  by (subst split_str.simps) (auto split: list.splits)

lemma expand_plain: "36 \<notin> set v \<Longrightarrow> expand m b a v = v"
  by (induction m b a v rule: expand.induct) auto

lemma join_Cons: "ws \<noteq> [] \<Longrightarrow> join sep (w # ws) = w @ sep @ join sep ws"
  by (cases ws) (simp_all add: join_def)

lemma join_Cons_hd: "join sep ((c # w) # ws) = c # join sep (w # ws)"
  by (simp add: join_def)

lemma replace_from_split:
  "36 \<notin> set v \<Longrightarrow> replace_from p v b s = join v (split_str p s)"
proof (induction p v b s rule: replace_from.induct)
  case (1 p v b s)
  consider "s = []" | "s \<noteq> []" "p \<noteq> [] \<and> startsWith s p" | "s \<noteq> []" "\<not> (p \<noteq> [] \<and> startsWith s p)" by blast
  then show ?case
  proof cases
    case 1
    then show ?thesis by (simp add: replace_from.simps [of _ _ _ "[]"] split_str.simps [of _ "[]"] join_def)
  next
    case 2
    then show ?thesis
      using 1 by (subst replace_from.simps, subst split_str.simps) (simp add: expand_plain join_Cons)
  next
    case 3
    have ih: "replace_from p v (b @ [hd s]) (tl s) = join v (split_str p (tl s))"
      using 1 3 by auto
    obtain w ws where w: "split_str p (tl s) = w # ws" by (cases "split_str p (tl s)") auto
    have "replace_from p v b s = hd s # join v (w # ws)"
      using 3 ih w by (subst replace_from.simps) auto
    moreover have "split_str p s = (hd s # w) # ws"
      using 3 w by (subst split_str.simps) auto
    ultimately show ?thesis by (simp add: join_Cons_hd)
  qed
qed

subsection \<open>Templates\<close>

text \<open>
  A template read as a sequence of literal text and holes. Text and values without dollar signs
  cannot form a placeholder, so filling in one parameter is a substitution on the sequence.
\<close>

datatype segment = Lit jsstring | Hole jsstring

fun seg_text :: "segment \<Rightarrow> jsstring" where
  "seg_text (Lit l) = l"
| "seg_text (Hole k) = placeholder k"

definition flatten :: "segment list \<Rightarrow> jsstring" where
  "flatten segs = concat (map seg_text segs)"

definition plain :: "jsstring \<Rightarrow> bool" where
  "plain s \<longleftrightarrow> 36 \<notin> set s"

definition key_ok :: "jsstring \<Rightarrow> bool" where
  "key_ok k \<longleftrightarrow> 36 \<notin> set k \<and> 125 \<notin> set k"

fun seg_ok :: "segment \<Rightarrow> bool" where
  "seg_ok (Lit l) = plain l"
| "seg_ok (Hole k) = key_ok k"

fun subst_seg :: "jsstring \<Rightarrow> jsstring \<Rightarrow> segment \<Rightarrow> segment" where
  "subst_seg k v (Lit l) = Lit l"
| "subst_seg k v (Hole k') = (if k' = k then Lit v else Hole k')"

lemma placeholder_eq: "placeholder k = 36 # 123 # k @ [125]"
  by (simp add: placeholder_def js_def)

lemma replace_from_step:
  assumes "u \<noteq> 36"
  shows "replace_from (placeholder k) v b (u # s) = u # replace_from (placeholder k) v (b @ [u]) s"
  using assms by (subst replace_from.simps) (simp add: placeholder_eq startsWith_def)

lemma replace_from_literal:
  "plain l \<Longrightarrow> \<exists>b'. replace_from (placeholder k) v b (l @ s) = l @ replace_from (placeholder k) v b' s"
proof (induction l arbitrary: b)
  case (Cons u l)
  then have u: "u \<noteq> 36" "plain l" by (auto simp: plain_def)
  obtain b' where "replace_from (placeholder k) v (b @ [u]) (l @ s) = l @ replace_from (placeholder k) v b' s"
    using Cons.IH [OF u(2)] by blast
  then show ?case using replace_from_step [OF u(1), of k v b "l @ s"] by auto
qed auto

lemma key_prefix:
  assumes "key_ok k" "key_ok k'" "take (length k + 1) (k' @ 125 # s) = k @ [125]"
  shows "k' = k"
proof -
  have "takeWhile (\<lambda>u. u \<noteq> 125) (k' @ 125 # s) = k'"
    using assms(2) by (induction k') (auto simp: key_ok_def)
  moreover obtain r where "k' @ 125 # s = (k @ [125]) @ r"
    using assms(3) by (metis append_take_drop_id)
  moreover have "takeWhile (\<lambda>u. u \<noteq> 125) ((k @ [125]) @ r) = k"
    using assms(1) by (induction k) (auto simp: key_ok_def)
  ultimately show ?thesis by metis
qed

lemma placeholder_prefix:
  assumes "key_ok k" "key_ok k'"
  shows "startsWith (placeholder k' @ s) (placeholder k) \<longleftrightarrow> k' = k"
  using key_prefix [OF assms, of s] by (auto simp: startsWith_def placeholder_eq)

lemma replace_hole:
  assumes "key_ok k" "key_ok k'" "plain v"
  shows "\<exists>b'. replace_from (placeholder k) v b (placeholder k' @ s) =
    seg_text (subst_seg k v (Hole k')) @ replace_from (placeholder k) v b' s"
proof (cases "k' = k")
  case True
  have "replace_from (placeholder k) v b (placeholder k @ s) =
      v @ replace_from (placeholder k) v (b @ placeholder k) s"
    using placeholder_prefix [OF assms(1,1), of s] assms(3)
    by (subst replace_from.simps) (simp add: placeholder_eq expand_plain plain_def)
  then show ?thesis using True by auto
next
  case False
  have "replace_from (placeholder k) v b (placeholder k' @ s) =
      36 # replace_from (placeholder k) v (b @ [36]) ((123 # k' @ [125]) @ s)"
    using placeholder_prefix [OF assms(1,2), of s] False
    by (subst replace_from.simps) (simp add: placeholder_eq)
  moreover have "plain (123 # k' @ [125])" using assms(2) by (simp add: plain_def key_ok_def)
  ultimately show ?thesis
    using replace_from_literal [of "123 # k' @ [125]" k v "b @ [36]" s] False
    by (auto simp: placeholder_eq)
qed

lemma replace_from_flatten:
  assumes "list_all seg_ok segs" "key_ok k" "plain v"
  shows "replace_from (placeholder k) v b (flatten segs) = flatten (map (subst_seg k v) segs)"
  using assms(1)
proof (induction segs arbitrary: b)
  case Nil
  then show ?case by (simp add: flatten_def replace_from.simps [of _ _ _ "[]"])
next
  case (Cons g segs)
  have "\<exists>b'. replace_from (placeholder k) v b (seg_text g @ flatten segs) =
      seg_text (subst_seg k v g) @ replace_from (placeholder k) v b' (flatten segs)"
    using Cons.prems replace_from_literal replace_hole [OF assms(2) _ assms(3)] by (cases g) auto
  then show ?case using Cons by (auto simp: flatten_def)
qed

lemma seg_ok_subst: "seg_ok g \<Longrightarrow> plain v \<Longrightarrow> seg_ok (subst_seg k v g)"
  by (cases g) simp_all

lemma list_all_seg_ok_subst: "list_all seg_ok segs \<Longrightarrow> plain v \<Longrightarrow> list_all seg_ok (map (subst_seg k v) segs)"
  by (induction segs) (simp_all add: seg_ok_subst)

text \<open>Filling in all parameters of a component and then its children.\<close>

definition instantiate :: "(jsstring \<times> jsstring) list \<Rightarrow> segment list \<Rightarrow> segment list" where
  "instantiate ps segs = fold (\<lambda>(k, v). map (subst_seg k v)) ps segs"

definition params_ok :: "(jsstring \<times> jsstring) list \<Rightarrow> bool" where
  "params_ok ps \<longleftrightarrow> list_all (\<lambda>(k, v). key_ok k \<and> plain v) ps"

lemma fill_params_flatten:
  assumes "params_ok ps" "list_all seg_ok segs"
  shows "fill_params N (map (\<lambda>(k, v). (k, JStr v)) ps) (flatten segs) = Inr (flatten (instantiate ps segs)) \<and>
    list_all seg_ok (instantiate ps segs)"
  using assms
proof (induction ps arbitrary: segs)
  case (Cons p ps)
  obtain k v where p: "p = (k, v)" by (cases p)
  then have "key_ok k" "plain v" "params_ok ps" using Cons.prems(1) by (auto simp: params_ok_def)
  then show ?case
    using Cons.IH [of "map (subst_seg k v) segs"] Cons.prems(2)
    by (simp add: p replaceAll_def replace_from_flatten list_all_seg_ok_subst instantiate_def)
qed (simp add: instantiate_def)

subsection \<open>Pages as trees\<close>

text \<open>
  What a manifest means: a page is a tree of texts, links, elements and uses of a format, whose
  parameters are constants or fields of a data source. \<open>encode\<close> is the manifest notation of a page
  and \<open>render\<close> the HTML it stands for.
\<close>

datatype Param = Const jsstring | FromSource jsstring jsstring

datatype Page =
  PText jsstring
| PLink jsstring jsstring jsstring
| PTag jsstring "jsstring option" "jsstring option" "Page list"
| PComp jsstring "(jsstring \<times> Param) list" "Page list"

record Format =
  fmt_params :: "(jsstring \<times> jsstring) list"
  fmt_template :: "segment list"

record Site =
  site_formats :: "(jsstring \<times> Format) list"
  site_sources :: "(jsstring \<times> (jsstring \<times> jsstring) list) list"

definition str_obj :: "(jsstring \<times> jsstring) list \<Rightarrow> JsValue" where
  "str_obj kvs = JObj (map (\<lambda>(k, v). (k, JStr v)) kvs)"

definition encode_format :: "Format \<Rightarrow> JsValue" where
  "encode_format f = JObj [(js ''params'', str_obj (fmt_params f)),
     (js ''template'', JStr (flatten (fmt_template f)))]"

definition site_manifest :: "Site \<Rightarrow> Web4Manifest" where
  "site_manifest S =
     \<lparr>formats = map (\<lambda>(n, f). (n, encode_format f)) (site_formats S),
      dataSources = map (\<lambda>(n, d). (n, str_obj d)) (site_sources S),
      extensions = [(js ''headlink'', JArr [])]\<rparr>"

fun encode_param :: "Param \<Rightarrow> jsstring" where
  "encode_param (Const s) = s"
| "encode_param (FromSource src key) = js ''$'' @ src @ js ''.'' @ key"

definition attr_entries :: "jsstring option \<Rightarrow> jsstring option \<Rightarrow> (jsstring \<times> jsstring) list" where
  "attr_entries i c =
     (case i of None \<Rightarrow> [] | Some v \<Rightarrow> [(js ''id'', v)]) @
     (case c of None \<Rightarrow> [] | Some v \<Rightarrow> [(js ''class'', v)])"

fun encode :: "Page \<Rightarrow> JsValue" where
  "encode (PText s) = JStr s"
| "encode (PLink href cls text) = JObj [(js ''a'', str_obj [(js ''href'', href), (js ''class'', cls), (js ''children'', text)])]"
| "encode (PTag tag i c ps) = JObj [(tag, JObj [(js ''params'', str_obj (attr_entries i c)), (js ''children'', JArr (map encode ps))])]"
| "encode (PComp name given ps) = JObj [(name, JObj [(js ''params'', str_obj (map (\<lambda>(k, p). (k, encode_param p)) given)), (js ''children'', JArr (map encode ps))])]"

definition attr_text :: "jsstring \<Rightarrow> jsstring option \<Rightarrow> jsstring" where
  "attr_text name v = (case v of None \<Rightarrow> [] | Some s \<Rightarrow> js '' '' @ name @ js ''=\"'' @ s @ js ''\"'')"

fun param_value :: "Site \<Rightarrow> Param \<Rightarrow> jsstring" where
  "param_value S (Const s) = s"
| "param_value S (FromSource src key) =
     (case map_of (site_sources S) src of None \<Rightarrow> []
      | Some d \<Rightarrow> (case map_of d key of None \<Rightarrow> [] | Some v \<Rightarrow> v))"

definition merge :: "('k \<times> 'v) list \<Rightarrow> ('k \<times> 'v) list \<Rightarrow> ('k \<times> 'v) list" where
  "merge a b = fold (\<lambda>(k, v). obj_set k v) (a @ b) []"

fun render :: "Site \<Rightarrow> Page \<Rightarrow> jsstring" where
  "render S (PText s) = s"
| "render S (PLink href cls text) =
     js ''<a href=\"'' @ href @ js ''\" class=\"'' @ cls @ js ''\">'' @ text @ js ''</a>''"
| "render S (PTag tag i c ps) =
     element tag (attr_text (js ''id'') i @ attr_text (js ''class'') c) (concat (map (render S) ps))"
| "render S (PComp name given ps) =
     (case map_of (site_formats S) name of None \<Rightarrow> []
      | Some f \<Rightarrow> flatten (map (subst_seg (js ''children'') (concat (map (render S) ps)))
          (instantiate (merge (fmt_params f) (map (\<lambda>(k, p). (k, param_value S p)) given)) (fmt_template f))))"

text \<open>The pages the theorem is about: no dollar signs in texts, names that are used as meant.\<close>

definition name_ok :: "jsstring \<Rightarrow> bool" where
  "name_ok k \<longleftrightarrow> k \<noteq> js ''a'' \<and> k \<notin> set object_prototype \<and> plain k"

definition param_key_ok :: "jsstring \<Rightarrow> bool" where
  "param_key_ok k \<longleftrightarrow> key_ok k \<and> \<not> is_index k"

definition format_ok :: "Format \<Rightarrow> bool" where
  "format_ok f \<longleftrightarrow> list_all seg_ok (fmt_template f) \<and>
     list_all (\<lambda>(k, v). param_key_ok k \<and> plain v) (fmt_params f)"

fun param_ok :: "Site \<Rightarrow> Param \<Rightarrow> bool" where
  "param_ok S (Const s) = plain s"
| "param_ok S (FromSource src key) =
     (46 \<notin> set src \<and> 46 \<notin> set key \<and>
      (case map_of (site_sources S) src of None \<Rightarrow> False
       | Some d \<Rightarrow> (case map_of d key of None \<Rightarrow> False | Some v \<Rightarrow> plain v)))"

definition opt_ok :: "jsstring option \<Rightarrow> bool" where
  "opt_ok v \<longleftrightarrow> (case v of None \<Rightarrow> True | Some s \<Rightarrow> s \<noteq> [] \<and> plain s)"

fun filled :: "segment \<Rightarrow> bool" where
  "filled (Lit l) = True"
| "filled (Hole k) = False"

fun page_ok :: "Site \<Rightarrow> Page \<Rightarrow> bool" where
  "page_ok S (PText s) = plain s"
| "page_ok S (PLink href cls text) = (plain href \<and> plain cls \<and> plain text)"
| "page_ok S (PTag tag i c ps) =
     (name_ok tag \<and> map_of (site_formats S) tag = None \<and> opt_ok i \<and> opt_ok c \<and> list_all (page_ok S) ps)"
| "page_ok S (PComp name given ps) =
     (name_ok name \<and> list_all (page_ok S) ps \<and>
      list_all (\<lambda>(k, p). param_key_ok k \<and> param_ok S p) given \<and>
      (case map_of (site_formats S) name of None \<Rightarrow> False
       | Some f \<Rightarrow> format_ok f \<and>
           list_all filled (map (subst_seg (js ''children'') [])
             (instantiate (merge (fmt_params f) (map (\<lambda>(k, p). (k, param_value S p)) given)) (fmt_template f)))))"

subsection \<open>Compilation of pages\<close>

lemma plain_simps [simp]: "plain []" "plain (a @ b) \<longleftrightarrow> plain a \<and> plain b" "plain (u # a) \<longleftrightarrow> u \<noteq> 36 \<and> plain a"
  by (auto simp: plain_def)

lemma plain_concat: "(\<And>x. x \<in> set xs \<Longrightarrow> plain x) \<Longrightarrow> plain (concat xs)"
  by (auto simp: plain_def)

lemma join_empty: "join [] ws = concat ws"
  by (cases ws) (auto simp: join_def intro!: arg_cong [of _ _ concat] map_idI)

lemma map_merge:
  "map (\<lambda>(k, v). (k, f v)) (merge a b) = merge (map (\<lambda>(k, v). (k, f v)) a) (map (\<lambda>(k, v). (k, f v)) b)"
proof -
  have "map (\<lambda>(k, v). (k, f v)) (fold (\<lambda>(k, v). obj_set k v) c d) =
      fold (\<lambda>(k, v). obj_set k v) (map (\<lambda>(k, v). (k, f v)) c) (map (\<lambda>(k, v). (k, f v)) d)" for c d
    by (induction c arbitrary: d) (auto simp: map_obj_set)
  from this [of "a @ b" "[]"] show ?thesis by (simp add: merge_def)
qed

lemma set_merge: "set (merge a b) \<subseteq> set a \<union> set b"
proof -
  have "set (fold (\<lambda>(k, v). obj_set k v) c d) \<subseteq> set c \<union> set d" for c d :: "('k \<times> 'v) list"
  proof (induction c arbitrary: d)
    case (Cons x c)
    obtain k v where x: "x = (k, v)" by (cases x)
    show ?case using Cons [of "obj_set k v d"] set_obj_set [of k v d] by (auto simp: x)
  qed simp
  from this [of "a @ b" "[]"] show ?thesis by (simp add: merge_def)
qed

text \<open>The parameters of a use, defaults included, as one list of \<^typ>\<open>Param\<close>.\<close>

definition all_params :: "Format \<Rightarrow> (jsstring \<times> Param) list \<Rightarrow> (jsstring \<times> Param) list" where
  "all_params f given = merge (map (\<lambda>(k, v). (k, Const v)) (fmt_params f)) given"

lemma all_params_values:
  "map (\<lambda>(k, p). (k, param_value S p)) (all_params f given) =
   merge (fmt_params f) (map (\<lambda>(k, p). (k, param_value S p)) given)"
  unfolding all_params_def map_merge by (simp add: comp_def split_def)

lemma all_params_encoded:
  "map (\<lambda>(k, p). (k, JStr (encode_param p))) (all_params f given) =
   merge (map (\<lambda>(k, v). (k, JStr v)) (fmt_params f)) (map (\<lambda>(k, p). (k, JStr (encode_param p))) given)"
  unfolding all_params_def map_merge by (simp add: comp_def split_def)

lemma all_params_ok:
  assumes "format_ok f" "list_all (\<lambda>(k, p). param_key_ok k \<and> param_ok S p) given"
  shows "list_all (\<lambda>(k, p). param_key_ok k \<and> param_ok S p) (all_params f given)"
proof -
  have "\<forall>(k, p)\<in>set (map (\<lambda>(k, v). (k, Const v)) (fmt_params f)) \<union> set given. param_key_ok k \<and> param_ok S p"
    using assms by (auto simp: format_ok_def list_all_iff)
  then show ?thesis using set_merge unfolding all_params_def list_all_iff by blast
qed

lemma resolve_param_ok:
  assumes "param_ok S p"
  shows "resolve_param (dataSources (site_manifest S)) (JStr (encode_param p)) = Inr (JStr (param_value S p))"
proof (cases p)
  case (Const s)
  then have "\<not> startsWith s (js ''$'')" using assms by (cases s) (auto simp: startsWith_def js_def)
  then show ?thesis by (simp add: Const resolve_param_def)
next
  case (FromSource src key)
  obtain d v where d: "map_of (site_sources S) src = Some d" "map_of d key = Some v"
    using assms by (auto simp: FromSource split: option.splits)
  have "map_of (map (\<lambda>(n, d). (n, str_obj d)) (site_sources S)) src = Some (str_obj d)"
    using d(1) by (simp add: map_of_map)
  moreover have "map_of (map (\<lambda>(k, v). (k, JStr v)) d) key = Some (JStr v)"
    using d(2) by (simp add: map_of_map)
  moreover have "split_on 46 (src @ 46 # key) = [src, key]"
    using assms by (intro split_on_two) (simp_all add: FromSource)
  moreover have "encode_param p = 36 # src @ 46 # key" "js ''$'' = [36]"
    by (simp_all add: FromSource js_def)
  ultimately show ?thesis
    using d
    by (simp add: FromSource resolve_param_def Let_def site_manifest_def get_own str_obj_def startsWith_def)
qed

lemma resolve_params_ok:
  assumes "list_all (\<lambda>(k, p). param_ok S p) ps"
  shows "resolve_params (dataSources (site_manifest S)) (map (\<lambda>(k, p). (k, JStr (encode_param p))) ps) =
    Inr (map (\<lambda>(k, p). (k, JStr (param_value S p))) ps)"
  using assms by (induction ps) (auto simp: resolve_param_ok)

lemma own_entries_str_obj:
  "list_all (\<lambda>(k, v). \<not> is_index k) kvs \<Longrightarrow> own_entries (str_obj kvs) = map (\<lambda>(k, v). (k, JStr v)) kvs"
  by (simp add: own_entries_def str_obj_def ordered_entries_plain list_all_iff case_prod_beta)

lemma component_params_ok:
  assumes "format_ok f" "list_all (\<lambda>(k, p). param_key_ok k \<and> param_ok S p) given"
  shows "component_params (dataSources (site_manifest S)) (encode_format f)
      (JObj ((js ''params'', str_obj (map (\<lambda>(k, p). (k, encode_param p)) given)) # rest)) =
    Inr (map (\<lambda>(k, p). (k, JStr (param_value S p))) (all_params f given))"
proof -
  have ok: "list_all (\<lambda>(k, p). param_key_ok k \<and> param_ok S p) (all_params f given)"
    by (rule all_params_ok [OF assms])
  have n1: "list_all (\<lambda>(k, v). \<not> is_index k) (fmt_params f)"
    using assms(1) by (auto simp: format_ok_def param_key_ok_def list_all_iff)
  have n2: "list_all (\<lambda>(k, v). \<not> is_index k) (map (\<lambda>(k, p). (k, encode_param p)) given)"
    using assms(2) by (auto simp: param_key_ok_def list_all_iff)
  have "spread2 (str_obj (fmt_params f)) (str_obj (map (\<lambda>(k, p). (k, encode_param p)) given)) =
      map (\<lambda>(k, p). (k, JStr (encode_param p))) (all_params f given)"
    unfolding all_params_encoded spread2_def own_entries_str_obj [OF n1] own_entries_str_obj [OF n2] merge_def
    by (simp add: comp_def split_def)
  moreover have "ordered_entries (map (\<lambda>(k, p). (k, JStr (encode_param p))) (all_params f given)) =
      map (\<lambda>(k, p). (k, JStr (encode_param p))) (all_params f given)"
    using ok by (intro ordered_entries_plain) (auto simp: list_all_iff param_key_ok_def)
  moreover have "list_all (\<lambda>(k, p). param_ok S p) (all_params f given)"
    using ok by (auto simp: list_all_iff)
  ultimately show ?thesis
    by (simp add: component_params_def encode_format_def get_own resolve_params_ok str_obj_def)
qed

lemma fill_template_ok:
  assumes "format_ok f" "list_all (\<lambda>(k, p). param_key_ok k \<and> param_ok S p) given" "plain html"
  defines "vs \<equiv> map (\<lambda>(k, p). (k, param_value S p)) (all_params f given)"
  shows "fill_template N (encode_format f) (map (\<lambda>(k, p). (k, JStr (param_value S p))) (all_params f given)) html =
      Inr (flatten (map (subst_seg (js ''children'') html) (instantiate vs (fmt_template f)))) \<and>
    list_all seg_ok (instantiate vs (fmt_template f))"
proof -
  have ok: "list_all (\<lambda>(k, p). param_key_ok k \<and> param_ok S p) (all_params f given)"
    by (rule all_params_ok [OF assms(1,2)])
  have pl: "param_ok S p \<Longrightarrow> plain (param_value S p)" for p
    by (cases p) (auto split: option.splits)
  have vs: "map (\<lambda>(k, p). (k, JStr (param_value S p))) (all_params f given) = map (\<lambda>(k, v). (k, JStr v)) vs"
    by (simp add: vs_def split_def)
  have "params_ok vs"
    using ok pl by (auto simp: params_ok_def vs_def list_all_iff param_key_ok_def)
  moreover have t: "list_all seg_ok (fmt_template f)" using assms(1) by (simp add: format_ok_def)
  ultimately have f: "fill_params N (map (\<lambda>(k, v). (k, JStr v)) vs) (flatten (fmt_template f)) =
      Inr (flatten (instantiate vs (fmt_template f)))" "list_all seg_ok (instantiate vs (fmt_template f))"
    using fill_params_flatten by blast+
  have o: "ordered_entries (map (\<lambda>(k, v). (k, JStr v)) vs) = map (\<lambda>(k, v). (k, JStr v)) vs"
    using ok by (intro ordered_entries_plain) (auto simp: vs_def list_all_iff param_key_ok_def)
  have "key_ok (js ''children'')" by (simp add: key_ok_def js_def)
  then show ?thesis
    using f assms(3)
    by (simp add: fill_template_def encode_format_def get_own vs o replaceAll_def replace_from_flatten)
qed

lemma tag_attr_some:
  assumes "map_of kvs name = Some s" "s \<noteq> []"
  shows "tag_attr N (JObj ((js ''params'', str_obj kvs) # rest)) name = Inr (attr_text name (Some s))"
proof -
  have "map_of (map (\<lambda>(k, v). (k, JStr v)) kvs) name = Some (JStr s)" using assms(1) by (simp add: map_of_map)
  then show ?thesis using assms(2) by (simp add: tag_attr_def str_obj_def get_own attr_text_def)
qed

lemma tag_attr_none:
  assumes "map_of kvs name = None" "name \<notin> set object_prototype"
  shows "tag_attr N (JObj ((js ''params'', str_obj kvs) # rest)) name = Inr []"
proof -
  have "map_of (map (\<lambda>(k, v). (k, JStr v)) kvs) name = None" using assms(1) by (simp add: map_of_map)
  then show ?thesis using assms(2) by (simp add: tag_attr_def str_obj_def get_own get_missing)
qed

lemma tag_attrs:
  assumes "opt_ok i" "opt_ok c"
  shows "tag_attr N (JObj ((js ''params'', str_obj (attr_entries i c)) # rest)) (js ''id'') = Inr (attr_text (js ''id'') i)"
    and "tag_attr N (JObj ((js ''params'', str_obj (attr_entries i c)) # rest)) (js ''class'') = Inr (attr_text (js ''class'') c)"
  using assms
  by (cases i; cases c; simp add: tag_attr_some tag_attr_none attr_entries_def opt_ok_def attr_text_def)+

lemma children_ok:
  assumes "\<And>q. q \<in> set ps \<Longrightarrow> resolveNode N m (encode q) = Inr (render S q)"
  shows "children_html (resolveNode N m) (JObj [(js ''params'', v), (js ''children'', JArr (map encode ps))]) =
    Inr (concat (map (render S) ps))"
proof -
  have "rmap (resolveNode N m) (map encode ps) = Inr (map (render S) ps)"
    using assms by (induction ps) simp_all
  then show ?thesis by (simp add: children_html_def get_own join_empty)
qed

lemma map_of_formats:
  "map_of (formats (site_manifest S)) n = map_option encode_format (map_of (site_formats S) n)"
  by (simp add: site_manifest_def map_of_map)

lemma truthy_format [simp]: "truthy (encode_format f)"
  by (simp add: encode_format_def)

lemma resolveNode_PTag:
  assumes "page_ok S (PTag tag i c ps)"
    and "\<And>q. q \<in> set ps \<Longrightarrow> resolveNode N (site_manifest S) (encode q) = Inr (render S q)"
  shows "resolveNode N (site_manifest S) (encode (PTag tag i c ps)) = Inr (render S (PTag tag i c ps))"
proof -
  have g: "get_prop (JObj (formats (site_manifest S))) tag = Inr JUndefined"
    using assms(1) by (intro get_missing) (simp_all add: map_of_formats name_ok_def)
  show ?thesis
    using assms(1)
    by (subst resolveNode.simps)
      (simp add: Object_entries_def own_entries_def name_ok_def g tag_attrs children_ok [OF assms(2)])
qed

lemma resolveNode_PComp:
  assumes "page_ok S (PComp name given ps)" "plain (concat (map (render S) ps))"
    and "\<And>q. q \<in> set ps \<Longrightarrow> resolveNode N (site_manifest S) (encode q) = Inr (render S q)"
  shows "resolveNode N (site_manifest S) (encode (PComp name given ps)) = Inr (render S (PComp name given ps))"
proof -
  obtain f where f: "map_of (site_formats S) name = Some f" "format_ok f"
    using assms(1) by (auto split: option.splits)
  have given: "list_all (\<lambda>(k, p). param_key_ok k \<and> param_ok S p) given" using assms(1) by simp
  have g: "get_prop (JObj (formats (site_manifest S))) name = Inr (encode_format f)"
    using f by (intro get_own) (simp add: map_of_formats)
  show ?thesis
    using assms(1) f fill_template_ok [OF f(2) given assms(2), of N]
    by (subst resolveNode.simps)
      (simp add: Object_entries_def own_entries_def name_ok_def g component_params_ok [OF f(2) given]
        children_ok [OF assms(3)] all_params_values)
qed

lemma render_PComp_plain:
  assumes "page_ok S (PComp name given ps)" "plain (concat (map (render S) ps))"
  shows "plain (render S (PComp name given ps))"
proof -
  obtain f where f: "map_of (site_formats S) name = Some f" "format_ok f"
    using assms(1) by (auto split: option.splits)
  define segs where "segs = instantiate (merge (fmt_params f) (map (\<lambda>(k, p). (k, param_value S p)) given)) (fmt_template f)"
  have "list_all seg_ok segs"
    using fill_template_ok [OF f(2) _ assms(2), where given = given] assms(1) by (simp add: segs_def all_params_values)
  moreover have "list_all filled (map (subst_seg (js ''children'') []) segs)"
    using assms(1) f by (simp add: segs_def)
  ultimately have "plain (seg_text (subst_seg (js ''children'') (concat (map (render S) ps)) g))" if "g \<in> set segs" for g
    using that assms(2) by (cases g) (auto simp: list_all_iff split: if_splits)
  then show ?thesis using f by (auto simp: flatten_def segs_def intro!: plain_concat)
qed

lemma resolveNode_encode:
  "page_ok S p \<Longrightarrow> resolveNode N (site_manifest S) (encode p) = Inr (render S p) \<and> plain (render S p)"
proof (induction p)
  case (PText s)
  then show ?case by (subst resolveNode.simps) simp
next
  case (PLink href cls label)
  have "or_empty (JStr cls) = JStr cls" by (simp add: or_empty_def)
  then show ?case
    using PLink by (subst resolveNode.simps)
      (simp add: Object_entries_def own_entries_def resolve_anchor_def str_obj_def get_own js_def)
next
  case (PTag tag i c ps)
  then have ps: "\<And>q. q \<in> set ps \<Longrightarrow> resolveNode N (site_manifest S) (encode q) = Inr (render S q) \<and> plain (render S q)"
    by (auto simp: list_all_iff)
  then have "plain (concat (map (render S) ps))" by (intro plain_concat) auto
  then have "plain (render S (PTag tag i c ps))"
    using PTag.prems by (auto simp: element_def attr_text_def opt_ok_def name_ok_def js_def split: option.splits)
  then show ?case using resolveNode_PTag [OF PTag.prems] ps by blast
next
  case (PComp name given ps)
  then have ps: "\<And>q. q \<in> set ps \<Longrightarrow> resolveNode N (site_manifest S) (encode q) = Inr (render S q) \<and> plain (render S q)"
    by (auto simp: list_all_iff)
  then have "plain (concat (map (render S) ps))" by (intro plain_concat) auto
  then show ?case using resolveNode_PComp [OF PComp.prems] render_PComp_plain [OF PComp.prems] ps by blast
qed

subsection \<open>Compilation of a site\<close>

lemma resolveNode_extensions:
  "resolveNode N (m\<lparr>extensions := e\<rparr>) node = resolveNode N m node"
proof (induction node rule: measure_induct_rule [of size])
  case (less node)
  have arr: "rmap (resolveNode N (m\<lparr>extensions := e\<rparr>)) xs = rmap (resolveNode N m) xs"
    if "node = JArr xs" for xs
    using that less size_elem by (intro rmap_cong) auto
  have kids: "children_html (resolveNode N (m\<lparr>extensions := e\<rparr>)) b = children_html (resolveNode N m) b"
    if "node = JObj kvs" "own_entries (JObj kvs) = (k, b) # es" for kvs k b es
    using that less size_children [of node k b es] by (intro children_html_cong) auto
  show ?case
    unfolding resolveNode.simps [of N _ node]
    by (cases node) (auto simp: Object_entries_def arr kids split: list.split intro!: rbind_cong)
qed

text \<open>The document of a site: formats, data sources with their code, head links, pages.\<close>

definition source_body :: "jsstring \<Rightarrow> JsValue" where
  "source_body code = JObj [(js ''script'', JStr (js ''javascript'')), (js ''code'', JStr code)]"

definition link_obj :: "jsstring \<times> jsstring \<Rightarrow> JsValue" where
  "link_obj l = str_obj [(js ''rel'', fst l), (js ''href'', snd l)]"

definition link_html :: "jsstring \<times> jsstring \<Rightarrow> jsstring" where
  "link_html l = js ''<link rel=\"'' @ fst l @ js ''\" href=\"'' @ snd l @ js ''\">''"

definition site_doc :: "Site \<Rightarrow> (jsstring \<Rightarrow> jsstring) \<Rightarrow> (jsstring \<times> jsstring) list \<Rightarrow> Page list \<Rightarrow> JsValue" where
  "site_doc S code links pages =
     JObj (map (\<lambda>(n, f). (js ''^'' @ n, encode_format f)) (site_formats S) @
       map (\<lambda>(n, d). (js ''$'' @ n, source_body (code n))) (site_sources S) @
       [(js ''+headlink'', JArr (map link_obj links)), (js ''main'', JArr (map encode pages))])"

definition site_ok :: "Site \<Rightarrow> (jsstring \<Rightarrow> jsstring) \<Rightarrow> (jsstring \<Rightarrow> js_error + JsValue) \<Rightarrow> bool" where
  "site_ok S code eval_output \<longleftrightarrow>
     distinct (map fst (site_formats S)) \<and> distinct (map fst (site_sources S)) \<and>
     list_all (\<lambda>(n, d). code n \<noteq> [] \<and> eval_output (code n) = Inr (str_obj d)) (site_sources S)"

lemma obj_set_new: "k \<notin> fst ` set kvs \<Longrightarrow> obj_set k v kvs = kvs @ [(k, v)]"
  by (induction kvs) auto

lemma process_entries_append:
  "process_entries E m (xs @ ys) = rbind (process_entries E m xs) (\<lambda>m. process_entries E m ys)"
proof (induction xs arbitrary: m)
  case (Cons x xs)
  then show ?case by (cases "process_entry E m x") simp_all
qed simp

lemma starts_simps [simp]:
  "startsWith (js ''^'' @ n) (js ''^'')" "\<not> startsWith (js ''$'' @ n) (js ''^'')" "startsWith (js ''$'' @ n) (js ''$'')"
  "drop (Suc 0) (js ''^'' @ n) = n" "drop (Suc 0) (js ''$'' @ n) = n"
  by (simp_all add: startsWith_def js_def del: drop_append)

lemma process_formats:
  assumes "distinct (map fst fs)" "fst ` set fs \<inter> fst ` set (formats m) = {}"
  shows "process_entries E m (map (\<lambda>(n, f). (js ''^'' @ n, encode_format f)) fs) =
    Inr (m\<lparr>formats := formats m @ map (\<lambda>(n, f). (n, encode_format f)) fs\<rparr>)"
  using assms
proof (induction fs arbitrary: m)
  case (Cons nf fs)
  obtain n f where nf: "nf = (n, f)" by (cases nf)
  have "n \<notin> fst ` set (formats m)" using Cons.prems(2) nf by auto
  then have "process_entry E m (js ''^'' @ n, encode_format f) =
      Inr (m\<lparr>formats := formats m @ [(n, encode_format f)]\<rparr>)"
    by (simp add: process_entry_def obj_set_new del: drop_append)
  then show ?case
    using Cons.IH [of "m\<lparr>formats := formats m @ [(n, encode_format f)]\<rparr>"] Cons.prems nf by auto
qed simp

lemma process_sources:
  assumes "distinct (map fst ds)" "fst ` set ds \<inter> fst ` set (dataSources m) = {}"
    and "list_all (\<lambda>(n, d). code n \<noteq> [] \<and> E (code n) = Inr (str_obj d)) ds"
  shows "process_entries E m (map (\<lambda>(n, d). (js ''$'' @ n, source_body (code n))) ds) =
    Inr (m\<lparr>dataSources := dataSources m @ map (\<lambda>(n, d). (n, str_obj d)) ds\<rparr>)"
  using assms
proof (induction ds arbitrary: m)
  case (Cons nd ds)
  obtain n d where nd: "nd = (n, d)" by (cases nd)
  have "n \<notin> fst ` set (dataSources m)" using Cons.prems(2) nd by auto
  moreover have "code n \<noteq> []" "E (code n) = Inr (str_obj d)" using Cons.prems(3) nd by auto
  ultimately have "process_entry E m (js ''$'' @ n, source_body (code n)) =
      Inr (m\<lparr>dataSources := dataSources m @ [(n, str_obj d)]\<rparr>)"
    by (simp add: process_entry_def process_source_def source_body_def get_own obj_set_new del: drop_append)
  then show ?case
    using Cons.IH [of "m\<lparr>dataSources := dataSources m @ [(n, str_obj d)]\<rparr>"] Cons.prems nd by auto
qed simp

lemma process_rest:
  "process_entries E m [(js ''+headlink'', v), (js ''main'', w)] =
   Inr (m\<lparr>extensions := obj_set (js ''headlink'') v (extensions m)\<rparr>)"
  by (simp add: process_entry_def startsWith_def js_def)

lemma site_doc_entries:
  "Object_entries (site_doc S code links pages) = (case site_doc S code links pages of JObj kvs \<Rightarrow> Inr kvs)"
proof -
  have "\<not> is_index (js ''^'' @ n)" "\<not> is_index (js ''$'' @ n)" "\<not> is_index (js ''+headlink'')"
    "\<not> is_index (js ''main'')" for n
    by (simp_all add: is_index_def js_def unit_digit_def)
  then show ?thesis
    by (auto simp: Object_entries_def own_entries_def site_doc_def list_all_iff intro!: ordered_entries_plain)
qed

lemma head_link_obj: "head_link N (link_obj l) = Inr (link_html l)"
  by (simp add: head_link_def link_obj_def link_html_def str_obj_def get_own)

lemma main_of_doc: "get_prop (site_doc S code links pages) (js ''main'') = Inr (JArr (map encode pages))"
proof -
  have n: "js ''^'' @ a \<noteq> js ''main''" "js ''$'' @ a \<noteq> js ''main''" for a by (simp_all add: js_def)
  have "map_of (map (\<lambda>(n, f). (js ''^'' @ n, encode_format f)) (site_formats S)) (js ''main'') = None"
    "map_of (map (\<lambda>(n, d). (js ''$'' @ n, source_body (code n))) (site_sources S)) (js ''main'') = None"
    by (auto simp: map_of_eq_None_iff n n [symmetric])
  then show ?thesis unfolding site_doc_def by (intro get_own) (simp add: map_add_def)
qed

lemma compile_site:
  assumes "site_ok S code E" "list_all (page_ok S) pages" "yaml_load content = Inr (site_doc S code links pages)"
  shows "compileWeb4YamlToHtml yaml_load E N content =
    Inr (full_html (join (nl @ js ''  '') (map link_html links)) (join nl (map (render S) pages)))"
proof -
  define m where "m = (site_manifest S)\<lparr>extensions := [(js ''headlink'', JArr (map link_obj links))]\<rparr>"
  have "process_entries E empty_manifest (case site_doc S code links pages of JObj kvs \<Rightarrow> kvs) = Inr m"
    using assms(1) process_formats [of "site_formats S" empty_manifest E]
      process_sources [of "site_sources S" "empty_manifest\<lparr>formats := map (\<lambda>(n, f). (n, encode_format f)) (site_formats S)\<rparr>" code E]
    by (simp add: site_doc_def process_entries_append process_rest site_ok_def empty_manifest_def
        site_manifest_def m_def del: process_entries.simps(2))
  moreover have "resolveNode N m (encode p) = Inr (render S p)" if "p \<in> set pages" for p
    using that assms(2) resolveNode_encode by (auto simp: m_def resolveNode_extensions list_all_iff)
  then have "rmap (resolveNode N m) (map encode pages) = Inr (map (render S) pages)"
    by (induction pages) simp_all
  moreover have "rmap (head_link N) (map link_obj links) = Inr (map link_html links)"
    by (induction links) (simp_all add: head_link_obj)
  moreover have "get_prop (JObj (extensions m)) (js ''headlink'') = Inr (JArr (map link_obj links))"
    by (simp add: m_def get_own)
  ultimately show ?thesis
    using assms(3) site_doc_entries [of S code links pages] main_of_doc [of S code links pages]
    by (simp add: compileWeb4YamlToHtml_def map_method_def site_doc_def)
qed

subsection \<open>Properties\<close>

lemma fill_params_split:
  "\<forall>(k, v) \<in> set kvs. 36 \<notin> set v \<Longrightarrow>
   fill_params N (map (\<lambda>(k, v). (k, JStr v)) kvs) tpl =
     Inr (fold (\<lambda>(k, v) t. join v (split_str (placeholder k) t)) kvs tpl)"
proof (induction kvs arbitrary: tpl)
  case (Cons kv kvs)
  moreover have "placeholder (fst kv) \<noteq> []" by (simp add: placeholder_def js_def)
  ultimately show ?case by (cases kv) (simp add: replaceAll_def replace_from_split)
qed simp



text \<open>
  A value with dollar signs is changed on its way into the page: a price written with two
  dollar signs loses one, and the two characters for the match put the placeholder back.
\<close>

theorem dollar_values_corrupted:
  "fill_params N [(js ''price'', JStr (js ''$$5''))] (js ''<b>${price}</b>'') = Inr (js ''<b>$5</b>'') \<and>
   fill_params N [(js ''price'', JStr (js ''$&''))] (js ''<b>${price}</b>'') = Inr (js ''<b>${price}</b>'')"
  by (simp add: placeholder_def js_def replaceAll_def replace_from.simps startsWith_def)

text \<open>
  C10. The compiler does what a manifest means. For every site whose names, templates and texts are
  well formed, compilation succeeds and the written page is the document frame around the head
  links and the rendering of the page trees, one main component per line: elements are properly
  nested, formats are filled with the given parameters over the defaults, and parameters that name
  a data source carry the field of that source.
\<close>

theorem web4_compiles_site:
  assumes "site_ok S code eval_output" and "list_all (page_ok S) pages"
    and "yaml_load content = Inr (site_doc S code links pages)"
  shows "compileWeb4YamlToHtml yaml_load eval_output N content =
    Inr (full_html (join (nl @ js ''  '') (map link_html links)) (join nl (map (render S) pages)))"
  using assms by (rule compile_site)

definition example_site :: Site where
  "example_site =
     \<lparr>site_formats = [(js ''stat'', \<lparr>fmt_params = [(js ''label'', js ''Metric''), (js ''value'', js ''0'')],
        fmt_template = [Lit (js ''<div>''), Hole (js ''label''), Lit (js '': ''), Hole (js ''value''), Lit (js ''</div>'')]\<rparr>)],
      site_sources = [(js ''net'', [(js ''height'', js ''1248910'')])]\<rparr>"

definition example_page :: Page where
  "example_page = PTag (js ''section'') None (Some (js ''grid''))
     [PComp (js ''stat'') [(js ''value'', FromSource (js ''net'') (js ''height''))] [], PText (js ''ok'')]"

theorem web4_compiles_site_witness:
  "compileWeb4YamlToHtml (\<lambda>_. Inr (site_doc example_site (\<lambda>_. js ''x'') [] [example_page]))
     (\<lambda>_. Inr (str_obj [(js ''height'', js ''1248910'')])) (\<lambda>_. []) [] =
   Inr (full_html [] (js ''<section class=\"grid\"><div>Metric: 1248910</div>ok</section>''))"
proof -
  have "site_ok example_site (\<lambda>_. js ''x'') (\<lambda>_. Inr (str_obj [(js ''height'', js ''1248910'')]))"
    by (simp add: site_ok_def example_site_def js_def)
  moreover have "page_ok example_site example_page" by code_simp
  moreover have "join nl (map (render example_site) [example_page]) =
      js ''<section class=\"grid\"><div>Metric: 1248910</div>ok</section>''" by code_simp
  moreover have "join (nl @ js ''  '') (map link_html []) = []" by (simp add: join_def)
  ultimately show ?thesis
    using web4_compiles_site [of example_site "\<lambda>_. js ''x''" _ "[example_page]" "\<lambda>_. _" "[]" "[]"] by simp
qed



text \<open>
  An extension entry other than \<^verbatim>\<open>+headlink\<close> has no effect: whatever is stored under its name, every
  component is resolved in the same way. In particular an extension named like a format does not
  override the parameters of the format.
\<close>

theorem web4_extensions_ignored:
  "resolveNode N (m\<lparr>extensions := e\<rparr>) node = resolveNode N m node"
  by (rule resolveNode_extensions)

end
