(* ===== verification/Wallet_Engine.thy ===== *)
theory Wallet_Engine
  imports JS_Core "HOL-Library.Log_Nat"
begin

text \<open>
  The wallet widget \<^verbatim>\<open>src/Client-Side/assets/js/wallet-engine.js\<close>. The two event listeners are handlers on
  a record of the page; every \<^verbatim>\<open>await\<close> of a request splits a handler, so a reply is an event of its
  own and replies may come in any order. Arguments stand for the network's replies, for the
  decimal notation of numbers \<open>N\<close> and for the text \<open>te\<close> of the engine's type errors. The page is
  taken to have the input fields and the status element, as the manifest of the site has, and no
  other element with the identifier of the confirm button. The sources put text into the page without
  escaping it: what the page does once such a text has a \<^verbatim>\<open><\<close> in it, and so may be markup, is \<open>Outside\<close>.
\<close>

subsection \<open>Numbers\<close>

definition pow2 :: "int \<Rightarrow> rat" where
  "pow2 e = (if 0 \<le> e then 2 ^ nat e else 1 / 2 ^ nat (- e))"

definition round_even :: "rat \<Rightarrow> int" where
  "round_even x =
     (let f = \<lfloor>x\<rfloor>; d = x - of_int f in
      if d < 1 / 2 then f else if d > 1 / 2 then f + 1 else if even f then f else f + 1)"

text \<open>The exponent of the leading binary digit of a positive number.\<close>

definition exponent :: "rat \<Rightarrow> int" where
  "exponent x =
     (case quotient_of x of (p, q) \<Rightarrow>
        let e = bitlen p - bitlen q in if pow2 e \<le> x then e else e - 1)"

text \<open>Rounding of an exact value to a double precision number, ties to even.\<close>

definition binary64 :: "rat \<Rightarrow> Number" where
  "binary64 x =
     (if x = 0 then Finite 0
      else
        let q = pow2 (max (exponent \<bar>x\<bar>) (- 1022) - 52);
            r = of_int (round_even (\<bar>x\<bar> / q)) * q
        in if pow2 1024 \<le> r then (if 0 < x then PosInfinity else NegInfinity)
           else Finite (if 0 < x then r else - r))"

definition digits_nat :: "jsstring \<Rightarrow> nat" where
  "digits_nat ds = foldl (\<lambda>n u. 10 * n + (unat u - 48)) 0 ds"

definition read_sign :: "jsstring \<Rightarrow> bool \<times> jsstring" where
  "read_sign s =
     (case s of [] \<Rightarrow> (False, [])
      | u # r \<Rightarrow> if u = 45 then (True, r) else if u = 43 then (False, r) else (False, s))"

definition read_exponent :: "jsstring \<Rightarrow> int" where
  "read_exponent s =
     (case s of [] \<Rightarrow> 0
      | u # r \<Rightarrow>
          if u = 101 \<or> u = 69 then
            (case read_sign r of (neg, r) \<Rightarrow>
               let ds = takeWhile unit_digit r in
               if ds = [] then 0 else if neg then - int (digits_nat ds) else int (digits_nat ds))
          else 0)"

definition pow10 :: "int \<Rightarrow> rat" where
  "pow10 e = (if 0 \<le> e then 10 ^ nat e else 1 / 10 ^ nat (- e))"

text \<open>\<^verbatim>\<open>parseFloat\<close>: the longest prefix that is a decimal literal, after leading white space.\<close>

definition parseFloat :: "jsstring \<Rightarrow> Number" where
  "parseFloat str =
     (case read_sign (dropWhile js_space str) of (neg, s) \<Rightarrow>
        if startsWith s (js ''Infinity'') then (if neg then NegInfinity else PosInfinity)
        else
          let ip = takeWhile unit_digit s; r = dropWhile unit_digit s;
              fp = (case r of [] \<Rightarrow> [] | u # r' \<Rightarrow> if u = 46 then takeWhile unit_digit r' else []);
              r2 = (case r of [] \<Rightarrow> [] | u # r' \<Rightarrow> if u = 46 then dropWhile unit_digit r' else r)
          in if ip = [] \<and> fp = [] then NaN
             else let v = of_nat (digits_nat (ip @ fp)) * pow10 (read_exponent r2 - int (length fp))
               in binary64 (if neg then - v else v))"

subsection \<open>Messages\<close>

definition html_lines :: "jsstring list \<Rightarrow> jsstring" where
  "html_lines ls = join [10] ls"

definition enter_both_html :: jsstring where
  "enter_both_html = js ''<p style=\"color: red;\">Please enter both a @handle and amount.</p>''"

definition resolving_html :: "jsstring \<Rightarrow> jsstring" where
  "resolving_html handle = js ''<p style=\"color: #666;\">Resolving '' @ handle @ js '' on Kubu Network...</p>''"

definition resolution_error_html :: "jsstring \<Rightarrow> jsstring" where
  "resolution_error_html msg = js ''<p style=\"color: red;\">Resolution Error: '' @ msg @ js ''</p>''"

definition resolved_html :: "jsstring \<Rightarrow> jsstring \<Rightarrow> jsstring \<Rightarrow> jsstring" where
  "resolved_html handle address amount =
     html_lines
       [[],
        js ''        <div style=\"background: #eef9f2; padding: 12px; border-radius: 6px; border: 1px solid #b7ebd0;\">'',
        js ''          <p style=\"color: #0d6332; margin: 0 0 4px 0;\"><strong>Handle Resolved!</strong></p>'',
        js ''          <p style=\"margin: 0 0 8px 0; font-family: monospace;\">'' @ handle @ [32, 0x2794, 32] @ address @ js ''</p>'',
        js ''          <button id=\"confirm-send-btn\" style=\"background: #0d6332; color: #fff; border: none; padding: 8px 16px; border-radius: 4px; cursor: pointer;\">'',
        js ''            Confirm & Send '' @ amount @ js '' KUBU'',
        js ''          </button>'',
        js ''        </div>'',
        js ''      '']"

definition broadcasting_html :: jsstring where
  "broadcasting_html = js ''<p style=\"color: #666;\">Broadcasting transaction to Kubu Network...</p>''"

definition transaction_failed_html :: "jsstring \<Rightarrow> jsstring" where
  "transaction_failed_html msg = js ''<p style=\"color: red;\">Transaction Failed: '' @ msg @ js ''</p>''"

definition sent_html :: "jsstring \<Rightarrow> jsstring \<Rightarrow> jsstring \<Rightarrow> jsstring" where
  "sent_html amount handle txid =
     html_lines
       [[],
        js ''            <p style=\"color: green; font-weight: bold;\">Sent '' @ amount @ js '' KUBU to '' @ handle @ js ''!</p>'',
        js ''            <p style=\"font-family: monospace; font-size: 12px;\">TxID: '' @ txid @ js ''</p>'',
        js ''          '']"

definition proxy_error_html :: "jsstring \<Rightarrow> jsstring" where
  "proxy_error_html msg = js ''<p style=\"color: red;\">RPC Proxy Error: '' @ msg @ js ''</p>''"

subsection \<open>The page\<close>

record RpcRequest =
  rpc_jsonrpc :: jsstring
  rpc_id :: nat
  rpc_method :: jsstring
  rpc_params :: "JsValue list"

text \<open>The variables the listener of the confirm button has captured.\<close>

record Resolution =
  res_handle :: jsstring
  res_amount :: jsstring
  res_address :: JsValue

record Wallet =
  sendBtn :: bool
  handleInput :: jsstring
  amountInput :: jsstring
  statusDiv :: jsstring
  confirmBtn :: "Resolution option"
  resolving :: "(jsstring \<times> jsstring) list"
  sending :: "Resolution list"
  requests :: "RpcRequest list"

definition initial_wallet :: "bool \<Rightarrow> jsstring \<Rightarrow> Wallet" where
  "initial_wallet btn html =
     \<lparr>sendBtn = btn, handleInput = [], amountInput = [], statusDiv = html, confirmBtn = None,
      resolving = [], sending = [], requests = []\<rparr>"

text \<open>Assigning \<^verbatim>\<open>innerHTML\<close> discards the elements inside, so a confirm button and its listener go.\<close>

definition set_status :: "jsstring \<Rightarrow> Wallet \<Rightarrow> Wallet" where
  "set_status html w = w\<lparr>statusDiv := html, confirmBtn := None\<rparr>"

text \<open>Text without markup, which the page shows as it is.\<close>

definition no_markup :: "jsstring \<Rightarrow> bool" where
  "no_markup t \<longleftrightarrow> 60 \<notin> set t"

definition show_texts :: "jsstring list \<Rightarrow> 'a \<Rightarrow> js_error + 'a" where
  "show_texts ts x = (if list_all no_markup ts then Inr x else Inl Outside)"

text \<open>An element of an array as \<^verbatim>\<open>JSON.stringify\<close> writes it; there are no functions in these arrays.\<close>

fun json_element :: "JsValue \<Rightarrow> JsValue" where
  "json_element JUndefined = JNull"
| "json_element (JNum NaN) = JNull"
| "json_element (JNum PosInfinity) = JNull"
| "json_element (JNum NegInfinity) = JNull"
| "json_element v = v"

text \<open>
  The reply to a request: the message of the error when the request fails or its body is not JSON,
  the body otherwise.
\<close>

datatype Response = Fails jsstring | Body JsValue

definition resolve_request :: "jsstring \<Rightarrow> RpcRequest" where
  "resolve_request handle =
     \<lparr>rpc_jsonrpc = js ''2.0'', rpc_id = 1, rpc_method = js ''resolvealias'', rpc_params = [JStr (strip_at_sign handle)]\<rparr>"

definition send_request :: "Resolution \<Rightarrow> RpcRequest" where
  "send_request r =
     \<lparr>rpc_jsonrpc = js ''2.0'', rpc_id = 2, rpc_method = js ''sendtoaddress'',
      rpc_params = map json_element [res_address r, JNum (parseFloat (res_amount r))]\<rparr>"

definition click_send :: "Wallet \<Rightarrow> js_error + Wallet" where
  "click_send w =
     (let handle = js_trim (handleInput w); amount = js_trim (amountInput w) in
      if handle = [] \<or> amount = [] then Inr (set_status enter_both_html w)
      else show_texts [handle] ((set_status (resolving_html handle) w)
        \<lparr>resolving := resolving w @ [(handle, amount)], requests := requests w @ [resolve_request handle]\<rparr>))"

text \<open>
  The rest of the first listener, inside its \<^verbatim>\<open>try\<close> block: the new content of the status element and,
  when a confirm button is shown, what its listener captures. First the part after the test of
  \<^verbatim>\<open>data.error\<close>, for \<^verbatim>\<open>data.result\<close>.
\<close>

definition address_outcome ::
  "(JsValue \<Rightarrow> jsstring \<Rightarrow> jsstring) \<Rightarrow> (Number \<Rightarrow> jsstring) \<Rightarrow> jsstring \<Rightarrow> jsstring \<Rightarrow> JsValue \<Rightarrow>
   js_error + jsstring \<times> Resolution option" where
  "address_outcome te N handle amount res =
     (case get_prop res (js ''address'') of
        Inl TypeError \<Rightarrow>
          show_texts [te res (js ''address'')] (proxy_error_html (te res (js ''address'')), None)
      | Inl Outside \<Rightarrow> Inl Outside
      | Inr resolvedAddress \<Rightarrow>
          rbind (to_str N resolvedAddress) (\<lambda>address.
            show_texts [handle, address, amount]
              (resolved_html handle address amount,
               Some \<lparr>res_handle = handle, res_amount = amount, res_address = resolvedAddress\<rparr>)))"

definition resolve_outcome ::
  "(JsValue \<Rightarrow> jsstring \<Rightarrow> jsstring) \<Rightarrow> (Number \<Rightarrow> jsstring) \<Rightarrow> jsstring \<Rightarrow> jsstring \<Rightarrow> Response \<Rightarrow>
   js_error + jsstring \<times> Resolution option" where
  "resolve_outcome te N handle amount resp =
     (case resp of
        Fails msg \<Rightarrow> show_texts [msg] (proxy_error_html msg, None)
      | Body data \<Rightarrow>
          (case get_prop data (js ''error'') of
             Inl TypeError \<Rightarrow>
               show_texts [te data (js ''error'')] (proxy_error_html (te data (js ''error'')), None)
           | Inl Outside \<Rightarrow> Inl Outside
           | Inr err \<Rightarrow>
               if truthy err then
                 rbind (get_prop err (js ''message'')) (\<lambda>m. rbind (to_str N m) (\<lambda>msg.
                   show_texts [msg] (resolution_error_html msg, None)))
               else rbind (get_prop data (js ''result'')) (address_outcome te N handle amount)))"

definition resolve_reply ::
  "(JsValue \<Rightarrow> jsstring \<Rightarrow> jsstring) \<Rightarrow> (Number \<Rightarrow> jsstring) \<Rightarrow> nat \<Rightarrow> Response \<Rightarrow> Wallet \<Rightarrow> js_error + Wallet" where
  "resolve_reply te N i resp w =
     (case resolving w ! i of (handle, amount) \<Rightarrow>
        rbind (resolve_outcome te N handle amount resp) (\<lambda>(html, button).
          Inr (w\<lparr>statusDiv := html, confirmBtn := button,
                 resolving := take i (resolving w) @ drop (Suc i) (resolving w)\<rparr>)))"

definition click_confirm :: "Resolution \<Rightarrow> Wallet \<Rightarrow> Wallet" where
  "click_confirm r w =
     (set_status broadcasting_html w)
       \<lparr>sending := sending w @ [r], requests := requests w @ [send_request r]\<rparr>"

text \<open>
  The rest of the second listener. It is not inside the \<^verbatim>\<open>try\<close> block of the first: when the request
  fails or the reply is not as expected, its promise is rejected and the page stays as it is.
\<close>

definition send_outcome ::
  "(Number \<Rightarrow> jsstring) \<Rightarrow> Resolution \<Rightarrow> Response \<Rightarrow> js_error + jsstring option" where
  "send_outcome N r resp =
     (case resp of
        Fails msg \<Rightarrow> Inr None
      | Body txData \<Rightarrow>
          (case get_prop txData (js ''error'') of
             Inl TypeError \<Rightarrow> Inr None
           | Inl Outside \<Rightarrow> Inl Outside
           | Inr err \<Rightarrow>
               if truthy err then
                 rbind (get_prop err (js ''message'')) (\<lambda>m. rbind (to_str N m) (\<lambda>msg.
                   show_texts [msg] (Some (transaction_failed_html msg))))
               else
                 rbind (get_prop txData (js ''result'')) (\<lambda>res. rbind (to_str N res) (\<lambda>txid.
                   show_texts [res_amount r, res_handle r, txid] (Some (sent_html (res_amount r) (res_handle r) txid))))))"

definition send_reply ::
  "(Number \<Rightarrow> jsstring) \<Rightarrow> nat \<Rightarrow> Response \<Rightarrow> Wallet \<Rightarrow> js_error + Wallet" where
  "send_reply N i resp w =
     rbind (send_outcome N (sending w ! i) resp) (\<lambda>html.
       let w' = w\<lparr>sending := take i (sending w) @ drop (Suc i) (sending w)\<rparr> in
       Inr (case html of None \<Rightarrow> w' | Some html \<Rightarrow> set_status html w'))"

subsection \<open>Events\<close>

datatype Event =
  TypeHandle jsstring | TypeAmount jsstring | ClickSend | ResolveReply nat Response
| ClickConfirm | SendReply nat Response

inductive step ::
  "(JsValue \<Rightarrow> jsstring \<Rightarrow> jsstring) \<Rightarrow> (Number \<Rightarrow> jsstring) \<Rightarrow> Wallet \<Rightarrow> Event \<Rightarrow> Wallet \<Rightarrow> bool"
  for te :: "JsValue \<Rightarrow> jsstring \<Rightarrow> jsstring" and N :: "Number \<Rightarrow> jsstring" where
  type_handle: "step te N w (TypeHandle s) (w\<lparr>handleInput := s\<rparr>)"
| type_amount: "step te N w (TypeAmount s) (w\<lparr>amountInput := s\<rparr>)"
| click_send: "sendBtn w \<Longrightarrow> click_send w = Inr w' \<Longrightarrow> step te N w ClickSend w'"
| resolve_reply: "i < length (resolving w) \<Longrightarrow> resolve_reply te N i resp w = Inr w' \<Longrightarrow>
    step te N w (ResolveReply i resp) w'"
| click_confirm: "confirmBtn w = Some r \<Longrightarrow> step te N w ClickConfirm (click_confirm r w)"
| send_reply: "i < length (sending w) \<Longrightarrow> send_reply N i resp w = Inr w' \<Longrightarrow>
    step te N w (SendReply i resp) w'"

inductive_cases stepE: "step te N w e w'"

inductive reach ::
  "(JsValue \<Rightarrow> jsstring \<Rightarrow> jsstring) \<Rightarrow> (Number \<Rightarrow> jsstring) \<Rightarrow> Event list \<Rightarrow> Wallet \<Rightarrow> bool"
  for te :: "JsValue \<Rightarrow> jsstring \<Rightarrow> jsstring" and N :: "Number \<Rightarrow> jsstring" where
  start: "reach te N [] (initial_wallet btn html)"
| snoc: "reach te N es w \<Longrightarrow> step te N w e w' \<Longrightarrow> reach te N (es @ [e]) w'"

subsection \<open>What a trace of events justifies\<close>

text \<open>The amount was typed, and a reply without an error gave the address.\<close>

definition typed :: "Event list \<Rightarrow> jsstring \<Rightarrow> bool" where
  "typed es a \<longleftrightarrow> a \<noteq> [] \<and> (\<exists>s. TypeAmount s \<in> set es \<and> a = js_trim s)"

definition resolved_by :: "Event list \<Rightarrow> Resolution \<Rightarrow> bool" where
  "resolved_by es r \<longleftrightarrow> typed es (res_amount r) \<and>
     (\<exists>i data err res. ResolveReply i (Body data) \<in> set es \<and>
        get_prop data (js ''error'') = Inr err \<and> \<not> truthy err \<and>
        get_prop data (js ''result'') = Inr res \<and> get_prop res (js ''address'') = Inr (res_address r))"

definition displayed :: "(Number \<Rightarrow> jsstring) \<Rightarrow> Resolution \<Rightarrow> jsstring \<Rightarrow> bool" where
  "displayed N r html \<longleftrightarrow>
     (\<exists>address. to_str N (res_address r) = Inr address \<and>
        html = resolved_html (res_handle r) address (res_amount r))"

definition is_send :: "RpcRequest \<Rightarrow> bool" where
  "is_send q \<longleftrightarrow> rpc_method q = js ''sendtoaddress''"

definition is_resolve_reply :: "Event \<Rightarrow> bool" where
  "is_resolve_reply e \<longleftrightarrow> (\<exists>i resp. e = ResolveReply i resp)"

definition wallet_inv :: "(Number \<Rightarrow> jsstring) \<Rightarrow> Event list \<Rightarrow> Wallet \<Rightarrow> bool" where
  "wallet_inv N es w \<longleftrightarrow>
     (amountInput w = [] \<or> TypeAmount (amountInput w) \<in> set es) \<and>
     (\<forall>(h, a) \<in> set (resolving w). typed es a) \<and>
     (\<forall>r. confirmBtn w = Some r \<longrightarrow> displayed N r (statusDiv w) \<and> resolved_by es r) \<and>
     (\<forall>q \<in> set (requests w). is_send q \<longrightarrow> (\<exists>r. q = send_request r \<and> resolved_by es r))"

lemma show_texts_Inr [simp]: "show_texts ts x = Inr y \<longleftrightarrow> list_all no_markup ts \<and> y = x"
  by (auto simp: show_texts_def)

lemma typed_mono: "typed es a \<Longrightarrow> typed (es @ [e]) a"
  by (auto simp: typed_def)

lemma resolved_by_mono: "resolved_by es r \<Longrightarrow> resolved_by (es @ [e]) r"
  unfolding resolved_by_def using typed_mono by fastforce

lemma is_send_simps [simp]: "\<not> is_send (resolve_request h)" "is_send (send_request r)"
  by (simp_all add: is_send_def resolve_request_def send_request_def)

lemma set_status_simps [simp]:
  "confirmBtn (set_status h w) = None" "statusDiv (set_status h w) = h"
  "resolving (set_status h w) = resolving w" "requests (set_status h w) = requests w"
  "amountInput (set_status h w) = amountInput w" "sending (set_status h w) = sending w"
  by (simp_all add: set_status_def)

lemma js_trim_Nil [simp]: "js_trim [] = []"
  by (simp add: js_trim_def rdropWhile_def)

lemma address_outcome_button:
  "address_outcome te N h a res = Inr (html, Some r) \<Longrightarrow>
   get_prop res (js ''address'') = Inr (res_address r) \<and> res_handle r = h \<and> res_amount r = a \<and> displayed N r html"
  unfolding address_outcome_def displayed_def
  by (auto split: sum.splits js_error.splits simp: rbind_Inr_iff)

lemma resolve_outcome_button:
  assumes "resolve_outcome te N h a resp = Inr (html, Some r)"
  shows "\<exists>data err res. resp = Body data \<and> get_prop data (js ''error'') = Inr err \<and> \<not> truthy err \<and>
    get_prop data (js ''result'') = Inr res \<and> get_prop res (js ''address'') = Inr (res_address r) \<and>
    res_handle r = h \<and> res_amount r = a \<and> displayed N r html"
  using assms unfolding resolve_outcome_def
  by (auto split: Response.splits sum.splits js_error.splits if_splits simp: rbind_Inr_iff
      dest!: address_outcome_button)

lemma resolve_replyE:
  assumes "resolve_reply te N i resp w = Inr w'" "i < length (resolving w)"
  obtains h a html button where "(h, a) \<in> set (resolving w)"
    "resolve_outcome te N h a resp = Inr (html, button)"
    "w' = w\<lparr>statusDiv := html, confirmBtn := button,
            resolving := take i (resolving w) @ drop (Suc i) (resolving w)\<rparr>"
proof -
  obtain h a where ha: "resolving w ! i = (h, a)" by fastforce
  then have "(h, a) \<in> set (resolving w)" using nth_mem [OF assms(2)] by simp
  with assms(1) ha show thesis unfolding resolve_reply_def
    by (auto simp: rbind_Inr_iff intro: that)
qed

lemma send_replyE:
  assumes "send_reply N i resp w = Inr w'"
  obtains (rejected) "w' = w\<lparr>sending := take i (sending w) @ drop (Suc i) (sending w)\<rparr>"
  | (reported) html where
      "w' = set_status html (w\<lparr>sending := take i (sending w) @ drop (Suc i) (sending w)\<rparr>)"
  using assms unfolding send_reply_def
  by (auto split: option.splits simp: rbind_Inr_iff Let_def)

lemma click_sendE:
  assumes "click_send w = Inr w'"
  obtains (incomplete) "w' = set_status enter_both_html w"
  | (asked) h a where "h = js_trim (handleInput w)" "a = js_trim (amountInput w)" "h \<noteq> []" "a \<noteq> []"
      "w' = (set_status (resolving_html h) w)
         \<lparr>resolving := resolving w @ [(h, a)], requests := requests w @ [resolve_request h]\<rparr>"
  using assms unfolding click_send_def by (auto simp: Let_def split: if_splits)

lemma wallet_inv_mono: "wallet_inv N es w \<Longrightarrow> wallet_inv N (es @ [e]) w"
  unfolding wallet_inv_def using typed_mono resolved_by_mono by fastforce

lemma wallet_inv_no_button: "wallet_inv N es w \<Longrightarrow> wallet_inv N es (set_status html w)"
  by (simp add: wallet_inv_def)

lemma wallet_inv_start: "wallet_inv N [] (initial_wallet btn html)"
  by (simp add: wallet_inv_def initial_wallet_def)

lemma wallet_inv_click_send:
  assumes "wallet_inv N es w" "click_send w = Inr w'"
  shows "wallet_inv N es w'"
  using assms(2)
proof (cases rule: click_sendE)
  case incomplete
  then show ?thesis using assms(1) by (simp add: wallet_inv_no_button)
next
  case (asked h a)
  moreover have "typed es a"
    using assms(1) asked(2,4) unfolding typed_def wallet_inv_def by auto
  ultimately show ?thesis using assms(1) by (auto simp: wallet_inv_def)
qed

lemma wallet_inv_resolve_reply:
  assumes inv: "wallet_inv N es w" and "resolve_reply te N i resp w = Inr w'" "i < length (resolving w)"
  shows "wallet_inv N (es @ [ResolveReply i resp]) w'"
  using assms(2,3)
proof (cases rule: resolve_replyE)
  case (1 h a html button)
  have mono: "wallet_inv N (es @ [ResolveReply i resp]) w" using inv by (rule wallet_inv_mono)
  have "displayed N r html \<and> resolved_by (es @ [ResolveReply i resp]) r" if "button = Some r" for r
  proof -
    have "typed (es @ [ResolveReply i resp]) a" using mono 1(1) unfolding wallet_inv_def by blast
    then show ?thesis using resolve_outcome_button [of te N h a resp html r] 1(2) that
      unfolding resolved_by_def by auto
  qed
  then show ?thesis using mono 1(3) unfolding wallet_inv_def
    by (auto dest: in_set_takeD in_set_dropD)
qed

lemma wallet_inv_click_confirm:
  assumes "wallet_inv N es w" "confirmBtn w = Some r"
  shows "wallet_inv N es (click_confirm r w)"
  using assms unfolding wallet_inv_def click_confirm_def by auto

lemma wallet_inv_send_reply:
  assumes "wallet_inv N es w" "send_reply N i resp w = Inr w'"
  shows "wallet_inv N es w'"
  using assms(2) by (cases rule: send_replyE) (use assms(1) in \<open>simp_all add: wallet_inv_def\<close>)

lemma wallet_inv_step: "step te N w e w' \<Longrightarrow> wallet_inv N es w \<Longrightarrow> wallet_inv N (es @ [e]) w'"
proof (induction rule: step.induct)
  case (type_handle w s)
  from wallet_inv_mono [OF this, of "TypeHandle s"] show ?case by (simp add: wallet_inv_def)
next
  case (type_amount w s)
  from wallet_inv_mono [OF this, of "TypeAmount s"] show ?case by (simp add: wallet_inv_def)
qed (auto intro: wallet_inv_mono wallet_inv_click_send wallet_inv_resolve_reply
       wallet_inv_click_confirm wallet_inv_send_reply)

lemma reach_inv: "reach te N es w \<Longrightarrow> wallet_inv N es w"
  by (induction rule: reach.induct) (auto intro: wallet_inv_start wallet_inv_step)

subsection \<open>Counting\<close>

definition sends :: "Wallet \<Rightarrow> nat" where
  "sends w = length (filter is_send (requests w))"

definition buttons :: "Wallet \<Rightarrow> nat" where
  "buttons w = (if confirmBtn w = None then 0 else 1)"

lemma step_counts:
  "step te N w e w' \<Longrightarrow>
   sends w' = sends w + (if e = ClickConfirm then 1 else 0) \<and>
   sends w' + buttons w' \<le> sends w + buttons w + (if is_resolve_reply e then 1 else 0)"
proof (induction rule: step.induct)
  case (click_send w w')
  from click_send(2) show ?case
    by (cases rule: click_sendE) (auto simp: sends_def buttons_def)
next
  case (resolve_reply i w resp w')
  from resolve_reply(2,1) show ?case
    by (cases rule: resolve_replyE) (auto simp: sends_def buttons_def is_resolve_reply_def)
next
  case (click_confirm w r)
  then show ?case by (auto simp: sends_def buttons_def click_confirm_def)
next
  case (send_reply i w resp w')
  from send_reply(2) show ?case
    by (cases rule: send_replyE) (auto simp: sends_def buttons_def)
qed (auto simp: sends_def buttons_def)

lemma reach_counts:
  "reach te N es w \<Longrightarrow>
   sends w = length (filter ((=) ClickConfirm) es) \<and> sends w + buttons w \<le> length (filter is_resolve_reply es)"
proof (induction rule: reach.induct)
  case (start btn html)
  show ?case by (simp add: sends_def buttons_def initial_wallet_def)
next
  case (snoc es w e w')
  then show ?case using step_counts [OF snoc(2)] by (auto split: if_splits)
qed

subsection \<open>Amounts\<close>

lemma round_even_int [simp]: "round_even (of_int n) = n"
  by (simp add: round_even_def)

lemma pow2_nonneg: "pow2 (int k) = 2 ^ k"
  by (simp add: pow2_def)

lemma pow2_pos [simp]: "0 < pow2 e"
  by (simp add: pow2_def)

lemma bitlen_pos: "0 < n \<Longrightarrow> 0 \<le> bitlen n - 1"
  by (cases "bitlen n \<le> 0") (auto simp: bitlen_def floorlog_def)

lemma exponent_int:
  assumes "0 < n"
  shows "exponent (of_int n) = bitlen n - 1"
proof -
  have "2 ^ nat (bitlen n - 1) \<le> n" using bitlen_bounds [OF assms] by simp
  then have "(of_int (2 ^ nat (bitlen n - 1)) :: rat) \<le> of_int n" by (simp only: of_int_le_iff)
  moreover have "0 \<le> bitlen n - 1" using assms by (rule bitlen_pos)
  moreover have "bitlen 1 = 1" by (simp add: bitlen_def floorlog_def)
  ultimately show ?thesis by (simp add: exponent_def quotient_of_int pow2_def Let_def)
qed

lemma binary64_int:
  assumes "0 \<le> n" "n \<le> 2 ^ 53"
  shows "binary64 (of_int n) = Finite (of_int n)"
proof (cases "n = 0")
  case False
  then have n: "0 < n" using assms(1) by simp
  define e where "e = bitlen n - 1"
  have e: "0 \<le> e" using bitlen_pos [OF n] by (simp add: e_def)
  have le: "2 ^ nat e \<le> n" using bitlen_bounds [OF n] by (simp add: e_def)
  then have "(2 :: int) ^ nat e \<le> 2 ^ 53" using assms(2) by linarith
  then have e53: "nat e \<le> 53" using power_le_imp_le_exp [of "2 :: int" "nat e" 53] by simp
  have "\<exists>m. of_int n / pow2 (e - 52) = of_int m"
  proof (cases "e \<le> 52")
    case True
    then have "of_int n / pow2 (e - 52) = of_int (n * 2 ^ nat (52 - e))"
      using e by (cases "e = 52") (auto simp: pow2_def)
    then show ?thesis by blast
  next
    case False
    then have "e = 53" using e53 by linarith
    then have "n = 2 ^ 53" using le assms(2) by simp
    then have "of_int n / pow2 (e - 52) = of_int (2 ^ 52)" using \<open>e = 53\<close> by (simp add: pow2_def)
    then show ?thesis by blast
  qed
  then obtain m where m: "of_int n / pow2 (e - 52) = of_int m" by blast
  then have whole: "of_int m * pow2 (e - 52) = of_int n" by (simp add: field_simps less_imp_neq [symmetric])
  have "(of_int n :: rat) \<le> of_int (2 ^ 53)" using assms(2) by (simp only: of_int_le_iff)
  also have "\<dots> < pow2 1024" by (simp add: pow2_def)
  finally have "of_int n < pow2 1024" .
  then show ?thesis
    using n e m whole by (simp add: binary64_def exponent_int e_def [symmetric] Let_def max_def)
qed (simp add: binary64_def)

lemma unit_digit_word: "d < 10 \<Longrightarrow> unit_digit (word_of_nat (48 + d)) \<and> unat (word_of_nat (48 + d) :: 16 word) = 48 + d"
  by (simp add: unit_digit_def unat_of_nat word_le_nat_alt del: of_nat_add)

lemma decimal_digits: "decimal n \<noteq> [] \<and> list_all unit_digit (decimal n) \<and> digits_nat (decimal n) = n"
proof (induction n rule: decimal.induct)
  case (1 n)
  show ?case
  proof (cases "n < 10")
    case True
    then show ?thesis using unit_digit_word [of n] by (simp add: decimal.simps [of n] digits_nat_def)
  next
    case False
    then show ?thesis using 1 unit_digit_word [of "n mod 10"]
      by (simp add: decimal.simps [of n] digits_nat_def)
  qed
qed

lemma digit_not_special:
  "unit_digit u \<Longrightarrow> \<not> js_space u \<and> u \<noteq> 45 \<and> u \<noteq> 43 \<and> u \<noteq> 46 \<and> u \<noteq> 73"
  by (auto simp: unit_digit_def js_space_def word_le_nat_alt word_unat_eq_iff)

lemma parseFloat_decimal:
  assumes "n \<le> 2 ^ 53"
  shows "parseFloat (decimal n) = Finite (of_nat n)"
proof -
  obtain u r where u: "decimal n = u # r" using decimal_digits [of n] by (cases "decimal n") auto
  have d: "list_all unit_digit (u # r)" "digits_nat (u # r) = n" using decimal_digits [of n] u by simp_all
  then have digits: "unit_digit u" "\<forall>x \<in> set r. unit_digit x" by (simp_all add: list_all_iff)
  then have all: "takeWhile unit_digit r = r" "dropWhile unit_digit r = []" by simp_all
  have "binary64 (of_nat n) = Finite (of_nat n)" using binary64_int [of "int n"] assms by simp
  then show ?thesis using digit_not_special [of u] digits(1) d(2)
    by (simp add: all u parseFloat_def read_sign_def startsWith_def js_def read_exponent_def pow10_def Let_def)
qed

subsection \<open>A run of the page\<close>

definition example_reply :: Response where
  "example_reply = Body (JObj [(js ''result'', JObj [(js ''address'', JStr [75])])])"

definition example_events :: "Event list" where
  "example_events = [TypeHandle [64, 97], TypeAmount [53], ClickSend, ResolveReply 0 example_reply]"

definition example_resolution :: Resolution where
  "example_resolution = \<lparr>res_handle = [64, 97], res_amount = [53], res_address = JStr [75]\<rparr>"

definition example_wallet :: Wallet where
  "example_wallet =
     \<lparr>sendBtn = True, handleInput = [64, 97], amountInput = [53], statusDiv = resolved_html [64, 97] [75] [53],
      confirmBtn = Some example_resolution, resolving = [], sending = [],
      requests = [resolve_request [64, 97]]\<rparr>"

lemma example_trim: "js_trim [64, 97] = [64, 97]" "js_trim [53] = [53]"
  by (simp_all add: js_trim_def js_space_def rdropWhile_def)

lemma example_reach: "reach te N example_events example_wallet"
proof -
  let ?w0 = "initial_wallet True []"
  let ?w1 = "?w0\<lparr>handleInput := [64, 97]\<rparr>"
  let ?w2 = "?w1\<lparr>amountInput := [53]\<rparr>"
  let ?w3 = "(set_status (resolving_html [64, 97]) ?w2)
    \<lparr>resolving := [([64, 97], [53])], requests := [resolve_request [64, 97]]\<rparr>"
  have "reach te N [] ?w0" by (rule reach.start)
  then have "reach te N ([] @ [TypeHandle [64, 97]]) ?w1" by (rule reach.snoc) (rule step.type_handle)
  then have "reach te N (([] @ [TypeHandle [64, 97]]) @ [TypeAmount [53]]) ?w2"
    by (rule reach.snoc) (rule step.type_amount)
  moreover have "step te N ?w2 ClickSend ?w3"
    by (rule step.click_send)
      (simp_all add: initial_wallet_def click_send_def example_trim show_texts_def no_markup_def Let_def)
  ultimately have "reach te N ((([] @ [TypeHandle [64, 97]]) @ [TypeAmount [53]]) @ [ClickSend]) ?w3"
    by (rule reach.snoc)
  moreover have "step te N ?w3 (ResolveReply 0 example_reply) example_wallet"
    by (rule step.resolve_reply)
      (simp_all add: resolve_reply_def resolve_outcome_def address_outcome_def example_reply_def get_own
        get_missing rbind_def show_texts_def no_markup_def example_wallet_def example_resolution_def
        set_status_def initial_wallet_def)
  ultimately have
    "reach te N (((([] @ [TypeHandle [64, 97]]) @ [TypeAmount [53]]) @ [ClickSend]) @ [ResolveReply 0 example_reply])
       example_wallet" by (rule reach.snoc)
  then show ?thesis by (simp add: example_events_def)
qed

lemma example_confirm: "step te N example_wallet ClickConfirm (click_confirm example_resolution example_wallet)"
  by (rule step.click_confirm) (simp add: example_wallet_def)

subsection \<open>Properties\<close>

text \<open>
  C3. In every reachable state of the page that has a confirm button, the page shows the handle, the
  address and the amount that its listener has captured, and clicking it sends exactly one request,
  \<^verbatim>\<open>sendtoaddress\<close> with that address and the number the amount starts with.
\<close>

theorem wallet_sends_what_it_shows:
  assumes "reach te N es w" and "confirmBtn w = Some r" and "step te N w ClickConfirm w'"
  shows "\<exists>address. to_str N (res_address r) = Inr address \<and>
           statusDiv w = resolved_html (res_handle r) address (res_amount r) \<and>
           requests w' = requests w @
             [\<lparr>rpc_jsonrpc = js ''2.0'', rpc_id = 2, rpc_method = js ''sendtoaddress'',
               rpc_params = [json_element (res_address r), json_element (JNum (parseFloat (res_amount r)))]\<rparr>] \<and>
           statusDiv w' = broadcasting_html \<and> confirmBtn w' = None"
  using reach_inv [OF assms(1)] assms(2,3)
  by (auto elim!: stepE simp: wallet_inv_def displayed_def click_confirm_def send_request_def)

theorem wallet_sends_what_it_shows_witness:
  "\<exists>address. to_str (\<lambda>_. []) (res_address example_resolution) = Inr address \<and>
     statusDiv example_wallet = resolved_html (res_handle example_resolution) address (res_amount example_resolution)"
  using wallet_sends_what_it_shows [where te = "\<lambda>_ _. []" and N = "\<lambda>_. []", OF example_reach _ example_confirm,
      of example_resolution]
  by (auto simp: example_wallet_def)

text \<open>
  C4. Every payment request the page has ever sent goes to an address that a reply without an error
  to a name resolution gave, with the number that an amount the user typed starts with.
\<close>

theorem wallet_pays_only_resolved:
  assumes "reach te N es w" and "q \<in> set (requests w)" and "rpc_method q = js ''sendtoaddress''"
  shows "\<exists>i data err res address s.
           ResolveReply i (Body data) \<in> set es \<and> get_prop data (js ''error'') = Inr err \<and> \<not> truthy err \<and>
           get_prop data (js ''result'') = Inr res \<and> get_prop res (js ''address'') = Inr address \<and>
           TypeAmount s \<in> set es \<and> js_trim s \<noteq> [] \<and>
           rpc_params q = [json_element address, json_element (JNum (parseFloat (js_trim s)))]"
proof -
  obtain r where "q = send_request r" "resolved_by es r"
    using reach_inv [OF assms(1)] assms(2,3) unfolding wallet_inv_def is_send_def by blast
  moreover from this(2) obtain s i data err res where
    "js_trim s \<noteq> []" "TypeAmount s \<in> set es" "res_amount r = js_trim s"
    "ResolveReply i (Body data) \<in> set es" "get_prop data (js ''error'') = Inr err" "\<not> truthy err"
    "get_prop data (js ''result'') = Inr res" "get_prop res (js ''address'') = Inr (res_address r)"
    unfolding resolved_by_def typed_def by auto
  moreover from this(3) calculation(1) have
    "rpc_params q = [json_element (res_address r), json_element (JNum (parseFloat (js_trim s)))]"
    by (simp add: send_request_def)
  ultimately show ?thesis by blast
qed

theorem wallet_pays_only_resolved_witness:
  "\<exists>address s. rpc_params (send_request example_resolution) =
     [json_element address, json_element (JNum (parseFloat (js_trim s)))]"
proof -
  have "send_request example_resolution \<in> set (requests (click_confirm example_resolution example_wallet))"
    by (simp add: click_confirm_def)
  moreover have "rpc_method (send_request example_resolution) = js ''sendtoaddress''"
    by (simp add: send_request_def)
  ultimately show ?thesis
    using wallet_pays_only_resolved [where te = "\<lambda>_ _. []" and N = "\<lambda>_. []",
        OF reach.snoc [OF example_reach example_confirm], of "send_request example_resolution"] by blast
qed

text \<open>
  C22. The page sends as many payment requests as the user confirms, and never more than there were
  replies to name resolutions: no confirm button can be used twice.
\<close>

theorem wallet_confirms_once:
  assumes "reach te N es w"
  shows "length (filter (\<lambda>q. rpc_method q = js ''sendtoaddress'') (requests w)) = length (filter ((=) ClickConfirm) es) \<and>
    length (filter ((=) ClickConfirm) es) + (if confirmBtn w = None then 0 else 1)
      \<le> length (filter (\<lambda>e. \<exists>i resp. e = ResolveReply i resp) es)"
  using reach_counts [OF assms]
  by (simp add: sends_def buttons_def is_send_def [abs_def] is_resolve_reply_def [abs_def])

theorem wallet_confirms_once_witness:
  "length (filter (\<lambda>q. rpc_method q = js ''sendtoaddress'') (requests example_wallet)) =
     length (filter ((=) ClickConfirm) example_events)"
  using wallet_confirms_once [where te = "\<lambda>_ _. []" and N = "\<lambda>_. []", OF example_reach] by blast

text \<open>
  A resolution that fails is reported and leaves no confirm button: a failed request and a reply
  without a result with the message of the error, a reply with an error with its message.
\<close>

theorem wallet_reports_failed_resolution:
  assumes "resolving w = (h, a) # rest" and "no_markup msg" and "no_markup (te JUndefined (js ''address''))"
  shows "resolve_reply te N 0 (Fails msg) w =
           Inr (w\<lparr>statusDiv := proxy_error_html msg, confirmBtn := None, resolving := rest\<rparr>) \<and>
         resolve_reply te N 0 (Body (JObj [(js ''error'', JObj [(js ''message'', JStr msg)])])) w =
           Inr (w\<lparr>statusDiv := resolution_error_html msg, confirmBtn := None, resolving := rest\<rparr>) \<and>
         resolve_reply te N 0 (Body (JObj [])) w =
           Inr (w\<lparr>statusDiv := proxy_error_html (te JUndefined (js ''address'')), confirmBtn := None, resolving := rest\<rparr>)"
  using assms
  by (simp add: resolve_reply_def resolve_outcome_def address_outcome_def get_own get_missing
      show_texts_def rbind_def get_prop_def [of JUndefined])

theorem wallet_reports_failed_resolution_witness:
  "let w = (initial_wallet True [])\<lparr>resolving := [(js ''@alice'', js ''5'')]\<rparr> in
   resolve_reply (\<lambda>_ _. js ''no address'') (\<lambda>_. []) 0 (Fails (js ''offline'')) w =
     Inr (w\<lparr>statusDiv := proxy_error_html (js ''offline''), confirmBtn := None, resolving := []\<rparr>)"
proof -
  have plain: "no_markup (js ''offline'')" "no_markup (js ''no address'')"
    by (simp_all add: no_markup_def js_def)
  show ?thesis
    using wallet_reports_failed_resolution [of "(initial_wallet True [])\<lparr>resolving := [(js ''@alice'', js ''5'')]\<rparr>"
        "js ''@alice''" "js ''5''" "[]" "js ''offline''" "\<lambda>_ _. js ''no address''" "\<lambda>_. []"] plain
    by (simp add: Let_def)
qed


text \<open>
  A reply whose result has no address is taken for a resolution: the page shows the address
  \<^verbatim>\<open>undefined\<close> with a confirm button, and confirming asks to pay to \<^verbatim>\<open>null\<close>.
\<close>

theorem wallet_missing_address:
  assumes "no_markup h" and "no_markup a"
  shows "\<exists>r. resolve_outcome te N h a (Body (JObj [(js ''result'', JObj [])])) =
               Inr (resolved_html h (js ''undefined'') a, Some r) \<and>
             hd (rpc_params (send_request r)) = JNull"
proof -
  have "no_markup (js ''undefined'')" by (simp add: no_markup_def js_def)
  with assms show ?thesis
    by (simp add: resolve_outcome_def address_outcome_def get_own get_missing show_texts_def rbind_def send_request_def)
qed

theorem wallet_missing_address_witness:
  "\<exists>r. resolve_outcome (\<lambda>_ _. []) (\<lambda>_. []) [64] [53] (Body (JObj [(js ''result'', JObj [])])) =
         Inr (resolved_html [64] (js ''undefined'') [53], Some r) \<and> hd (rpc_params (send_request r)) = JNull"
  using wallet_missing_address [of "[64]" "[53]" "\<lambda>_ _. []" "\<lambda>_. []"] by (simp add: no_markup_def)

text \<open>
  An amount written as a whole number up to two to the power of 53 is sent as that number.
\<close>

theorem wallet_amount_exact:
  assumes "n \<le> 2 ^ 53"
  shows "rpc_params (send_request \<lparr>res_handle = h, res_amount = decimal n, res_address = JStr a\<rparr>) =
           [JStr a, JNum (Finite (of_nat n))]"
  using parseFloat_decimal [OF assms] by (simp add: send_request_def)

theorem wallet_amount_exact_witness:
  "rpc_params (send_request \<lparr>res_handle = [64], res_amount = decimal 5, res_address = JStr [75]\<rparr>) =
     [JStr [75], JNum (Finite 5)]"
  using wallet_amount_exact [of 5 "[64]" "[75]"] by simp

end
