(* ===== verification/Ether_Payment.thy ===== *)
theory Ether_Payment
  imports JS_Core
begin

text \<open>
  Payment by handle on the ledger with contracts: \<^verbatim>\<open>sendCoinByName\<close> of \<^verbatim>\<open>src/vendors/ether.js\<close>, and the
  read side of \<^verbatim>\<open>src/KubuNameRegistry.sol\<close> it queries. The wallet library is an argument, a record of the
  calls the function makes; a call gives the message of its error or its result. What the function
  does is the list of its actions. The contract's \<^verbatim>\<open>registerName\<close> assigns a string to a mapping of
  addresses (line 16) and so has no meaning to model.
\<close>

subsection \<open>The registry contract\<close>

type_synonym address = "160 word"

definition nameToLower :: "byte list \<Rightarrow> byte list" where
  "nameToLower bStr = map (\<lambda>b. if 65 \<le> b \<and> b \<le> 90 then b + 32 else b) bStr"

record KubuNameRegistry =
  nameToAddress :: "byte list \<Rightarrow> address"
  addressToName :: "address \<Rightarrow> byte list"

text \<open>\<^verbatim>\<open>require\<close> reverts the call with its message.\<close>

definition resolveName :: "KubuNameRegistry \<Rightarrow> byte list \<Rightarrow> string + address" where
  "resolveName s n =
     rbind (require (nameToAddress s n \<noteq> 0) ''Name not found'') (\<lambda>_. Inr (nameToAddress s n))"

definition resolveAddress :: "KubuNameRegistry \<Rightarrow> address \<Rightarrow> byte list" where
  "resolveAddress s a = addressToName s a"

subsection \<open>The payment\<close>

text \<open>
  \<^verbatim>\<open>toLowerCase\<close>: the ASCII letters, or the Unicode mapping \<open>lower\<close> where there is any other code unit.
\<close>

definition ascii_lower_unit :: "16 word \<Rightarrow> 16 word" where
  "ascii_lower_unit u = (if 65 \<le> u \<and> u \<le> 90 then u + 32 else u)"

definition toLowerCase :: "(jsstring \<Rightarrow> jsstring) \<Rightarrow> jsstring \<Rightarrow> jsstring" where
  "toLowerCase lower s = (if list_all (\<lambda>u. u < 128) s then map ascii_lower_unit s else lower s)"

record Ethers =
  unicodeLower :: "jsstring \<Rightarrow> jsstring"
  callResolveName :: "jsstring \<Rightarrow> jsstring + jsstring"
  parseEther :: "jsstring \<Rightarrow> jsstring + nat"
  sendTransaction :: "jsstring \<Rightarrow> nat \<Rightarrow> jsstring + jsstring"
  waitFor :: "jsstring \<Rightarrow> jsstring option"
  noTrim :: "JsValue \<Rightarrow> jsstring"
  noToString :: "JsValue \<Rightarrow> jsstring"

datatype Action =
  ResolveCall jsstring | ConsoleLog jsstring | SendCall jsstring nat | WaitCall jsstring
| ConsoleError jsstring jsstring

definition clean_handle :: "Ethers \<Rightarrow> jsstring \<Rightarrow> jsstring" where
  "clean_handle e usernameInput =
     toLowerCase (unicodeLower e) (strip_at_sign (js_trim usernameInput))"

definition amount_string :: "Ethers \<Rightarrow> (Number \<Rightarrow> jsstring) \<Rightarrow> JsValue \<Rightarrow> js_error + (jsstring + jsstring)" where
  "amount_string e N amount =
     (if amount = JUndefined \<or> amount = JNull then Inr (Inl (noToString e amount))
      else rbind (to_str N amount) (\<lambda>s. Inr (Inr s)))"

definition confirm_transfer :: "Ethers \<Rightarrow> jsstring \<Rightarrow> Action list \<times> jsstring option" where
  "confirm_transfer e h =
     (case waitFor e h of
        Some msg \<Rightarrow> ([ConsoleLog (js ''Transaction sent! Hash: '' @ h), WaitCall h], Some msg)
      | None \<Rightarrow> ([ConsoleLog (js ''Transaction sent! Hash: '' @ h), WaitCall h,
                 ConsoleLog (js ''Transaction confirmed!'')], None))"

text \<open>The call of \<^verbatim>\<open>sendTransaction\<close>, after its argument has been evaluated, and what follows.\<close>

definition send_coins :: "Ethers \<Rightarrow> jsstring \<Rightarrow> jsstring + jsstring \<Rightarrow> Action list \<times> jsstring option" where
  "send_coins e recipient amount =
     (case amount of
        Inl msg \<Rightarrow> ([], Some msg)
      | Inr s \<Rightarrow>
          (case parseEther e s of
             Inl msg \<Rightarrow> ([], Some msg)
           | Inr v \<Rightarrow>
               (case sendTransaction e recipient v of
                  Inl msg \<Rightarrow> ([SendCall recipient v], Some msg)
                | Inr h \<Rightarrow> (case confirm_transfer e h of (as, err) \<Rightarrow> (SendCall recipient v # as, err)))))"

text \<open>The body of the \<^verbatim>\<open>try\<close> block: the actions and the message of the error that ended it, if any.\<close>

definition payment ::
  "Ethers \<Rightarrow> (Number \<Rightarrow> jsstring) \<Rightarrow> JsValue \<Rightarrow> JsValue \<Rightarrow> js_error + Action list \<times> jsstring option" where
  "payment e N usernameInput amountInCoins =
     (case usernameInput of
        JStr u \<Rightarrow>
          (let cleanHandle = clean_handle e u in
           case callResolveName e cleanHandle of
             Inl msg \<Rightarrow> Inr ([ResolveCall cleanHandle], Some msg)
           | Inr recipient \<Rightarrow>
               rbind (amount_string e N amountInCoins) (\<lambda>amount.
                 case send_coins e recipient amount of (as, err) \<Rightarrow>
                   Inr (ResolveCall cleanHandle #
                        ConsoleLog (js ''Resolved @'' @ cleanHandle @ js '' to address: '' @ recipient) # as, err)))
      | JObj kvs \<Rightarrow> Inl Outside
      | _ \<Rightarrow> Inr ([], Some (noTrim e usernameInput)))"

definition sendCoinByName ::
  "Ethers \<Rightarrow> (Number \<Rightarrow> jsstring) \<Rightarrow> JsValue \<Rightarrow> JsValue \<Rightarrow> js_error + Action list" where
  "sendCoinByName e N usernameInput amountInCoins =
     rbind (payment e N usernameInput amountInCoins) (\<lambda>(as, err).
       Inr (case err of None \<Rightarrow> as | Some msg \<Rightarrow> as @ [ConsoleError (js ''Payment failed:'') msg]))"

subsection \<open>Lemmas\<close>

definition sendCalls :: "Action list \<Rightarrow> (jsstring \<times> nat) list" where
  "sendCalls as = concat (map (\<lambda>a. case a of SendCall t v \<Rightarrow> [(t, v)] | _ \<Rightarrow> []) as)"

lemma sendCalls_simps [simp]:
  "sendCalls [] = []" "sendCalls (SendCall t v # as) = (t, v) # sendCalls as"
  "sendCalls (ResolveCall h # as) = sendCalls as" "sendCalls (ConsoleLog m # as) = sendCalls as"
  "sendCalls (WaitCall m # as) = sendCalls as" "sendCalls (ConsoleError l m # as) = sendCalls as"
  "sendCalls (as @ bs) = sendCalls as @ sendCalls bs"
  by (simp_all add: sendCalls_def)

lemma confirm_calls: "confirm_transfer e h = (as, err) \<Longrightarrow> sendCalls as = []"
  by (auto simp: confirm_transfer_def split: option.splits)

lemma send_coins_calls:
  "send_coins e t amount = (as, err) \<Longrightarrow>
   sendCalls as = (case amount of Inl _ \<Rightarrow> [] | Inr s \<Rightarrow> (case parseEther e s of Inl _ \<Rightarrow> [] | Inr v \<Rightarrow> [(t, v)]))"
  by (auto simp: send_coins_def confirm_calls split: sum.splits prod.splits)

text \<open>A run that calls \<^verbatim>\<open>sendTransaction\<close> has resolved the handle and read the amount.\<close>

lemma payment_calls:
  assumes "payment e N username amount = Inr (as, err)" "sendCalls as \<noteq> []"
  obtains u t s v where "username = JStr u" "callResolveName e (clean_handle e u) = Inr t"
    "amount_string e N amount = Inr (Inr s)" "parseEther e s = Inr v" "sendCalls as = [(t, v)]"
proof -
  obtain u where u: "username = JStr u" using assms by (cases username) (auto simp: payment_def)
  obtain t where t: "callResolveName e (clean_handle e u) = Inr t"
    using assms u by (cases "callResolveName e (clean_handle e u)") (auto simp: payment_def Let_def)
  obtain am where am: "amount_string e N amount = Inr am"
    using assms(1) u t by (cases "amount_string e N amount") (auto simp: payment_def Let_def rbind_def)
  obtain bs err' where bs: "send_coins e t am = (bs, err')" by (cases "send_coins e t am")
  then have same: "sendCalls as = sendCalls bs"
    using assms(1) u t am by (auto simp: payment_def Let_def rbind_def)
  from send_coins_calls [OF bs] assms(2) same obtain s v where
    "am = Inr s" "parseEther e s = Inr v" "sendCalls bs = [(t, v)]" by (auto split: sum.splits)
  with u t am same show thesis using that by simp
qed

lemma sendCoin_payment:
  assumes "sendCoinByName e N username amount = Inr as"
  obtains bs err where "payment e N username amount = Inr (bs, err)"
    "as = (case err of None \<Rightarrow> bs | Some msg \<Rightarrow> bs @ [ConsoleError (js ''Payment failed:'') msg])"
    "sendCalls as = sendCalls bs"
  using assms unfolding sendCoinByName_def rbind_Inr_iff by (auto split: option.splits)

lemma trim_wrapped:
  assumes "list_all js_space a" "list_all js_space b" "h \<noteq> []" "\<not> js_space (hd h)" "\<not> js_space (last h)"
  shows "js_trim (a @ h @ b) = h"
proof -
  have "dropWhile js_space (a @ h @ b) = h @ b"
    using assms by (cases h) (auto simp: dropWhile_append list_all_iff)
  moreover have "rdropWhile js_space (h @ b) = h"
    using assms by (simp add: rdropWhile_def dropWhile_append list_all_iff) (cases h rule: rev_cases; simp)
  ultimately show ?thesis by (simp add: js_trim_def)
qed

lemma upper_shift:
  fixes u :: "16 word"
  assumes "65 \<le> u" "u \<le> 90"
  shows "97 \<le> u + 32" "u + 32 \<le> 122"
proof -
  have "65 \<le> unat u" "unat u \<le> 90" using assms by (simp_all add: word_le_nat_alt)
  then have "unat (u + 32) = unat u + 32" by (simp add: unat_word_ariths)
  with assms show "97 \<le> u + 32" "u + 32 \<le> 122" by (simp_all add: word_le_nat_alt)
qed

lemma lower_unit:
  "u < 128 \<Longrightarrow> ascii_lower_unit u < 128" "ascii_lower_unit (ascii_lower_unit u) = ascii_lower_unit u"
proof -
  have "ascii_lower_unit u = u \<or> 97 \<le> ascii_lower_unit u \<and> ascii_lower_unit u \<le> 122"
    using upper_shift [of u] by (simp add: ascii_lower_unit_def)
  moreover have "97 \<le> v \<and> v \<le> 122 \<Longrightarrow> ascii_lower_unit v = v \<and> v < 128" for v
    by (simp add: ascii_lower_unit_def word_le_nat_alt word_less_nat_alt)
  ultimately show "u < 128 \<Longrightarrow> ascii_lower_unit u < 128"
    "ascii_lower_unit (ascii_lower_unit u) = ascii_lower_unit u" by auto
qed

lemma letter_not_special:
  fixes v :: "16 word"
  assumes "65 \<le> v" "v \<le> 122" "v \<le> 90 \<or> 97 \<le> v"
  shows "\<not> js_space v" "v \<noteq> 64"
proof -
  have "65 \<le> unat v" "unat v \<le> 122" using assms by (simp_all add: word_le_nat_alt)
  then show "\<not> js_space v" "v \<noteq> 64" by (auto simp: js_space_def)
qed

lemma lower_special:
  "js_space (ascii_lower_unit u) = js_space u" "ascii_lower_unit u = 64 \<longleftrightarrow> u = 64"
proof -
  have "\<not> js_space u \<and> \<not> js_space (u + 32) \<and> u \<noteq> 64 \<and> u + 32 \<noteq> 64" if "65 \<le> u" "u \<le> 90"
  proof -
    have "u \<le> 122" "65 \<le> u + 32" using that upper_shift [OF that] by (simp_all add: word_le_nat_alt)
    then show ?thesis using letter_not_special [of u] letter_not_special [of "u + 32"] that upper_shift [OF that]
      by blast
  qed
  then show "js_space (ascii_lower_unit u) = js_space u" "ascii_lower_unit u = 64 \<longleftrightarrow> u = 64"
    by (simp_all add: ascii_lower_unit_def)
qed

lemma clean_wrapped:
  assumes "list_all js_space a" "list_all js_space b" "h \<noteq> []" "\<not> js_space (hd h)" "\<not> js_space (last h)"
    "hd h \<noteq> 64" "list_all (\<lambda>u. u < 128) h"
  shows "clean_handle e (a @ [64] @ h @ b) = map ascii_lower_unit h"
    and "clean_handle e (map ascii_lower_unit h) = map ascii_lower_unit h"
proof -
  have "js_trim (a @ (64 # h) @ b) = 64 # h" using assms by (intro trim_wrapped) (auto simp: js_space_def)
  then show "clean_handle e (a @ [64] @ h @ b) = map ascii_lower_unit h"
    using assms(7) by (simp add: clean_handle_def strip_at_sign_def startsWith_def js_def toLowerCase_def)
next
  let ?l = "map ascii_lower_unit h"
  have "js_trim ([] @ ?l @ []) = ?l"
    using assms by (intro trim_wrapped) (simp_all add: lower_special hd_map last_map)
  moreover have "\<not> startsWith ?l (js ''@'')"
    using assms(3,6) lower_special(2) by (cases h) (auto simp: startsWith_def js_def)
  moreover have "list_all (\<lambda>u. u < 128) ?l" "map ascii_lower_unit ?l = ?l"
    using assms(7) by (simp_all add: list_all_iff lower_unit)
  ultimately show "clean_handle e ?l = ?l" by (simp add: clean_handle_def strip_at_sign_def toLowerCase_def)
qed

lemma sendCoin_clean:
  "clean_handle e u = clean_handle e v \<Longrightarrow> sendCoinByName e N (JStr u) amount = sendCoinByName e N (JStr v) amount"
  by (simp add: sendCoinByName_def payment_def)

definition registry_call ::
  "KubuNameRegistry \<Rightarrow> (jsstring \<Rightarrow> byte list) \<Rightarrow> (address \<Rightarrow> jsstring) \<Rightarrow> jsstring \<Rightarrow> jsstring + jsstring" where
  "registry_call s utf8 hex h = (case resolveName s (utf8 h) of Inl m \<Rightarrow> Inl (js m) | Inr a \<Rightarrow> Inr (hex a))"

definition example_ethers :: Ethers where
  "example_ethers =
     \<lparr>unicodeLower = id,
      callResolveName = registry_call \<lparr>nameToAddress = (\<lambda>_. 5), addressToName = (\<lambda>_. [])\<rparr> (\<lambda>_. []) (\<lambda>a. [ucast a]),
      parseEther = (\<lambda>_. Inr 7), sendTransaction = (\<lambda>_ _. Inr [1]), waitFor = (\<lambda>_. None),
      noTrim = (\<lambda>_. []), noToString = (\<lambda>_. [])\<rparr>"

subsection \<open>Properties\<close>

text \<open>
  C34. A run calls \<^verbatim>\<open>sendTransaction\<close> at most once, and then with the address that the registry gave for
  the cleaned handle and the value of the amount.
\<close>

theorem sendCoin_at_most_once:
  assumes "sendCoinByName e N username amount = Inr as"
  shows "sendCalls as = [] \<or>
    (\<exists>u t s v. username = JStr u \<and> callResolveName e (clean_handle e u) = Inr t \<and>
       amount_string e N amount = Inr (Inr s) \<and> parseEther e s = Inr v \<and> sendCalls as = [(t, v)])"
  using assms by (metis sendCoin_payment payment_calls)

theorem sendCoin_at_most_once_witness:
  "\<exists>as. sendCoinByName example_ethers (\<lambda>_. []) (JStr [97]) (JStr [49]) = Inr as \<and>
     (sendCalls as = [] \<or> (\<exists>t v. sendCalls as = [(t, v)]))"
proof -
  obtain as where "sendCoinByName example_ethers (\<lambda>_. []) (JStr [97]) (JStr [49]) = Inr as"
    by (auto simp: sendCoinByName_def payment_def example_ethers_def registry_call_def resolveName_def
        amount_string_def rbind_def require_def send_coins_def confirm_transfer_def Let_def)
  then show ?thesis using sendCoin_at_most_once [of example_ethers "\<lambda>_. []" "JStr [97]" "JStr [49]" as] by blast
qed

text \<open>
  Spaces around a handle, an at sign before it and the case of its letters make no difference to
  the payment.
\<close>

theorem sendCoin_handle_spelling:
  assumes "list_all js_space a" "list_all js_space b" "h \<noteq> []" "\<not> js_space (hd h)" "\<not> js_space (last h)"
    "hd h \<noteq> 64" "list_all (\<lambda>u. u < 128) h"
  shows "sendCoinByName e N (JStr (a @ [64] @ h @ b)) amount =
         sendCoinByName e N (JStr (map ascii_lower_unit h)) amount"
  using clean_wrapped [OF assms, of e] by (intro sendCoin_clean) simp

theorem sendCoin_handle_spelling_witness:
  "sendCoinByName example_ethers (\<lambda>_. []) (JStr [32, 64, 65]) JNull =
   sendCoinByName example_ethers (\<lambda>_. []) (JStr [97]) JNull"
  using sendCoin_handle_spelling [of "[32]" "[]" "[65]" example_ethers "\<lambda>_. []" JNull]
  by (simp add: js_space_def ascii_lower_unit_def)

text \<open>
  For a handle and an amount that are strings no exception leaves the function: its
  last action reports either the confirmation, exactly when every call succeeded, or the failure.
\<close>

theorem sendCoin_reports:
  "\<exists>as. sendCoinByName e N (JStr u) (JStr s) = Inr as \<and> as \<noteq> [] \<and>
     (if \<exists>t v h. callResolveName e (clean_handle e u) = Inr t \<and> parseEther e s = Inr v \<and>
           sendTransaction e t v = Inr h \<and> waitFor e h = None
      then last as = ConsoleLog (js ''Transaction confirmed!'')
      else \<exists>msg. last as = ConsoleError (js ''Payment failed:'') msg)"
proof (cases "callResolveName e (clean_handle e u)")
  case (Inl msg)
  then show ?thesis by (simp add: sendCoinByName_def payment_def rbind_def Let_def)
next
  case t: (Inr t)
  show ?thesis
  proof (cases "parseEther e s")
    case (Inl msg)
    with t show ?thesis
      by (simp add: sendCoinByName_def payment_def rbind_def Let_def amount_string_def send_coins_def)
  next
    case v: (Inr v)
    show ?thesis
      by (cases "sendTransaction e t v"; cases "waitFor e (projr (sendTransaction e t v))")
        (use t v in \<open>simp_all add: sendCoinByName_def payment_def rbind_def Let_def amount_string_def
           send_coins_def confirm_transfer_def\<close>)
  qed
qed

text \<open>
  C35. With the registry contract behind the call, no payment goes to the zero address: the contract
  reverts for a name that is not registered, and the function then sends nothing.
\<close>

theorem sendCoin_never_burns:
  assumes "callResolveName e = registry_call s utf8 hex" and "inj hex"
    and "sendCoinByName e N username amount = Inr as"
  shows "hex 0 \<notin> fst ` set (sendCalls as)"
proof (cases "sendCalls as = []")
  case False
  obtain bs err where "payment e N username amount = Inr (bs, err)" "sendCalls as = sendCalls bs"
    using assms(3) by (rule sendCoin_payment)
  with False obtain u t v where "registry_call s utf8 hex (clean_handle e u) = Inr t" "sendCalls as = [(t, v)]"
    using assms(1) by (metis payment_calls)
  then show ?thesis using assms(2)
    by (auto simp: registry_call_def resolveName_def rbind_def require_def inj_eq split: if_splits)
qed simp

theorem sendCoin_never_burns_witness:
  "\<exists>as. sendCoinByName (example_ethers\<lparr>callResolveName := registry_call \<lparr>nameToAddress = (\<lambda>_. 5), addressToName = (\<lambda>_. [])\<rparr>
       (\<lambda>_. []) (\<lambda>a. replicate (unat a) 48)\<rparr>) (\<lambda>_. []) (JStr [97]) (JStr [49]) = Inr as \<and>
     [] \<notin> fst ` set (sendCalls as)"
proof -
  let ?s = "\<lparr>nameToAddress = (\<lambda>_. 5), addressToName = (\<lambda>_. [])\<rparr> :: KubuNameRegistry"
  let ?hex = "\<lambda>a :: address. replicate (unat a) 48 :: jsstring"
  let ?e = "example_ethers\<lparr>callResolveName := registry_call ?s (\<lambda>_. []) ?hex\<rparr>"
  have inj: "inj ?hex" by (rule injI) (metis length_replicate word_unat_eq_iff)
  obtain as where as: "sendCoinByName ?e (\<lambda>_. []) (JStr [97]) (JStr [49]) = Inr as"
    by (auto simp: sendCoinByName_def payment_def example_ethers_def registry_call_def resolveName_def
        amount_string_def rbind_def require_def send_coins_def confirm_transfer_def Let_def)
  have "?hex 0 \<notin> fst ` set (sendCalls as)"
    by (rule sendCoin_never_burns [OF _ inj as]) simp
  with as show ?thesis by auto
qed

end
