(* ===== verification/Alias_State.thy ===== *)
theory Alias_State
  imports Kubu_Prelude
begin

text \<open>
  The alias ledger written in Go: the registry of \<^verbatim>\<open>src/state/alias.go\<close>, the transaction processor of
  \<^verbatim>\<open>src/kubu-tx/core/tx_processor.go\<close> and the resolve endpoint of \<^verbatim>\<open>src/rpc/api.go\<close>. The repository has no
  account state: its \<^verbatim>\<open>Transfer\<close> and \<^verbatim>\<open>CurrentBlock\<close> are arguments. The registry's lock makes each
  operation one step. Strings are lists of bytes, as in Go.
\<close>

subsection \<open>The registry\<close>

record AliasRecord =
  Handle :: "byte list"
  Owner :: "byte list"
  BlockNum :: "64 word"

type_synonym AliasState = "byte list \<rightharpoonup> AliasRecord"

definition NewAliasState :: AliasState where
  "NewAliasState = Map.empty"

definition TrimPrefix :: "byte list \<Rightarrow> byte list \<Rightarrow> byte list" where
  "TrimPrefix s p = (if take (length p) s = p then drop (length p) s else s)"

text \<open>
  \<^verbatim>\<open>strings.ToLower\<close> maps the ASCII letters of a string of ASCII bytes; \<open>U\<close> is its Unicode mapping, for
  all other strings.
\<close>

definition ascii_lower_byte :: "byte \<Rightarrow> byte" where
  "ascii_lower_byte b = (if 65 \<le> b \<and> b \<le> 90 then b + 32 else b)"

definition ToLower :: "(byte list \<Rightarrow> byte list) \<Rightarrow> byte list \<Rightarrow> byte list" where
  "ToLower U s = (if list_all (\<lambda>b. b < 128) s then map ascii_lower_byte s else U s)"

definition normalized :: "(byte list \<Rightarrow> byte list) \<Rightarrow> byte list \<Rightarrow> byte list" where
  "normalized U handle = ToLower U (TrimPrefix handle [64])"

definition RegisterAlias ::
  "(byte list \<Rightarrow> byte list) \<Rightarrow> AliasState \<Rightarrow> byte list \<Rightarrow> byte list \<Rightarrow> 64 word \<Rightarrow> string + AliasState" where
  "RegisterAlias U s handle ownerAddress currentBlock =
     (let n = normalized U handle in
      if length n < 3 \<or> length n > 20 then Inl ''handle must be between 3 and 20 characters''
      else if s n \<noteq> None then Inl ''alias already registered''
      else Inr (s(n \<mapsto> \<lparr>Handle = n, Owner = ownerAddress, BlockNum = currentBlock\<rparr>)))"

definition ResolveAlias :: "(byte list \<Rightarrow> byte list) \<Rightarrow> AliasState \<Rightarrow> byte list \<Rightarrow> string + byte list" where
  "ResolveAlias U s handle =
     (case s (normalized U handle) of
        None \<Rightarrow> Inl ''alias not found''
      | Some record \<Rightarrow> Inr (Owner record))"

subsection \<open>The interface of a registry of names\<close>

text \<open>
  What a client of a registry relies on: a registration that succeeds binds its name and no other,
  and it succeeds only for a name that was free.
\<close>

locale name_registry =
  fixes register :: "'s \<Rightarrow> 'h \<Rightarrow> 'o \<Rightarrow> 'b \<Rightarrow> 'e + 's"
    and resolve :: "'s \<Rightarrow> 'h \<Rightarrow> 'e + 'o"
    and same :: "'h \<Rightarrow> 'h \<Rightarrow> bool"
  assumes resolve_same: "same h k \<Longrightarrow> resolve s h = resolve s k"
    and resolve_registered: "register s h w b = Inr s' \<Longrightarrow> resolve s' h = Inr w"
    and resolve_other: "register s h w b = Inr s' \<Longrightarrow> \<not> same h k \<Longrightarrow> resolve s' k = resolve s k"
    and register_free: "register s h w b = Inr s' \<Longrightarrow> \<exists>e. resolve s h = Inl e"
begin

text \<open>A registration that fails leaves the state.\<close>

definition attempt :: "'h \<times> 'o \<times> 'b \<Rightarrow> 's \<Rightarrow> 's" where
  "attempt r s = (case r of (h, w, b) \<Rightarrow> case register s h w b of Inl _ \<Rightarrow> s | Inr s' \<Rightarrow> s')"

lemma attempt_keeps:
  assumes "resolve s k = Inr w"
  shows "resolve (attempt r s) k = Inr w"
proof (cases r)
  case (fields h w' b)
  show ?thesis
  proof (cases "register s h w' b")
    case (Inr s')
    have "\<not> same h k" using register_free [OF Inr] resolve_same [of h k s] assms by auto
    then show ?thesis using resolve_other [OF Inr] assms fields Inr by (simp add: attempt_def)
  qed (use assms fields in \<open>simp add: attempt_def\<close>)
qed

lemma attempts_keep: "resolve s k = Inr w \<Longrightarrow> resolve (fold attempt rs s) k = Inr w"
  by (induction rs arbitrary: s) (auto intro: attempt_keeps)

end

interpretation names: name_registry "RegisterAlias U" "ResolveAlias U" "\<lambda>h k. normalized U h = normalized U k" for U
  by unfold_locales (auto simp: RegisterAlias_def ResolveAlias_def Let_def split: if_splits)

subsection \<open>The transaction processor\<close>

definition TxTypeStandardTransfer :: "8 word" where "TxTypeStandardTransfer = 1"
definition TxTypeAliasTransfer :: "8 word" where "TxTypeAliasTransfer = 2"
definition TxTypeRegisterAlias :: "8 word" where "TxTypeRegisterAlias = 3"

record Transaction =
  Type :: "8 word"
  Sender :: "byte list"
  Recipient :: "byte list"
  Amount :: "64 word"
  Fee :: "64 word"
  Signature :: "byte list"

text \<open>The account state is shared: \<^verbatim>\<open>Transfer\<close> gives its new value and, if it fails, its error.\<close>

record 'a Accounts =
  Transfer :: "'a \<Rightarrow> byte list \<Rightarrow> byte list \<Rightarrow> 64 word \<Rightarrow> 'a \<times> string option"
  CurrentBlock :: "'a \<Rightarrow> 64 word"

definition ProcessTransaction ::
  "'a Accounts \<Rightarrow> (byte list \<Rightarrow> byte list) \<Rightarrow> Transaction \<Rightarrow> 'a \<times> AliasState \<Rightarrow> ('a \<times> AliasState) \<times> string option" where
  "ProcessTransaction acc U tx p =
     (case p of (a, s) \<Rightarrow>
        if Type tx = TxTypeStandardTransfer then
          (case Transfer acc a (Sender tx) (Recipient tx) (Amount tx + Fee tx) of (a', err) \<Rightarrow> ((a', s), err))
        else if Type tx = TxTypeRegisterAlias then
          (case RegisterAlias U s (Recipient tx) (Sender tx) (CurrentBlock acc a) of
             Inl err \<Rightarrow> ((a, s), Some err)
           | Inr s' \<Rightarrow> ((a, s'), None))
        else if Type tx = TxTypeAliasTransfer then
          (case ResolveAlias U s (Recipient tx) of
             Inl err \<Rightarrow> ((a, s), Some (''alias resolution failed: '' @ err))
           | Inr resolvedAddress \<Rightarrow>
               (case Transfer acc a (Sender tx) resolvedAddress (Amount tx + Fee tx) of
                  (a', None) \<Rightarrow> ((a', s), None)
                | (a', Some err) \<Rightarrow> ((a', s), Some (''insufficient balance or state error: '' @ err))))
        else ((a, s), Some ''unsupported transaction type''))"

lemmas tx_types = TxTypeStandardTransfer_def TxTypeAliasTransfer_def TxTypeRegisterAlias_def

definition run :: "'a Accounts \<Rightarrow> (byte list \<Rightarrow> byte list) \<Rightarrow> Transaction list \<Rightarrow> 'a \<times> AliasState \<Rightarrow> 'a \<times> AliasState" where
  "run acc U txs p = fold (\<lambda>tx p. fst (ProcessTransaction acc U tx p)) txs p"

subsection \<open>The resolve endpoint\<close>

datatype HttpReply = HttpError nat string | JsonReply "(string \<times> byte list) list"

definition HandleResolveAlias :: "(byte list \<Rightarrow> byte list) \<Rightarrow> AliasState \<Rightarrow> byte list \<Rightarrow> HttpReply" where
  "HandleResolveAlias U s handle =
     (if handle = [] then HttpError 400 ''missing handle parameter''
      else case ResolveAlias U s handle of
        Inl err \<Rightarrow> HttpError 404 err
      | Inr address \<Rightarrow> JsonReply [(''handle'', handle), (''address'', address)])"

subsection \<open>Lemmas\<close>

definition alias_inv :: "AliasState \<Rightarrow> bool" where
  "alias_inv s \<longleftrightarrow> (\<forall>n r. s n = Some r \<longrightarrow> Handle r = n \<and> 3 \<le> length n \<and> length n \<le> 20)"

lemma process_aliases:
  "\<exists>rs. snd (fst (ProcessTransaction acc U tx (a, s))) = fold (names.attempt U) rs s"
proof (cases "Type tx = TxTypeRegisterAlias")
  case True
  have "snd (fst (ProcessTransaction acc U tx (a, s))) =
    fold (names.attempt U) [(Recipient tx, Sender tx, CurrentBlock acc a)] s"
    using True by (simp add: ProcessTransaction_def tx_types names.attempt_def split: sum.splits)
  then show ?thesis by blast
next
  case False
  then have "snd (fst (ProcessTransaction acc U tx (a, s))) = fold (names.attempt U) [] s"
    by (simp add: ProcessTransaction_def split: sum.splits prod.splits option.splits)
  then show ?thesis by blast
qed

lemma process_keeps: "ResolveAlias U (snd p) k = Inr w \<Longrightarrow> ResolveAlias U (snd (fst (ProcessTransaction acc U tx p))) k = Inr w"
  using process_aliases [of acc U tx "fst p" "snd p"] names.attempts_keep by (metis prod.collapse)

lemma run_keeps: "ResolveAlias U (snd p) k = Inr w \<Longrightarrow> ResolveAlias U (snd (run acc U txs p)) k = Inr w"
proof (induction txs arbitrary: p)
  case (Cons tx txs)
  show ?case using Cons.IH [OF process_keeps [OF Cons.prems]] by (simp add: run_def)
qed (simp add: run_def)

lemma register_inv: "alias_inv s \<Longrightarrow> RegisterAlias U s h w b = Inr s' \<Longrightarrow> alias_inv s'"
  by (auto simp: alias_inv_def RegisterAlias_def Let_def split: if_splits)

lemma process_inv: "alias_inv (snd p) \<Longrightarrow> alias_inv (snd (fst (ProcessTransaction acc U tx p)))"
  by (cases p) (auto simp: ProcessTransaction_def register_inv split: sum.splits prod.splits option.splits)

lemma run_inv: "alias_inv (snd p) \<Longrightarrow> alias_inv (snd (run acc U txs p))"
proof (induction txs arbitrary: p)
  case (Cons tx txs)
  show ?case using Cons.IH [OF process_inv [OF Cons.prems]] by (simp add: run_def)
qed (simp add: run_def)

definition example_accounts :: "64 word Accounts" where
  "example_accounts = \<lparr>Transfer = (\<lambda>a from to v. (a + v, None)), CurrentBlock = (\<lambda>a. a)\<rparr>"

definition example_registration :: Transaction where
  "example_registration =
     \<lparr>Type = 3, Sender = [48], Recipient = [64, 65, 98, 99], Amount = 0, Fee = 0, Signature = []\<rparr>"

definition example_transfer :: Transaction where
  "example_transfer = \<lparr>Type = 2, Sender = [49], Recipient = [97, 98, 99], Amount = 5, Fee = 1, Signature = []\<rparr>"

subsection \<open>Properties\<close>

text \<open>
  C23. Once a registration has been processed without an error, an alias transfer to any spelling of
  the handle, after any further transactions, moves the amount and the fee to the one who registered
  it: no later transaction takes a handle over.
\<close>

theorem alias_transfer_pays_registrant:
  assumes "Type reg = TxTypeRegisterAlias" "ProcessTransaction acc U reg p = (p', None)"
    and "run acc U txs p' = (a, s)"
    and "Type tx = TxTypeAliasTransfer" "normalized U (Recipient tx) = normalized U (Recipient reg)"
  shows "fst (ProcessTransaction acc U tx (a, s)) =
    (fst (Transfer acc a (Sender tx) (Sender reg) (Amount tx + Fee tx)), s)"
proof -
  obtain b where "RegisterAlias U (snd p) (Recipient reg) (Sender reg) b = Inr (snd p')"
    using assms(1,2) by (auto simp: ProcessTransaction_def tx_types split: prod.splits sum.splits)
  then have "ResolveAlias U (snd p') (Recipient reg) = Inr (Sender reg)"
    by (rule names.resolve_registered)
  then have "ResolveAlias U (snd p') (Recipient tx) = Inr (Sender reg)"
    using names.resolve_same [OF assms(5)] by simp
  then have "ResolveAlias U s (Recipient tx) = Inr (Sender reg)"
    using run_keeps [of U p' "Recipient tx" "Sender reg" acc txs] assms(3) by simp
  then show ?thesis using assms(4)
    by (simp add: ProcessTransaction_def tx_types split: prod.splits option.splits)
qed

theorem alias_transfer_pays_registrant_witness:
  "\<exists>p'. ProcessTransaction example_accounts id example_registration (7, NewAliasState) = (p', None) \<and>
     fst (ProcessTransaction example_accounts id example_transfer p') = (13, snd p')"
proof -
  obtain p' where p': "ProcessTransaction example_accounts id example_registration (7, NewAliasState) = (p', None)"
      "fst p' = 7"
    by (simp add: ProcessTransaction_def example_registration_def tx_types RegisterAlias_def normalized_def
        ToLower_def TrimPrefix_def NewAliasState_def Let_def)
  have "fst (ProcessTransaction example_accounts id example_transfer p') =
    (fst (Transfer example_accounts (fst p') (Sender example_transfer) (Sender example_registration)
       (Amount example_transfer + Fee example_transfer)), snd p')"
    by (subst prod.collapse [of p', symmetric], rule alias_transfer_pays_registrant [OF _ p'(1), of "[]"])
      (simp_all add: run_def tx_types example_registration_def example_transfer_def normalized_def ToLower_def
        TrimPrefix_def ascii_lower_byte_def)
  then have "fst (ProcessTransaction example_accounts id example_transfer p') = (13, snd p')"
    using p'(2) by (simp add: example_accounts_def example_transfer_def)
  then show ?thesis using p'(1) by blast
qed



text \<open>
  The sum of amount and fee wraps around: a transfer whose sum passes the largest 64 bit number
  asks the account state to move only what is left over.
\<close>

theorem amount_and_fee_wrap:
  "2 ^ 64 \<le> unat (Amount tx) + unat (Fee tx) \<Longrightarrow> Type tx = TxTypeStandardTransfer \<Longrightarrow>
   fst (fst (ProcessTransaction acc U tx (a, s))) =
     fst (Transfer acc a (Sender tx) (Recipient tx) (word_of_nat (unat (Amount tx) + unat (Fee tx) - 2 ^ 64)))"
proof -
  assume "2 ^ 64 \<le> unat (Amount tx) + unat (Fee tx)" and t: "Type tx = TxTypeStandardTransfer"
  then obtain k where k: "unat (Amount tx) + unat (Fee tx) = 2 ^ 64 + k" using le_Suc_ex by blast
  have "Amount tx + Fee tx = word_of_nat (unat (Amount tx) + unat (Fee tx))" by simp
  also have "\<dots> = word_of_nat k" unfolding k by (simp add: word_unat_eq_iff unat_of_nat del: of_nat_add)
  finally show ?thesis using t k by (simp add: ProcessTransaction_def split: prod.splits)
qed

theorem amount_and_fee_wrap_witness:
  "fst (fst (ProcessTransaction example_accounts id
     \<lparr>Type = 1, Sender = [48], Recipient = [49], Amount = 0xFFFFFFFFFFFFFFFF, Fee = 1, Signature = []\<rparr> (7, NewAliasState))) = 7"
  using amount_and_fee_wrap [of "\<lparr>Type = 1, Sender = [48], Recipient = [49], Amount = 0xFFFFFFFFFFFFFFFF, Fee = 1, Signature = []\<rparr>"
      example_accounts id 7 NewAliasState]
  by (simp add: tx_types example_accounts_def)

end
