(* ===== verification/Spec2Isabelle.thy ===== *)
theory Spec2Isabelle
  imports Nickname_Wallet Web4_Compiler Wallet_Engine Ether_Payment Alias_State
begin

text \<open>
  A verification development for KUBU Core, a proof-of-work ledger with human-readable names, and
  for the web front end and the alias ledger in the same repository. All paths are under \<^verbatim>\<open>src/\<close>.

  \<^bold>\<open>Parts of the program.\<close> A node keeps names on its chain: a nickname operation is the data output of
  a transaction (\<^verbatim>\<open>src/nicknameop.cpp\<close>), its rules and prices are in \<^verbatim>\<open>src/nicknames.cpp\<close>, and the state
  after each block is in a key-value database with undo data (\<^verbatim>\<open>src/nicknamedb.cpp\<close>). These rest on the
  serialization, base58, script and transaction code of the node. A web page, compiled from a YAML
  manifest by \<^verbatim>\<open>www/kubucoin.org/default/compiler.cjs\<close>, runs the wallet widget
  \<^verbatim>\<open>Client-Side/assets/js/wallet-engine.js\<close>, which asks the node through a proxy. \<^verbatim>\<open>vendors/ether.js\<close> pays by
  handle through the contract \<^verbatim>\<open>KubuNameRegistry.sol\<close>, and \<^verbatim>\<open>state/alias.go\<close> with
  \<^verbatim>\<open>kubu-tx/core/tx_processor.go\<close> is an alias ledger of its own.

  \<^bold>\<open>Theories.\<close>
  \<^item> \<^verbatim>\<open>Kubu_Prelude\<close>: bytes, results with an error message, and shared lemmas.
  \<^item> \<^verbatim>\<open>Nicknames\<close> (\<^verbatim>\<open>nicknames.h\<close>, \<^verbatim>\<open>nicknames.cpp\<close>): normalisation, validity, prices, the multiplier and the
    life cycle. Shown: the validity scan is the documented grammar; spellings have one normal form; the
    multiplier keeps its range and falls to its minimum; amounts do not overflow.
  \<^item> \<^verbatim>\<open>Kubu_Serialize\<close> (\<^verbatim>\<open>serialize.h\<close>, \<^verbatim>\<open>streams.h\<close>, \<^verbatim>\<open>script/script.h\<close>): readers and writers with a round trip
    for each, as interpretations of one codec locale.
  \<^item> \<^verbatim>\<open>Kubu_Base58\<close> (\<^verbatim>\<open>base58.cpp\<close>, \<^verbatim>\<open>chainparams.cpp\<close>): base58 in its buffers, with its assertions as outcomes,
    and addresses of the three networks, through the locale \<^verbatim>\<open>address_codec\<close>.
  \<^item> \<^verbatim>\<open>Kubu_Script\<close> (\<^verbatim>\<open>pubkey.h\<close>, \<^verbatim>\<open>script/script.cpp\<close>, \<^verbatim>\<open>script/standard.cpp\<close>): the solver recognises every script
    the wallet constructs.
  \<^item> \<^verbatim>\<open>NicknameOp\<close> (\<^verbatim>\<open>nicknameop.cpp\<close>): operations are read back as built, and whatever is read is well formed.
  \<^item> \<^verbatim>\<open>Kubu_Tx\<close> (\<^verbatim>\<open>primitives/transaction.h\<close>, \<^verbatim>\<open>coins.h\<close>, \<^verbatim>\<open>undo.h\<close>): the data the nickname code reads.
  \<^item> \<^verbatim>\<open>Nickname_Info\<close> (\<^verbatim>\<open>nicknamedb.h\<close>): records and their three disk formats.
  \<^item> \<^verbatim>\<open>Nickname_DB\<close> (\<^verbatim>\<open>nicknamedb.cpp\<close>): every operation of the database. A database is a record of its
    columns, a batch a list of writes and erasures; the locale \<^verbatim>\<open>db_column\<close>, interpreted for all nine
    columns, says what a batch leaves in a column.
  \<^item> \<^verbatim>\<open>Nickname_Blocks\<close> (\<^verbatim>\<open>validation.cpp\<close>): collecting the changes of a block, connecting and disconnecting
    it. Disconnecting restores the database; the owner index and the window of registrations are
    kept exactly; listing the names of a key is complete, listing those of a wallet in pages is not.
  \<^item> \<^verbatim>\<open>Kubu_Money\<close> (\<^verbatim>\<open>utilmoneystr.cpp\<close>): amounts as text. The trimming loop, which has no bound of its own,
    always ends inside the text, and a formatted amount is parsed back.
  \<^item> \<^verbatim>\<open>Nickname_Rules\<close> (\<^verbatim>\<open>validation.cpp\<close>): what the mempool and the blocks share, from finding the operation of
    a transaction to authorisation by the owner, fees and bonds.
  \<^item> \<^verbatim>\<open>Nickname_Consensus\<close> (\<^verbatim>\<open>validation.cpp\<close>): \<^verbatim>\<open>BuildNicknameBlockUpdates\<close>, its captured variables as a record, one
    definition for each case of its switch.
  \<^item> \<^verbatim>\<open>Nickname_Ledger\<close>: the abstract contract, a ledger of names with seven moves, and the invariants of the
    loop. Every accepted transaction is a step of the ledger and every step is accepted.
  \<^item> \<^verbatim>\<open>Nickname_Chain\<close> (\<^verbatim>\<open>ConnectBlock\<close> and \<^verbatim>\<open>DisconnectBlock\<close> of \<^verbatim>\<open>validation.cpp\<close>): the runs of a node that connects and
    disconnects blocks. The database follows the chain, whatever the order of events.
  \<^item> \<^verbatim>\<open>Nickname_Node\<close>: what holds of every node, with a chain of two blocks as its example: the rules are exactly
    the ledger, only the owner changes an active name, bonds stay locked, the indices are exact.
  \<^item> \<^verbatim>\<open>Nickname_Mempool\<close> (\<^verbatim>\<open>CheckNicknameOperationForMempool\<close> of \<^verbatim>\<open>validation.cpp\<close>): the mempool gives the verdict of a
    block with the transaction, holds one operation per name, and accepts spends of unconfirmed
    bonds that no block can hold.
  \<^item> \<^verbatim>\<open>Kubu_Hex\<close> and \<^verbatim>\<open>Kubu_Json\<close> (\<^verbatim>\<open>utilstrencodings.cpp\<close>, \<^verbatim>\<open>uint256.cpp\<close>, \<^verbatim>\<open>univalue\<close>, \<^verbatim>\<open>rpc/server.cpp\<close>): hexadecimal text, hashes as
    text, JSON values and amounts in them; each is read back as it was written.
  \<^item> \<^verbatim>\<open>Nickname_Memo\<close> (\<^verbatim>\<open>wallet/rpcwallet.cpp\<close>): memos. Payloads are canonical, and the checksum finds every change of
    one byte.
  \<^item> \<^verbatim>\<open>Nickname_RPC\<close> (\<^verbatim>\<open>rpc/nicknames.cpp\<close>, \<^verbatim>\<open>wallet/rpcwallet.cpp\<close>): the commands that read, and the resolution of a payee. An
    active name always resolves, since every record of a node was written by an operation with a real address.
  \<^item> \<^verbatim>\<open>Nickname_Send\<close> (the same files, \<^verbatim>\<open>wallet/wallet.cpp\<close>): \<^verbatim>\<open>SendNicknameOperationTx\<close>, the six commands that call it and
    \<^verbatim>\<open>sendtonickname\<close>. A call gives its result or exception and the wallet it leaves; the scoped locks of
    the source are functions around a call.
  \<^item> \<^verbatim>\<open>Nickname_Wallet\<close>: what those commands guarantee. What they report as sent is accepted by the mempool rules, spends
    the bonds it has to and no other, and pays the named record; a failed send restores the locks. Names that are typed with
    an at sign can be priced wrongly, and bonds that were unlocked stay unlocked.
  \<^item> \<^verbatim>\<open>JS_Core\<close>: the part of JavaScript the front end uses, strings being lists of UTF-16 code units.
  \<^item> \<^verbatim>\<open>Web4_Compiler\<close> (\<^verbatim>\<open>compiler.cjs\<close>): the compiler refines an abstract rendering of a site.
  \<^item> \<^verbatim>\<open>Wallet_Engine\<close> (\<^verbatim>\<open>wallet-engine.js\<close>): the page as a step relation over user actions and replies in any
    order; by rule induction, the page pays exactly what it shows, once for each confirmation, and only
    to addresses the network gave.
  \<^item> \<^verbatim>\<open>Ether_Payment\<close> (\<^verbatim>\<open>ether.js\<close>, \<^verbatim>\<open>KubuNameRegistry.sol\<close>): the actions of a payment.
  \<^item> \<^verbatim>\<open>Alias_State\<close> (\<^verbatim>\<open>alias.go\<close>, \<^verbatim>\<open>tx_processor.go\<close>, \<^verbatim>\<open>rpc/api.go\<close>): a client of the locale \<^verbatim>\<open>name_registry\<close>; no
    later transaction takes a registered handle over.

  \<^bold>\<open>Arguments of the model.\<close> Hash functions, checks of curve points, the YAML parser, the evaluation of
  scripts in a manifest, decimal notation of numbers, Unicode case mapping, texts of engine errors,
  the ethers library, replies of the network, the account state, and coin selection, keys and transactions of the
  node's wallet (the record \<^verbatim>\<open>WalletOps\<close>) are arguments. What the theorems need of the wallet are the conditions
  \<^verbatim>\<open>creates_as_asked\<close>, \<^verbatim>\<open>pays_minimum_fee\<close> and \<^verbatim>\<open>coins_in_view\<close>, with a wallet that meets them as the example. What the rest of block
  validation guarantees of a block (new hashes, inputs of earlier transactions) is the condition
  \<^verbatim>\<open>new_block\<close>. No definition uses fuel: every loop is a function with a termination proof, but for the trimming
  loop of \<^verbatim>\<open>FormatMoney\<close>, a partial function that is proved to return. Behaviour of JavaScript that \<^verbatim>\<open>JS_Core\<close> does
  not describe, and pages after markup was put into them, are the error \<^verbatim>\<open>Outside\<close>, and steps that
  give it are not part of the step relation: nothing is claimed about them.

  \<^bold>\<open>Not modelled.\<close> \<^verbatim>\<open>listwalletnicknames\<close>, the rest of the wallet and of the RPC server, disk formats of undo entries,
  secret and extended keys, the script interpreter, peer to peer code, mining and proof of work are inherited
  from upstream or only format what is modelled. \<^verbatim>\<open>registerName\<close> of the contract does not type check and has no meaning to
  model. \<^verbatim>\<open>server.go\<close>, the graphical interface and the vendored libraries are input and output or code
  the sources only call.
\<close>

end
